(* ===== verification/Prelude.thy ===== *)
theory Prelude
  imports Main "HOL-Library.Word" "HOL-Library.Code_Target_Nat"
begin

text \<open>
  Shared vocabulary of the development: machine integers, results with early return,
  panics as values, and the interface of an incremental stream decoder.

  \<^item> A Rust \<open>Result<T, E>\<close> is a sum \<open>'e + 'a\<close>, \<open>Inl\<close> being the error.
  \<^item> A sequence of statements \<open>check()?;\<close> is \<open>seq_checks\<close> over the list of checks: the
    first failing check is the result, as the \<open>?\<close> operator makes it.
  \<^item> A statement that can panic (\<open>unreachable!\<close>, indexing, \<open>expect\<close>) has the fault
    value \<open>Panic\<close>, so that a theorem can state that the panic is never reached.
\<close>

named_theorems result_simps \<open>rewrite rules for results, checks and early returns\<close>

type_synonym u8 = "8 word"
type_synonym u16 = "16 word"
type_synonym u32 = "32 word"
type_synonym u64 = "64 word"

section \<open>Results and early return\<close>

datatype 'e fault = Err 'e | Panic

definition fail_if :: "bool \<Rightarrow> 'e \<Rightarrow> 'e + unit" where
  "fail_if c e = (if c then Inl e else Inr ())"

primrec seq_checks :: "('e + unit) list \<Rightarrow> 'e + unit" where
  "seq_checks [] = Inr ()"
| "seq_checks (c # cs) = (case c of Inl e \<Rightarrow> Inl e | Inr _ \<Rightarrow> seq_checks cs)"

definition check_all :: "('a \<Rightarrow> 'e + unit) \<Rightarrow> 'a list \<Rightarrow> 'e + unit" where
  "check_all f xs = seq_checks (map f xs)"

definition bind_result :: "'e + 'a \<Rightarrow> ('a \<Rightarrow> 'e + 'b) \<Rightarrow> 'e + 'b" where
  "bind_result r f = (case r of Inl e \<Rightarrow> Inl e | Inr x \<Rightarrow> f x)"

text \<open>\<open>collect\<close> of an iterator of results: all values, or the first error.\<close>

fun collect_results :: "('a \<Rightarrow> 'e + 'b) \<Rightarrow> 'a list \<Rightarrow> 'e + 'b list" where
  "collect_results f [] = Inr []"
| "collect_results f (x # xs) = bind_result (f x) (\<lambda>y. bind_result (collect_results f xs) (\<lambda>ys. Inr (y # ys)))"

definition ok_or :: "'e \<Rightarrow> 'a option \<Rightarrow> 'e + 'a" where
  "ok_or e v = (case v of None \<Rightarrow> Inl e | Some x \<Rightarrow> Inr x)"

definition is_ok :: "'e + 'a \<Rightarrow> bool" where
  "is_ok r = (case r of Inl _ \<Rightarrow> False | Inr _ \<Rightarrow> True)"

lemma fail_if_ok [result_simps]: "fail_if c e = Inr u \<longleftrightarrow> \<not> c"
  by (simp add: fail_if_def)

lemma fail_if_err [result_simps]: "fail_if c e = Inl e' \<longleftrightarrow> c \<and> e' = e"
  by (auto simp: fail_if_def)

lemma seq_checks_ok [result_simps]: "seq_checks cs = Inr u \<longleftrightarrow> (\<forall>c \<in> set cs. c = Inr ())"
  by (induction cs) (auto split: sum.splits)

lemma seq_checks_append [result_simps]:
  "seq_checks (cs @ ds) = (case seq_checks cs of Inl e \<Rightarrow> Inl e | Inr _ \<Rightarrow> seq_checks ds)"
  by (induction cs) (auto split: sum.splits)

declare seq_checks.simps(2) [simp del]

lemma seq_checks_err: "seq_checks cs = Inl e \<Longrightarrow> Inl e \<in> set cs"
  by (induction cs) (auto simp: seq_checks.simps(2) split: sum.splits)

lemma check_all_ok [result_simps]: "check_all f xs = Inr u \<longleftrightarrow> (\<forall>x \<in> set xs. f x = Inr ())"
  by (simp add: check_all_def seq_checks_ok)

lemma bind_result_ok [result_simps]:
  "bind_result r f = Inr y \<longleftrightarrow> (\<exists>x. r = Inr x \<and> f x = Inr y)"
  by (auto simp: bind_result_def split: sum.splits)

lemma ok_or_ok [result_simps]: "ok_or e v = Inr x \<longleftrightarrow> v = Some x"
  by (cases v) (auto simp: ok_or_def)

lemma ok_or_Some [simp]: "ok_or e (Some x) = Inr x" "ok_or e None = Inl e"
  by (simp_all add: ok_or_def)

lemma collect_results_ok:
  "collect_results f xs = Inr ys \<Longrightarrow> list_all2 (\<lambda>x y. f x = Inr y) xs ys"
  by (induction xs arbitrary: ys) (auto simp: bind_result_def split: sum.splits)

lemma bind_result_Inr [simp]: "bind_result (Inr x) f = f x"
  by (simp add: bind_result_def)

lemma bind_result_Inl [simp]: "bind_result (Inl e) f = Inl e"
  by (simp add: bind_result_def)

lemma is_ok_Inr [simp]: "is_ok (Inr x)"
  by (simp add: is_ok_def)

lemma is_ok_Inl [simp]: "\<not> is_ok (Inl e)"
  by (simp add: is_ok_def)

lemma is_ok_iff: "is_ok r \<longleftrightarrow> (\<exists>x. r = Inr x)"
  by (cases r) auto

section \<open>Incremental decoders\<close>

text \<open>
  Feeding a decoder a stream that arrives in chunks: each chunk is decoded in the state the
  previous one left, outputs are joined, the first error ends the run in the state it left.
\<close>

fun feed :: "('s \<Rightarrow> 'b list \<Rightarrow> ('e + 'o) \<times> 's) \<Rightarrow> ('o \<Rightarrow> 'o \<Rightarrow> 'o) \<Rightarrow> 'o \<Rightarrow> 's \<Rightarrow>
    'b list list \<Rightarrow> ('e + 'o) \<times> 's" where
  "feed dec app acc s [] = (Inr acc, s)"
| "feed dec app acc s (c # cs) =
     (case dec s c of
        (Inl e, s') \<Rightarrow> (Inl e, s')
      | (Inr r, s') \<Rightarrow> feed dec app (app acc r) s' cs)"

text \<open>
  The contract of an incremental decoder: a state change per chunk, an output monoid, and the
  law that decoding a concatenation is decoding its two halves one after the other.
\<close>

locale stream_decoder =
  fixes dec :: "'s \<Rightarrow> 'b list \<Rightarrow> ('e + 'o) \<times> 's"
    and app :: "'o \<Rightarrow> 'o \<Rightarrow> 'o"
    and none :: 'o
  assumes dec_nil: "dec s [] = (Inr none, s)"
    and dec_append: "dec s (xs @ ys) =
          (case dec s xs of
             (Inl e, s') \<Rightarrow> (Inl e, s')
           | (Inr r, s') \<Rightarrow> (case dec s' ys of
                (Inl e, s'') \<Rightarrow> (Inl e, s'')
              | (Inr r', s'') \<Rightarrow> (Inr (app r r'), s'')))"
    and app_assoc: "app (app a b) c = app a (app b c)"
    and app_none_left: "app none a = a"
    and app_none_right: "app a none = a"
begin

lemma feed_acc:
  "feed dec app acc s cs =
     (case dec s (concat cs) of
        (Inl e, s') \<Rightarrow> (Inl e, s')
      | (Inr r, s') \<Rightarrow> (Inr (app acc r), s'))"
proof (induction cs arbitrary: acc s)
  case Nil
  show ?case by (simp add: dec_nil app_none_right)
next
  case (Cons c cs)
  then show ?case
    by (auto simp: dec_append app_assoc split: prod.splits sum.splits)
qed

text \<open>The chunk boundaries of a stream do not influence what is decoded from it.\<close>

lemma feed_concat: "feed dec app none s cs = dec s (concat cs)"
  by (auto simp: feed_acc app_none_left split: prod.splits sum.splits)

lemma feed_fragmentation:
  "concat cs = concat ds \<Longrightarrow> feed dec app none s cs = feed dec app none s ds"
  by (simp add: feed_concat)

end

end
