(* ===== verification/TelnetProtocol.thy ===== *)
theory TelnetProtocol
  imports Prelude
begin

text \<open>
  The Telnet codec of \<open>crates/telnet-runtime/src/protocol.rs\<close>: the byte-by-byte decoder with
  its option negotiation, and the two encoders. The arrays \<open>[bool; 256]\<close> indexed by
  \<open>usize::from(option)\<close> are total functions on \<open>u8\<close>; \<open>unreachable!\<close> is the fault \<open>Panic\<close>.
\<close>

section \<open>Constants and data\<close>

abbreviation IAC :: u8 where "IAC \<equiv> 255"
abbreviation DONT :: u8 where "DONT \<equiv> 254"
abbreviation DO_cmd :: u8 where "DO_cmd \<equiv> 253"
abbreviation WONT :: u8 where "WONT \<equiv> 252"
abbreviation WILL :: u8 where "WILL \<equiv> 251"
abbreviation SB :: u8 where "SB \<equiv> 250"
abbreviation SE :: u8 where "SE \<equiv> 240"

abbreviation OPT_BINARY :: u8 where "OPT_BINARY \<equiv> 0"
abbreviation OPT_ECHO :: u8 where "OPT_ECHO \<equiv> 1"
abbreviation OPT_SUPPRESS_GO_AHEAD :: u8 where "OPT_SUPPRESS_GO_AHEAD \<equiv> 3"
abbreviation OPT_TERMINAL_TYPE :: u8 where "OPT_TERMINAL_TYPE \<equiv> 24"
abbreviation OPT_NAWS :: u8 where "OPT_NAWS \<equiv> 31"
abbreviation TTYPE_IS :: u8 where "TTYPE_IS \<equiv> 0"
abbreviation TTYPE_SEND :: u8 where "TTYPE_SEND \<equiv> 1"

definition MAX_SUBNEGOTIATION_BYTES :: nat where
  "MAX_SUBNEGOTIATION_BYTES = 4 * 1024"

definition DEFAULT_TERMINAL_TYPE :: "u8 list" where
  "DEFAULT_TERMINAL_TYPE = map of_char ''xterm-256color''"

datatype NegotiatedOption =
  LocalNaws | LocalTerminalType | LocalBinary | RemoteBinary | RemoteEcho | RemoteSuppressGoAhead

record DecodeResult =
  data :: "u8 list"
  responses :: "u8 list"
  enabled :: "NegotiatedOption list"

definition DecodeResult_default :: DecodeResult where
  "DecodeResult_default = \<lparr>data = [], responses = [], enabled = []\<rparr>"

datatype ProtocolError = SubnegotiationTooLarge

datatype ParseState =
  Data | Iac | Negotiation u8 | SubnegotiationOption | Subnegotiation | SubnegotiationIac

record TelnetCodec =
  state :: ParseState
  subnegotiation_option :: "u8 option"
  subnegotiation :: "u8 list"
  local_enabled :: "u8 \<Rightarrow> bool"
  remote_enabled :: "u8 \<Rightarrow> bool"
  local_refused :: "u8 \<Rightarrow> bool"
  remote_refused :: "u8 \<Rightarrow> bool"

definition TelnetCodec_new :: TelnetCodec where
  "TelnetCodec_new =
     \<lparr>state = Data, subnegotiation_option = None, subnegotiation = [],
      local_enabled = (\<lambda>_. False), remote_enabled = (\<lambda>_. False),
      local_refused = (\<lambda>_. False), remote_refused = (\<lambda>_. False)\<rparr>"

definition local_naws_enabled :: "TelnetCodec \<Rightarrow> bool" where
  "local_naws_enabled c = local_enabled c OPT_NAWS"

section \<open>Option allowlists\<close>

definition allows_local :: "u8 \<Rightarrow> bool" where
  "allows_local opt = (opt \<in> {OPT_BINARY, OPT_TERMINAL_TYPE, OPT_NAWS})"

definition allows_remote :: "u8 \<Rightarrow> bool" where
  "allows_remote opt = (opt \<in> {OPT_BINARY, OPT_ECHO, OPT_SUPPRESS_GO_AHEAD})"

definition local_option :: "u8 \<Rightarrow> NegotiatedOption option" where
  "local_option opt =
     (if opt = OPT_NAWS then Some LocalNaws
      else if opt = OPT_TERMINAL_TYPE then Some LocalTerminalType
      else if opt = OPT_BINARY then Some LocalBinary
      else None)"

definition remote_option :: "u8 \<Rightarrow> NegotiatedOption option" where
  "remote_option opt =
     (if opt = OPT_BINARY then Some RemoteBinary
      else if opt = OPT_ECHO then Some RemoteEcho
      else if opt = OPT_SUPPRESS_GO_AHEAD then Some RemoteSuppressGoAhead
      else None)"

section \<open>Encoders\<close>

fun append_escaped :: "u8 list \<Rightarrow> u8 list \<Rightarrow> u8 list" where
  "append_escaped target [] = target"
| "append_escaped target (b # bs) =
     append_escaped (if b = IAC then target @ [b, IAC] else target @ [b]) bs"

definition encode_user_input :: "u8 list \<Rightarrow> u8 list" where
  "encode_user_input d = append_escaped [] d"

definition u16_to_be_bytes :: "u16 \<Rightarrow> u8 list" where
  "u16_to_be_bytes w = [ucast (drop_bit 8 w), ucast w]"

definition encode_naws :: "u16 \<Rightarrow> u16 \<Rightarrow> u8 list" where
  "encode_naws rows cols =
     append_escaped (append_escaped [IAC, SB, OPT_NAWS] (u16_to_be_bytes cols))
       (u16_to_be_bytes rows) @ [IAC, SE]"

section \<open>The decoder\<close>

text \<open>Output of one step: bytes for the terminal, replies for the peer, options newly on.\<close>

definition push_data :: "u8 \<Rightarrow> DecodeResult \<Rightarrow> DecodeResult" where
  "push_data b d = d\<lparr>data := data d @ [b]\<rparr>"

definition respond :: "u8 list \<Rightarrow> DecodeResult \<Rightarrow> DecodeResult" where
  "respond bs d = d\<lparr>responses := responses d @ bs\<rparr>"

definition push_enabled :: "NegotiatedOption \<Rightarrow> DecodeResult \<Rightarrow> DecodeResult" where
  "push_enabled p d = d\<lparr>enabled := enabled d @ [p]\<rparr>"

definition push_subnegotiation ::
    "TelnetCodec \<Rightarrow> u8 \<Rightarrow> (ProtocolError fault + unit) \<times> TelnetCodec" where
  "push_subnegotiation c b =
     (if length (subnegotiation c) \<ge> MAX_SUBNEGOTIATION_BYTES
      then (Inl (Err SubnegotiationTooLarge),
            c\<lparr>subnegotiation := [], subnegotiation_option := None, state := Data\<rparr>)
      else (Inr (), c\<lparr>subnegotiation := subnegotiation c @ [b]\<rparr>))"

text \<open>The match on the command byte; \<open>None\<close> is the panic of \<open>local_option\<close>/\<open>remote_option\<close>.\<close>

definition handle_negotiation ::
    "TelnetCodec \<Rightarrow> u8 \<Rightarrow> u8 \<Rightarrow> DecodeResult \<Rightarrow> (TelnetCodec \<times> DecodeResult) option" where
  "handle_negotiation c command opt d =
     (if command = DO_cmd \<and> allows_local opt then
        (if \<not> local_enabled c opt then
           (case local_option opt of
              None \<Rightarrow> None
            | Some p \<Rightarrow> Some
                (c\<lparr>local_enabled := (local_enabled c)(opt := True),
                   local_refused := (local_refused c)(opt := False)\<rparr>,
                 push_enabled p (respond [IAC, WILL, opt] d)))
         else Some (c, d))
      else if command = DO_cmd then
        (if \<not> local_refused c opt
         then Some (c\<lparr>local_refused := (local_refused c)(opt := True)\<rparr>, respond [IAC, WONT, opt] d)
         else Some (c, d))
      else if command = DONT then
        (if local_enabled c opt
         then Some (c\<lparr>local_enabled := (local_enabled c)(opt := False)\<rparr>, respond [IAC, WONT, opt] d)
         else Some (c, d))
      else if command = WILL \<and> allows_remote opt then
        (if \<not> remote_enabled c opt then
           (case remote_option opt of
              None \<Rightarrow> None
            | Some p \<Rightarrow> Some
                (c\<lparr>remote_enabled := (remote_enabled c)(opt := True),
                   remote_refused := (remote_refused c)(opt := False)\<rparr>,
                 push_enabled p (respond [IAC, DO_cmd, opt] d)))
         else Some (c, d))
      else if command = WILL then
        (if \<not> remote_refused c opt
         then Some (c\<lparr>remote_refused := (remote_refused c)(opt := True)\<rparr>, respond [IAC, DONT, opt] d)
         else Some (c, d))
      else if command = WONT \<and> remote_enabled c opt then
        Some (c\<lparr>remote_enabled := (remote_enabled c)(opt := False)\<rparr>, respond [IAC, DONT, opt] d)
      else Some (c, d))"

definition finish_subnegotiation ::
    "TelnetCodec \<Rightarrow> DecodeResult \<Rightarrow> TelnetCodec \<times> DecodeResult" where
  "finish_subnegotiation c d =
     (c\<lparr>subnegotiation := [], subnegotiation_option := None\<rparr>,
      if subnegotiation_option c = Some OPT_TERMINAL_TYPE
         \<and> local_enabled c OPT_TERMINAL_TYPE
         \<and> subnegotiation c = [TTYPE_SEND]
      then d\<lparr>responses :=
              append_escaped (responses d @ [IAC, SB, OPT_TERMINAL_TYPE, TTYPE_IS])
                DEFAULT_TERMINAL_TYPE @ [IAC, SE]\<rparr>
      else d)"

text \<open>One iteration of the loop of \<open>TelnetCodec::decode\<close>.\<close>

definition decode_byte ::
    "TelnetCodec \<Rightarrow> DecodeResult \<Rightarrow> u8 \<Rightarrow> (ProtocolError fault + DecodeResult) \<times> TelnetCodec" where
  "decode_byte c d b =
     (case state c of
        Data \<Rightarrow>
          (if b = IAC then (Inr d, c\<lparr>state := Iac\<rparr>) else (Inr (push_data b d), c))
      | Iac \<Rightarrow>
          (if b = IAC then (Inr (push_data IAC d), c\<lparr>state := Data\<rparr>)
           else if b \<in> {DO_cmd, DONT, WILL, WONT} then (Inr d, c\<lparr>state := Negotiation b\<rparr>)
           else if b = SB then (Inr d, c\<lparr>state := SubnegotiationOption\<rparr>)
           else (Inr d, c\<lparr>state := Data\<rparr>))
      | Negotiation command \<Rightarrow>
          (case handle_negotiation c command b d of
             None \<Rightarrow> (Inl Panic, c)
           | Some (c', d') \<Rightarrow> (Inr d', c'\<lparr>state := Data\<rparr>))
      | SubnegotiationOption \<Rightarrow>
          (Inr d, c\<lparr>subnegotiation_option := Some b, subnegotiation := [], state := Subnegotiation\<rparr>)
      | Subnegotiation \<Rightarrow>
          (if b = IAC then (Inr d, c\<lparr>state := SubnegotiationIac\<rparr>)
           else (case push_subnegotiation c b of
                   (Inl e, c') \<Rightarrow> (Inl e, c')
                 | (Inr _, c') \<Rightarrow> (Inr d, c')))
      | SubnegotiationIac \<Rightarrow>
          (if b = IAC then
             (case push_subnegotiation c IAC of
                (Inl e, c') \<Rightarrow> (Inl e, c')
              | (Inr _, c') \<Rightarrow> (Inr d, c'\<lparr>state := Subnegotiation\<rparr>))
           else if b = SE then
             (case finish_subnegotiation c d of (c', d') \<Rightarrow> (Inr d', c'\<lparr>state := Data\<rparr>))
           else (Inr d, c\<lparr>subnegotiation := [], subnegotiation_option := None, state := Data\<rparr>)))"

fun decode_bytes ::
    "TelnetCodec \<Rightarrow> DecodeResult \<Rightarrow> u8 list \<Rightarrow> (ProtocolError fault + DecodeResult) \<times> TelnetCodec" where
  "decode_bytes c d [] = (Inr d, c)"
| "decode_bytes c d (b # bs) =
     (case decode_byte c d b of
        (Inl e, c') \<Rightarrow> (Inl e, c')
      | (Inr d', c') \<Rightarrow> decode_bytes c' d' bs)"

definition decode :: "TelnetCodec \<Rightarrow> u8 list \<Rightarrow> (ProtocolError fault + DecodeResult) \<times> TelnetCodec" where
  "decode c bs = decode_bytes c DecodeResult_default bs"

section \<open>Outputs as a monoid\<close>

definition dr_append :: "DecodeResult \<Rightarrow> DecodeResult \<Rightarrow> DecodeResult" where
  "dr_append a b = \<lparr>data = data a @ data b, responses = responses a @ responses b,
     enabled = enabled a @ enabled b\<rparr>"

lemma dr_append_assoc [simp]: "dr_append (dr_append a b) c = dr_append a (dr_append b c)"
  by (simp add: dr_append_def)

lemma dr_append_default [simp]:
  "dr_append DecodeResult_default a = a" "dr_append a DecodeResult_default = a"
  by (simp_all add: dr_append_def DecodeResult_default_def)

lemma append_escaped_acc: "append_escaped t bs = t @ append_escaped [] bs"
proof (induction bs arbitrary: t)
  case Nil
  show ?case by simp
next
  case (Cons b bs)
  show ?case
    using Cons [of "t @ [IAC, IAC]"] Cons [of "t @ [b]"] Cons [of "[b]"] Cons [of "[IAC, IAC]"]
    by auto
qed

lemma append_escaped_Cons:
  "append_escaped [] (b # bs) = (if b = IAC then [IAC, IAC] else [b]) @ append_escaped [] bs"
  using append_escaped_acc [of "[b]" bs] append_escaped_acc [of "[IAC, IAC]" bs] by auto

text \<open>The accumulated output only grows: a step appends to it what it would output from nothing.\<close>

definition map_res :: "('o \<Rightarrow> 'o) \<Rightarrow> ('e + 'o) \<times> 's \<Rightarrow> ('e + 'o) \<times> 's" where
  "map_res f r = (case r of (Inl e, s) \<Rightarrow> (Inl e, s) | (Inr d, s) \<Rightarrow> (Inr (f d), s))"

lemma handle_negotiation_acc:
  "handle_negotiation c cmd opt d =
     map_option (\<lambda>(c', d'). (c', dr_append d d')) (handle_negotiation c cmd opt DecodeResult_default)"
  by (auto simp: handle_negotiation_def dr_append_def DecodeResult_default_def respond_def
      push_enabled_def split: option.splits)

lemma finish_subnegotiation_acc:
  "finish_subnegotiation c d =
     (case finish_subnegotiation c DecodeResult_default of (c', d') \<Rightarrow> (c', dr_append d d'))"
  by (simp add: finish_subnegotiation_def dr_append_def DecodeResult_default_def
      append_escaped_acc [of "responses d @ _"] append_escaped_acc [of "_ # _"])

lemma decode_byte_acc:
  "decode_byte c d b = map_res (dr_append d) (decode_byte c DecodeResult_default b)"
proof (cases "state c")
  case (Negotiation cmd)
  then show ?thesis
    by (subst (1 2) decode_byte_def) (simp add: handle_negotiation_acc [of c cmd b d] map_res_def split: option.splits)
next
  case SubnegotiationIac
  then show ?thesis
    by (subst (1 2) decode_byte_def)
      (simp add: finish_subnegotiation_acc [of c d] map_res_def dr_append_def DecodeResult_default_def split: prod.splits sum.splits)
qed (auto simp: decode_byte_def map_res_def dr_append_def DecodeResult_default_def push_data_def
      split: prod.splits sum.splits)

lemma decode_bytes_acc:
  "decode_bytes c d bs = map_res (dr_append d) (decode_bytes c DecodeResult_default bs)"
proof (induction bs arbitrary: c d)
  case Nil
  show ?case by (simp add: map_res_def)
next
  case (Cons b bs)
  obtain r c' where r: "decode_byte c DecodeResult_default b = (r, c')" by force
  show ?case
  proof (cases r)
    case (Inl e)
    with r show ?thesis by (simp add: decode_byte_acc [of c d] map_res_def)
  next
    case (Inr d')
    with r show ?thesis
      using Cons [of c' "dr_append d d'"] Cons [of c' d']
      by (simp add: decode_byte_acc [of c d] map_res_def split: prod.splits sum.splits)
  qed
qed

lemma decode_bytes_append:
  "decode_bytes c d (xs @ ys) =
     (case decode_bytes c d xs of (Inl e, c') \<Rightarrow> (Inl e, c') | (Inr d', c') \<Rightarrow> decode_bytes c' d' ys)"
  by (induction xs arbitrary: c d) (auto split: prod.splits sum.splits)

lemma decode_append:
  "decode c (xs @ ys) =
     (case decode c xs of (Inl e, s') \<Rightarrow> (Inl e, s')
      | (Inr r, s') \<Rightarrow> (case decode s' ys of (Inl e, s'') \<Rightarrow> (Inl e, s'')
           | (Inr r', s'') \<Rightarrow> (Inr (dr_append r r'), s'')))"
proof -
  obtain r c' where r: "decode c xs = (r, c')" by force
  show ?thesis
  proof (cases r)
    case (Inl e)
    with r show ?thesis by (simp add: decode_def decode_bytes_append)
  next
    case (Inr d)
    with r have "decode c (xs @ ys) = map_res (dr_append d) (decode c' ys)"
      by (simp add: decode_def decode_bytes_append decode_bytes_acc [of c' d ys])
    with r Inr show ?thesis by (simp add: map_res_def)
  qed
qed

interpretation telnet: stream_decoder decode dr_append DecodeResult_default
  by unfold_locales (simp_all add: decode_append, simp add: decode_def)

section \<open>Codec invariant\<close>

definition negotiation_commands :: "u8 set" where
  "negotiation_commands = {DO_cmd, DONT, WILL, WONT}"

definition wf_codec :: "TelnetCodec \<Rightarrow> bool" where
  "wf_codec c \<longleftrightarrow>
     length (subnegotiation c) \<le> MAX_SUBNEGOTIATION_BYTES \<and>
     (\<forall>opt. local_enabled c opt \<longrightarrow> allows_local opt) \<and>
     (\<forall>opt. remote_enabled c opt \<longrightarrow> allows_remote opt) \<and>
     (\<forall>opt. local_refused c opt \<longrightarrow> \<not> allows_local opt) \<and>
     (\<forall>opt. remote_refused c opt \<longrightarrow> \<not> allows_remote opt) \<and>
     (\<forall>cmd. state c = Negotiation cmd \<longrightarrow> cmd \<in> negotiation_commands) \<and>
     (subnegotiation_option c \<noteq> None \<longleftrightarrow> state c \<in> {Subnegotiation, SubnegotiationIac}) \<and>
     (subnegotiation_option c = None \<longrightarrow> subnegotiation c = [])"

lemma wf_codec_new: "wf_codec TelnetCodec_new"
  by (simp add: wf_codec_def TelnetCodec_new_def)

lemma local_option_allowed: "allows_local opt \<Longrightarrow> \<exists>p. local_option opt = Some p"
  by (auto simp: allows_local_def local_option_def)

lemma remote_option_allowed: "allows_remote opt \<Longrightarrow> \<exists>p. remote_option opt = Some p"
  by (auto simp: allows_remote_def remote_option_def)

lemma handle_negotiation_total: "\<exists>c' d'. handle_negotiation c cmd opt d = Some (c', d')"
  using local_option_allowed [of opt] remote_option_allowed [of opt]
  by (auto simp: handle_negotiation_def)

lemma handle_negotiation_wf:
  "handle_negotiation c cmd opt d = Some (c', d') \<Longrightarrow> wf_codec c \<Longrightarrow> state c = Negotiation cmd \<Longrightarrow>
   wf_codec (c'\<lparr>state := Data\<rparr>)"
  by (auto simp: handle_negotiation_def wf_codec_def split: if_splits option.splits)

lemma push_subnegotiation_wf:
  "push_subnegotiation c b = (r, c') \<Longrightarrow> wf_codec c \<Longrightarrow> state c \<in> {Subnegotiation, SubnegotiationIac} \<Longrightarrow>
   wf_codec c' \<and> r \<noteq> Inl Panic \<and> (is_ok r \<longrightarrow> wf_codec (c'\<lparr>state := Subnegotiation\<rparr>))"
  by (auto simp: push_subnegotiation_def wf_codec_def split: if_splits)

lemma decode_byte_wf:
  assumes "decode_byte c d b = (r, c')" and "wf_codec c"
  shows "wf_codec c' \<and> r \<noteq> Inl Panic"
proof (cases "state c")
  case (Negotiation cmd)
  obtain c1 d1 where h: "handle_negotiation c cmd b d = Some (c1, d1)"
    using handle_negotiation_total by blast
  with assms Negotiation show ?thesis
    using handle_negotiation_wf [OF h] by (auto simp: decode_byte_def)
next
  case Subnegotiation
  show ?thesis
  proof (cases "b = IAC")
    case True
    with assms Subnegotiation show ?thesis by (auto simp: decode_byte_def wf_codec_def)
  next
    case False
    with assms Subnegotiation push_subnegotiation_wf [of c b] show ?thesis
      by (auto simp: decode_byte_def split: prod.splits sum.splits)
  qed
next
  case SubnegotiationIac
  show ?thesis
  proof (cases "b = IAC")
    case True
    with assms SubnegotiationIac push_subnegotiation_wf [of c IAC] show ?thesis
      by (auto simp: decode_byte_def split: prod.splits sum.splits)
  next
    case False
    with assms SubnegotiationIac show ?thesis
      by (auto simp: decode_byte_def wf_codec_def finish_subnegotiation_def split: if_splits)
  qed
qed (use assms in \<open>auto simp: decode_byte_def wf_codec_def negotiation_commands_def split: if_splits\<close>)

lemma decode_bytes_wf:
  "decode_bytes c d bs = (r, c') \<Longrightarrow> wf_codec c \<Longrightarrow> wf_codec c' \<and> r \<noteq> Inl Panic"
proof (induction bs arbitrary: c d)
  case (Cons b bs)
  obtain r1 c1 where s: "decode_byte c d b = (r1, c1)" by force
  from decode_byte_wf [OF s Cons.prems(2)] s Cons.prems(1) Cons.IH [of c1] show ?case
    by (cases r1) auto
qed auto

section \<open>The stream of replies\<close>

text \<open>What each input byte makes the codec send, in order, up to the end or the first error.\<close>

fun response_trace :: "TelnetCodec \<Rightarrow> u8 list \<Rightarrow> u8 list list" where
  "response_trace c [] = []"
| "response_trace c (b # bs) =
     (case decode_byte c DecodeResult_default b of
        (Inl _, _) \<Rightarrow> []
      | (Inr d, c') \<Rightarrow> responses d # response_trace c' bs)"

lemma decode_responses: "decode c bs = (Inr d, c') \<Longrightarrow> responses d = concat (response_trace c bs)"
proof (induction bs arbitrary: c d)
  case Nil
  then show ?case by (auto simp: decode_def DecodeResult_default_def)
next
  case (Cons b bs)
  obtain r1 c1 where s: "decode_byte c DecodeResult_default b = (r1, c1)" by force
  with Cons.prems obtain d1 where d1: "r1 = Inr d1" by (cases r1) (auto simp: decode_def)
  with s Cons.prems have "map_res (dr_append d1) (decode c1 bs) = (Inr d, c')"
    by (simp add: decode_def decode_bytes_acc [of c1 d1])
  then obtain d2 where "decode c1 bs = (Inr d2, c')" "d = dr_append d1 d2"
    by (auto simp: map_res_def split: prod.splits sum.splits)
  with Cons.IH [of c1 d2] s d1 show ?case by (simp add: dr_append_def)
qed

definition terminal_type_reply :: "u8 list" where
  "terminal_type_reply = [IAC, SB, OPT_TERMINAL_TYPE, TTYPE_IS] @ DEFAULT_TERMINAL_TYPE @ [IAC, SE]"

definition permitted_reply :: "u8 list \<Rightarrow> bool" where
  "permitted_reply r \<longleftrightarrow>
     r = [] \<or> r = terminal_type_reply \<or>
     (\<exists>opt. r = [IAC, WILL, opt] \<and> allows_local opt \<or> r = [IAC, DO_cmd, opt] \<and> allows_remote opt \<or>
            r = [IAC, WONT, opt] \<or> r = [IAC, DONT, opt])"

text \<open>The replies of a step in the negotiation state, and the state it leaves, per command.\<close>

lemma negotiation_step:
  assumes "handle_negotiation c cmd opt DecodeResult_default = Some (c', d)"
  shows "permitted_reply (responses d)"
  using assms
  by (auto simp: handle_negotiation_def permitted_reply_def respond_def push_enabled_def
      DecodeResult_default_def split: if_splits option.splits)

lemma append_escaped_type: "append_escaped t DEFAULT_TERMINAL_TYPE = t @ DEFAULT_TERMINAL_TYPE"
  by (simp add: DEFAULT_TERMINAL_TYPE_def)

lemma decode_byte_permitted:
  assumes "decode_byte c DecodeResult_default b = (Inr d, c')"
  shows "permitted_reply (responses d)"
  using assms
  by (auto simp: decode_byte_def push_data_def DecodeResult_default_def finish_subnegotiation_def
      append_escaped_type terminal_type_reply_def permitted_reply_def
      dest: negotiation_step [unfolded permitted_reply_def DecodeResult_default_def terminal_type_reply_def]
      split: ParseState.splits if_splits option.splits prod.splits sum.splits)

lemma response_trace_permitted: "r \<in> set (response_trace c bs) \<Longrightarrow> permitted_reply r"
proof (induction bs arbitrary: c)
  case (Cons b bs)
  obtain r1 c1 where s: "decode_byte c DecodeResult_default b = (r1, c1)" by force
  with Cons show ?case using decode_byte_permitted by (cases r1) auto
qed simp

text \<open>
  A disallowed option is refused by one reply. The reply is sent only while the refusal is not
  recorded, sending it records it, and nothing clears it again.
\<close>

lemma decode_byte_local_refusal:
  assumes "decode_byte c DecodeResult_default b = (Inr d, c')" and "wf_codec c" and "\<not> allows_local opt"
  shows "(responses d = [IAC, WONT, opt] \<longrightarrow> \<not> local_refused c opt \<and> local_refused c' opt)
    \<and> (local_refused c opt \<longrightarrow> local_refused c' opt)"
  using assms
  by (auto simp: decode_byte_def wf_codec_def handle_negotiation_def push_data_def respond_def
      push_enabled_def DecodeResult_default_def finish_subnegotiation_def append_escaped_type
      push_subnegotiation_def DEFAULT_TERMINAL_TYPE_def
      split: ParseState.splits if_splits option.splits)

lemma decode_byte_remote_refusal:
  assumes "decode_byte c DecodeResult_default b = (Inr d, c')" and "wf_codec c" and "\<not> allows_remote opt"
  shows "(responses d = [IAC, DONT, opt] \<longrightarrow> \<not> remote_refused c opt \<and> remote_refused c' opt)
    \<and> (remote_refused c opt \<longrightarrow> remote_refused c' opt)"
  using assms
  by (auto simp: decode_byte_def wf_codec_def handle_negotiation_def push_data_def respond_def
      push_enabled_def DecodeResult_default_def finish_subnegotiation_def append_escaped_type
      push_subnegotiation_def DEFAULT_TERMINAL_TYPE_def
      split: ParseState.splits if_splits option.splits)

lemma count_list_trace_flag:
  assumes flag: "\<And>c b d c'. decode_byte c DecodeResult_default b = (Inr d, c') \<Longrightarrow> wf_codec c \<Longrightarrow>
      (responses d = r \<longrightarrow> \<not> f c \<and> f c') \<and> (f c \<longrightarrow> f c')"
    and "wf_codec c"
  shows "count_list (response_trace c bs) r \<le> (if f c then 0 else 1)"
  using assms(2)
proof (induction bs arbitrary: c)
  case (Cons b bs)
  obtain r1 c1 where s: "decode_byte c DecodeResult_default b = (r1, c1)" by force
  show ?case
  proof (cases r1)
    case (Inr d)
    with s Cons.prems have "wf_codec c1" using decode_byte_wf by blast
    from Cons.IH [OF this] flag [OF s [unfolded Inr] Cons.prems] s Inr show ?thesis
      by (auto split: if_splits)
  qed (use s in simp)
qed simp

section \<open>Streams of Telnet items\<close>

text \<open>
  The grammar of a Telnet stream, as the items a peer means to send, and their byte rendering.
\<close>

datatype telnet_item =
    Text u8
  | Literal_IAC
  | Command u8
  | Negotiate u8 u8
  | Subneg u8 "u8 list"

fun wf_item :: "telnet_item \<Rightarrow> bool" where
  "wf_item (Text b) = (b \<noteq> IAC)"
| "wf_item Literal_IAC = True"
| "wf_item (Command b) = (b \<notin> insert IAC (insert SB negotiation_commands))"
| "wf_item (Negotiate cmd opt) = (cmd \<in> negotiation_commands)"
| "wf_item (Subneg opt p) = (length p \<le> MAX_SUBNEGOTIATION_BYTES)"

fun render_item :: "telnet_item \<Rightarrow> u8 list" where
  "render_item (Text b) = [b]"
| "render_item Literal_IAC = [IAC, IAC]"
| "render_item (Command b) = [IAC, b]"
| "render_item (Negotiate cmd opt) = [IAC, cmd, opt]"
| "render_item (Subneg opt p) = [IAC, SB, opt] @ append_escaped [] p @ [IAC, SE]"

fun item_text :: "telnet_item \<Rightarrow> u8 list" where
  "item_text (Text b) = [b]"
| "item_text Literal_IAC = [IAC]"
| "item_text (Command b) = []"
| "item_text (Negotiate cmd opt) = []"
| "item_text (Subneg opt p) = []"

lemma decode_bytes_payload:
  "state c = Subnegotiation \<Longrightarrow> length (subnegotiation c) + length p \<le> MAX_SUBNEGOTIATION_BYTES \<Longrightarrow>
   decode_bytes c d (append_escaped [] p) = (Inr d, c\<lparr>subnegotiation := subnegotiation c @ p\<rparr>)"
proof (induction p arbitrary: c)
  case Nil
  then show ?case by simp
next
  case (Cons b p)
  have "decode_bytes c d (if b = IAC then [IAC, IAC] else [b]) = (Inr d, c\<lparr>subnegotiation := subnegotiation c @ [b]\<rparr>)"
    using Cons.prems by (auto simp: decode_byte_def push_subnegotiation_def)
  with Cons.prems Cons.IH [of "c\<lparr>subnegotiation := subnegotiation c @ [b]\<rparr>"] show ?case
    by (simp add: append_escaped_Cons decode_bytes_append del: append_escaped.simps)
qed

lemma decode_item:
  assumes "state c = Data" and "wf_item i"
  shows "\<exists>d c'. decode c (render_item i) = (Inr d, c') \<and> data d = item_text i \<and> state c' = Data"
proof (cases i)
  case (Negotiate cmd opt)
  obtain c1 d1 where "handle_negotiation (c\<lparr>state := Negotiation cmd\<rparr>) cmd opt DecodeResult_default = Some (c1, d1)"
    using handle_negotiation_total by blast
  moreover from this have "data d1 = []"
    by (auto simp: handle_negotiation_def DecodeResult_default_def respond_def push_enabled_def
        split: if_splits option.splits)
  ultimately show ?thesis
    using assms Negotiate by (auto simp: decode_def decode_byte_def negotiation_commands_def)
next
  case (Subneg opt p)
  let ?c = "c\<lparr>subnegotiation_option := Some opt, subnegotiation := [], state := Subnegotiation\<rparr>"
  have "decode_bytes ?c DecodeResult_default (append_escaped [] p) = (Inr DecodeResult_default, ?c\<lparr>subnegotiation := p\<rparr>)"
    using decode_bytes_payload [of ?c p DecodeResult_default] assms Subneg by simp
  then show ?thesis
    using assms Subneg
    by (simp add: decode_def decode_byte_def decode_bytes_append finish_subnegotiation_def DecodeResult_default_def)
qed (use assms in \<open>auto simp: decode_def decode_byte_def push_data_def DecodeResult_default_def negotiation_commands_def\<close>)

lemma decode_items:
  "state c = Data \<Longrightarrow> \<forall>i \<in> set is. wf_item i \<Longrightarrow>
   \<exists>d c'. decode c (concat (map render_item is)) = (Inr d, c') \<and> data d = concat (map item_text is) \<and> state c' = Data"
proof (induction "is" arbitrary: c)
  case Nil
  then show ?case by (simp add: decode_def DecodeResult_default_def)
next
  case (Cons i "is")
  from Cons.prems decode_item [of c i] obtain d1 c1 where
    1: "decode c (render_item i) = (Inr d1, c1)" "data d1 = item_text i" "state c1 = Data" by auto
  with Cons.IH [of c1] Cons.prems obtain d2 c2 where
    2: "decode c1 (concat (map render_item is)) = (Inr d2, c2)" "data d2 = concat (map item_text is)" "state c2 = Data" by auto
  from 1 2 show ?case by (simp add: telnet.dec_append dr_append_def)
qed

section \<open>The window-size message\<close>

definition u16_from_be_bytes :: "u8 list \<Rightarrow> u16" where
  "u16_from_be_bytes bs = fold (\<lambda>b w. push_bit 8 w + ucast b) bs 0"

lemma u16_be_bytes_roundtrip: "u16_from_be_bytes (u16_to_be_bytes w) = w"
proof (rule bit_word_eqI)
  fix n assume "n < LENGTH(16)"
  have "push_bit 8 (ucast (ucast (drop_bit 8 w :: u16) :: u8) :: u16) + ucast (ucast w :: u8)
      = or (push_bit 8 (ucast (ucast (drop_bit 8 w :: u16) :: u8) :: u16)) (ucast (ucast w :: u8))"
    by (rule disjunctive_add) (auto simp: bit_simps)
  then show "bit (u16_from_be_bytes (u16_to_be_bytes w)) n = bit w n"
    using \<open>n < LENGTH(16)\<close>
    by (auto simp: u16_from_be_bytes_def u16_to_be_bytes_def bit_simps)
qed

lemma append_escaped_append:
  "append_escaped (append_escaped t xs) ys = append_escaped t (xs @ ys)"
  by (induction xs arbitrary: t) auto

lemma encode_naws_frame:
  "encode_naws rows cols =
     [IAC, SB, OPT_NAWS] @ append_escaped [] (u16_to_be_bytes cols @ u16_to_be_bytes rows) @ [IAC] @ [SE]"
  using append_escaped_acc [of "[IAC, SB, OPT_NAWS]" "u16_to_be_bytes cols @ u16_to_be_bytes rows"]
  by (simp add: encode_naws_def append_escaped_append)

section \<open>Properties\<close>


text \<open>
  (C28) Whatever the peer sends, decoding keeps the codec well formed (the subnegotiation buffer
  within its bound, only allowlisted options enabled, the buffer empty outside a
  subnegotiation), on the error path too, and the \<open>unreachable!\<close> arms are never reached.
\<close>

theorem telnet_decode_safe:
  assumes "wf_codec c"
  shows "wf_codec (snd (decode c bs)) \<and> fst (decode c bs) \<noteq> Inl Panic"
proof -
  obtain r c' where "decode c bs = (r, c')" by force
  with decode_bytes_wf assms show ?thesis by (auto simp: decode_def)
qed

theorem telnet_decode_safe_witness:
  "wf_codec TelnetCodec_new \<and>
   wf_codec (snd (decode TelnetCodec_new [IAC, DO_cmd, OPT_NAWS, 97])) \<and>
   fst (decode TelnetCodec_new [IAC, DO_cmd, OPT_NAWS, 97]) \<noteq> Inl Panic"
  using wf_codec_new telnet_decode_safe [OF wf_codec_new] by blast

text \<open>
  Every reply the codec sends is one of: agreeing to an allowlisted option, refusing or
  withdrawing an option, the terminal type; and an option outside the allowlist is refused at
  most once in a whole session, however often the peer asks, so no negotiation loop arises. The
  replies of a session are the concatenation of the trace.
\<close>

theorem telnet_replies_bounded:
  assumes "wf_codec c"
  shows "(\<forall>r \<in> set (response_trace c bs). permitted_reply r) \<and>
    (\<not> allows_local opt \<longrightarrow> count_list (response_trace c bs) [IAC, WONT, opt] \<le> 1) \<and>
    (\<not> allows_remote opt \<longrightarrow> count_list (response_trace c bs) [IAC, DONT, opt] \<le> 1) \<and>
    (\<forall>d c'. decode c bs = (Inr d, c') \<longrightarrow> responses d = concat (response_trace c bs))"
proof (intro conjI impI allI ballI)
  show "count_list (response_trace c bs) [IAC, WONT, opt] \<le> 1" if "\<not> allows_local opt"
    using count_list_trace_flag [of "[IAC, WONT, opt]" "\<lambda>c. local_refused c opt", OF _ assms]
      decode_byte_local_refusal that by (fastforce split: if_splits)
  show "count_list (response_trace c bs) [IAC, DONT, opt] \<le> 1" if "\<not> allows_remote opt"
    using count_list_trace_flag [of "[IAC, DONT, opt]" "\<lambda>c. remote_refused c opt", OF _ assms]
      decode_byte_remote_refusal that by (fastforce split: if_splits)
qed (simp_all add: response_trace_permitted decode_responses)

theorem telnet_replies_bounded_witness:
  "wf_codec TelnetCodec_new \<and> \<not> allows_local 99 \<and> \<not> allows_remote 99 \<and>
   count_list (response_trace TelnetCodec_new [IAC, DO_cmd, 99, IAC, DO_cmd, 99]) [IAC, WONT, 99] \<le> 1"
proof -
  have "\<not> allows_local 99" "\<not> allows_remote 99"
    by (simp_all add: allows_local_def allows_remote_def)
  then show ?thesis
    using wf_codec_new telnet_replies_bounded [OF wf_codec_new, of "[IAC, DO_cmd, 99, IAC, DO_cmd, 99]" 99]
    by blast
qed

text \<open>
  (C36) Protocol bytes never reach the terminal: for every well-formed sequence of text bytes,
  escaped bytes, commands, negotiations and subnegotiations, decoding its rendering succeeds,
  returns to the data state and delivers exactly the text.
\<close>

theorem telnet_stream_text:
  assumes "state c = Data" and "\<forall>i \<in> set is. wf_item i"
  shows "\<exists>d c'. decode c (concat (map render_item is)) = (Inr d, c') \<and>
    data d = concat (map item_text is) \<and> state c' = Data"
  using assms by (rule decode_items)

theorem telnet_stream_text_witness:
  "\<exists>d c'. decode TelnetCodec_new (concat (map render_item
      [Text 104, Negotiate DO_cmd 99, Literal_IAC, Subneg 24 [1], Command 249, Text 105])) = (Inr d, c') \<and>
    data d = [104, IAC, 105] \<and> state c' = Data"
  using telnet_stream_text [of TelnetCodec_new
      "[Text 104, Negotiate DO_cmd 99, Literal_IAC, Subneg 24 [1], Command 249, Text 105]"]
  by (simp add: TelnetCodec_new_def negotiation_commands_def MAX_SUBNEGOTIATION_BYTES_def)

text \<open>
  Round trip of user input: what \<open>encode_user_input\<close> writes, the decoder reads back as
  exactly that data, with no reply, no option change and the codec unchanged.
\<close>

theorem encode_user_input_roundtrip:
  assumes "state c = Data"
  shows "decode c (encode_user_input d) = (Inr \<lparr>data = d, responses = [], enabled = []\<rparr>, c)"
proof -
  have c: "c\<lparr>state := Data\<rparr> = c" using assms by simp
  have "decode_bytes c acc (append_escaped [] d) = (Inr (acc\<lparr>data := data acc @ d\<rparr>), c)" for acc
    by (induction d arbitrary: acc)
      (simp_all add: append_escaped_Cons decode_byte_def push_data_def assms c del: append_escaped.simps(2))
  then show ?thesis by (simp add: decode_def encode_user_input_def DecodeResult_default_def)
qed

theorem encode_user_input_roundtrip_witness:
  "decode TelnetCodec_new (encode_user_input [1, IAC, 2]) =
     (Inr \<lparr>data = [1, IAC, 2], responses = [], enabled = []\<rparr>, TelnetCodec_new)"
  by (rule encode_user_input_roundtrip) (simp add: TelnetCodec_new_def)

text \<open>
  The window-size message: a Telnet receiver that reads what \<open>encode_naws\<close> writes, up to the
  final byte, holds option 31 with the four payload bytes columns then rows, each big endian,
  whatever bytes need escaping; after the final byte it is back in the data state with no output.
\<close>

theorem encode_naws_roundtrip:
  assumes "state c = Data"
  shows "(\<exists>c'. decode c (butlast (encode_naws rows cols)) = (Inr DecodeResult_default, c') \<and>
      state c' = SubnegotiationIac \<and> subnegotiation_option c' = Some OPT_NAWS \<and>
      u16_from_be_bytes (take 2 (subnegotiation c')) = cols \<and>
      u16_from_be_bytes (drop 2 (subnegotiation c')) = rows \<and>
      length (subnegotiation c') = 4) \<and>
    (\<exists>c'. decode c (encode_naws rows cols) = (Inr DecodeResult_default, c') \<and> state c' = Data)"
proof -
  let ?p = "u16_to_be_bytes cols @ u16_to_be_bytes rows"
  let ?c = "c\<lparr>subnegotiation_option := Some OPT_NAWS, subnegotiation := [], state := Subnegotiation\<rparr>"
  have len: "length (u16_to_be_bytes w) = 2" for w by (simp add: u16_to_be_bytes_def)
  have "decode_bytes ?c DecodeResult_default (append_escaped [] ?p) =
      (Inr DecodeResult_default, ?c\<lparr>subnegotiation := ?p\<rparr>)"
    using decode_bytes_payload [of ?c ?p DecodeResult_default]
    by (simp add: len MAX_SUBNEGOTIATION_BYTES_def)
  then have pre: "decode c ([IAC, SB, OPT_NAWS] @ append_escaped [] ?p @ [IAC]) =
      (Inr DecodeResult_default, ?c\<lparr>subnegotiation := ?p, state := SubnegotiationIac\<rparr>)"
    using assms by (simp add: decode_def decode_byte_def decode_bytes_append)
  let ?pre = "[IAC, SB, OPT_NAWS] @ append_escaped [] ?p @ [IAC]"
  have split: "encode_naws rows cols = ?pre @ [SE]" by (simp add: encode_naws_frame)
  then have "butlast (encode_naws rows cols) = ?pre" by (metis butlast_snoc)
  with pre have 1: "decode c (butlast (encode_naws rows cols)) =
      (Inr DecodeResult_default, ?c\<lparr>subnegotiation := ?p, state := SubnegotiationIac\<rparr>)" by (simp only:)
  have "decode (?c\<lparr>subnegotiation := ?p, state := SubnegotiationIac\<rparr>) [SE] =
      (Inr DecodeResult_default, ?c\<lparr>subnegotiation := [], subnegotiation_option := None, state := Data\<rparr>)"
    by (simp add: decode_def decode_byte_def finish_subnegotiation_def)
  with pre have 2: "decode c (encode_naws rows cols) =
      (Inr DecodeResult_default, ?c\<lparr>subnegotiation := [], subnegotiation_option := None, state := Data\<rparr>)"
    unfolding split telnet.dec_append [of c ?pre "[SE]"] by simp
  from 1 2 show ?thesis by (simp add: len u16_be_bytes_roundtrip)
qed

theorem encode_naws_roundtrip_witness:
  "\<exists>c'. decode TelnetCodec_new (encode_naws 24 255) = (Inr DecodeResult_default, c') \<and> state c' = Data"
  using encode_naws_roundtrip [of TelnetCodec_new 24 255] by (simp add: TelnetCodec_new_def)

end
