(* ===== verification/TelnetTransport.thy ===== *)
theory TelnetTransport
  imports TelnetProtocol RustStr
begin

text \<open>
  The direct-TCP transport of \<open>crates/telnet-runtime/src/transport.rs\<close>. The socket and the clock
  are tokio's: what each \<open>write\<close> and \<open>read\<close> does is a script, an argument of the operations. A
  \<open>write\<close> takes at most the bytes it is given; an await that is never completed, because the
  future is dropped by the actor that selects on it, is \<open>WriteCancelled\<close>/\<open>ReadCancelled\<close> or the
  end of the script, and gives the result \<open>Dropped\<close>. \<open>wire\<close> is what the socket has accepted.
\<close>

section \<open>Configuration, events, errors\<close>

definition MAX_INPUT_BYTES :: nat where "MAX_INPUT_BYTES = 1024 * 1024"




datatype TelnetRuntimeError =
    CleartextRiskNotAccepted | InvalidEndpoint | InvalidTerminalSize | InputTooLarge | ResolveFailed
  | ConnectTimeout | ConnectFailed | IoTimeout | Io | Protocol ProtocolError | ConnectionClosed


section \<open>The connection and its environment\<close>

record TelnetConnection =
  codec :: TelnetCodec
  rows :: u16
  cols :: u16
  io_timeout_ms :: u64
  pending_protocol_write :: "u8 list"
  pending_protocol_offset :: nat
  pending_data :: "u8 list list"
  closed :: bool

datatype write_outcome = Wrote nat | WriteTimeout | WriteFailed | WriteCancelled
datatype read_outcome = ReadBytes "u8 list" | ReadFailed | ReadCancelled

record io_env =
  write_script :: "write_outcome list"
  read_script :: "read_outcome list"
  wire :: "u8 list"

datatype 'a poll = Done "TelnetRuntimeError fault + 'a" | Dropped



section \<open>Writing\<close>

text \<open>One completed or failed \<open>write\<close> of \<open>bs\<close>: how many bytes it took, and the rest of the script.\<close>

definition socket_write :: "u8 list \<Rightarrow> io_env \<Rightarrow> nat poll \<times> io_env" where
  "socket_write bs e =
     (case write_script e of
        [] \<Rightarrow> (Dropped, e)
      | Wrote n # ws \<Rightarrow>
          (Done (Inr (min n (length bs))),
           e\<lparr>write_script := ws, wire := wire e @ take (min n (length bs)) bs\<rparr>)
      | WriteTimeout # ws \<Rightarrow> (Done (Inl (Err IoTimeout)), e\<lparr>write_script := ws\<rparr>)
      | WriteFailed # ws \<Rightarrow> (Done (Inl (Err Io)), e\<lparr>write_script := ws\<rparr>)
      | WriteCancelled # ws \<Rightarrow> (Dropped, e\<lparr>write_script := ws\<rparr>))"

lemma socket_write_script:
  "socket_write bs e = (Done (Inr n), e') \<Longrightarrow> length (write_script e') < length (write_script e)"
  by (auto simp: socket_write_def split: list.splits write_outcome.splits)

lemma socket_write_read [simp]: "socket_write bs e = (r, e') \<Longrightarrow> read_script e' = read_script e"
  by (auto simp: socket_write_def split: list.splits write_outcome.splits)

function flush_protocol_write ::
    "TelnetConnection \<Rightarrow> io_env \<Rightarrow> unit poll \<times> TelnetConnection \<times> io_env" where
  "flush_protocol_write c e =
     (if pending_protocol_offset c < length (pending_protocol_write c) then
        (case socket_write (drop (pending_protocol_offset c) (pending_protocol_write c)) e of
           (Done (Inr count), e') \<Rightarrow>
             if count = 0 then (Done (Inl (Err Io)), c, e')
             else flush_protocol_write
                    (c\<lparr>pending_protocol_offset := pending_protocol_offset c + count\<rparr>) e'
         | (Done (Inl err), e') \<Rightarrow> (Done (Inl err), c, e')
         | (Dropped, e') \<Rightarrow> (Dropped, c, e'))
      else (Done (Inr ()), c\<lparr>pending_protocol_write := [], pending_protocol_offset := 0\<rparr>, e))"
  by pat_completeness auto
termination
  by (relation "measure (\<lambda>(c, e). length (write_script e))") (auto dest: socket_write_script [OF sym])

declare flush_protocol_write.simps [simp del]

text \<open>\<open>write_all\<close> under one deadline: write until nothing is left or the first failure.\<close>

function write_all_within :: "u8 list \<Rightarrow> io_env \<Rightarrow> unit poll \<times> io_env" where
  "write_all_within bs e =
     (if bs = [] then (Done (Inr ()), e)
      else (case socket_write bs e of
              (Done (Inr count), e') \<Rightarrow>
                if count = 0 then (Done (Inl (Err Io)), e')
                else write_all_within (drop count bs) e'
            | (Done (Inl err), e') \<Rightarrow> (Done (Inl err), e')
            | (Dropped, e') \<Rightarrow> (Dropped, e')))"
  by pat_completeness auto
termination
  by (relation "measure (\<lambda>(bs, e). length (write_script e))") (auto dest: socket_write_script [OF sym])

declare write_all_within.simps [simp del]

section \<open>The operations\<close>

definition ensure_open :: "TelnetConnection \<Rightarrow> TelnetRuntimeError + unit" where
  "ensure_open c = fail_if (closed c) ConnectionClosed"

definition send_input ::
    "TelnetConnection \<Rightarrow> u8 list \<Rightarrow> io_env \<Rightarrow> unit poll \<times> TelnetConnection \<times> io_env" where
  "send_input c d e =
     (case ensure_open c of
        Inl err \<Rightarrow> (Done (Inl (Err err)), c, e)
      | Inr _ \<Rightarrow>
          if length d > MAX_INPUT_BYTES then (Done (Inl (Err InputTooLarge)), c, e)
          else (case flush_protocol_write c e of
                  (Done (Inr _), c', e') \<Rightarrow>
                    (case write_all_within (encode_user_input d) e' of (r, e'') \<Rightarrow> (r, c', e''))
                | (r, c', e') \<Rightarrow> (r, c', e')))"

definition resize ::
    "TelnetConnection \<Rightarrow> u16 \<Rightarrow> u16 \<Rightarrow> io_env \<Rightarrow> unit poll \<times> TelnetConnection \<times> io_env" where
  "resize c r k e =
     (case ensure_open c of
        Inl err \<Rightarrow> (Done (Inl (Err err)), c, e)
      | Inr _ \<Rightarrow>
          if r = 0 \<or> k = 0 then (Done (Inl (Err InvalidTerminalSize)), c, e)
          else (case flush_protocol_write (c\<lparr>rows := r, cols := k\<rparr>) e of
                  (Done (Inr _), c', e') \<Rightarrow>
                    if local_naws_enabled (codec c')
                    then (case write_all_within (encode_naws r k) e' of (q, e'') \<Rightarrow> (q, c', e''))
                    else (Done (Inr ()), c', e')
                | (q, c', e') \<Rightarrow> (q, c', e')))"



lemma flush_read_script: "flush_protocol_write c e = (r, c', e') \<Longrightarrow> read_script e' = read_script e"
proof (induction c e arbitrary: r rule: flush_protocol_write.induct)
  case (1 c e)
  obtain q e1 where s: "socket_write (drop (pending_protocol_offset c) (pending_protocol_write c)) e = (q, e1)"
    by force
  then have "read_script e1 = read_script e" by simp
  with 1 s show ?case
    by (auto simp: flush_protocol_write.simps [of c e] split: poll.splits sum.splits if_splits)
qed




text \<open>\<open>disconnect\<close> consumes the connection; \<open>shutdown\<close> is what the socket's shutdown does.\<close>

datatype shutdown_outcome = ShutdownOk | ShutdownTimeout | ShutdownFailed

definition disconnect ::
    "TelnetConnection \<Rightarrow> shutdown_outcome \<Rightarrow> (TelnetRuntimeError + unit) \<times> TelnetConnection" where
  "disconnect c shutdown =
     (if closed c then (Inr (), c)
      else (case shutdown of
              ShutdownTimeout \<Rightarrow> (Inl IoTimeout, c\<lparr>closed := True\<rparr>)
            | ShutdownFailed \<Rightarrow> (Inl Io, c\<lparr>closed := True\<rparr>)
            | ShutdownOk \<Rightarrow> (Inr (), c\<lparr>closed := True\<rparr>)))"

section \<open>What is outstanding, and what every operation keeps\<close>

definition unflushed :: "TelnetConnection \<Rightarrow> u8 list" where
  "unflushed c = drop (pending_protocol_offset c) (pending_protocol_write c)"

definition wf_connection :: "TelnetConnection \<Rightarrow> bool" where
  "wf_connection c \<longleftrightarrow>
     wf_codec (codec c) \<and> rows c \<noteq> 0 \<and> cols c \<noteq> 0 \<and>
     pending_protocol_offset c \<le> length (pending_protocol_write c) \<and> [] \<notin> set (pending_data c)"

definition same_but_queue :: "TelnetConnection \<Rightarrow> TelnetConnection \<Rightarrow> bool" where
  "same_but_queue c c' \<longleftrightarrow>
     codec c' = codec c \<and> rows c' = rows c \<and> cols c' = cols c \<and> pending_data c' = pending_data c \<and>
     closed c' = closed c"

lemma socket_write_wire:
  assumes "socket_write bs e = (r, e')"
  shows "case r of Done (Inr n) \<Rightarrow> n \<le> length bs \<and> wire e' = wire e @ take n bs | _ \<Rightarrow> wire e' = wire e"
  using assms by (auto simp: socket_write_def split: list.splits write_outcome.splits)

lemma flush_spec:
  assumes "flush_protocol_write c e = (r, c', e')"
    and "pending_protocol_offset c \<le> length (pending_protocol_write c)"
  shows "same_but_queue c c' \<and> wire e' @ unflushed c' = wire e @ unflushed c \<and>
    pending_protocol_offset c' \<le> length (pending_protocol_write c') \<and>
    (r = Done (Inr ()) \<longrightarrow> unflushed c' = [] \<and> pending_protocol_write c' = []) \<and>
    (\<exists>f. r = Done (Inr ()) \<or> r = Dropped \<or> r = Done (Inl (Err f)) \<and> (f = Io \<or> f = IoTimeout))"
  using assms
proof (induction c e arbitrary: r rule: flush_protocol_write.induct)
  case (1 c e)
  let ?bs = "drop (pending_protocol_offset c) (pending_protocol_write c)"
  obtain q e1 where s: "socket_write ?bs e = (q, e1)" by force
  show ?case
  proof (cases "pending_protocol_offset c < length (pending_protocol_write c)")
    case False
    with "1.prems" show ?thesis
      by (auto simp: flush_protocol_write.simps [of c e] same_but_queue_def unflushed_def)
  next
    case more: True
    note w = socket_write_wire [OF s]
    have err: "q = Done (Inl f) \<Longrightarrow> f = Err Io \<or> f = Err IoTimeout" for f
      using s by (auto simp: socket_write_def split: list.splits write_outcome.splits)
    show ?thesis
    proof (cases "\<exists>n. q = Done (Inr n) \<and> n \<noteq> 0")
      case False
      with "1.prems" s more w err show ?thesis
        by (auto simp: flush_protocol_write.simps [of c e] same_but_queue_def unflushed_def
            split: poll.splits sum.splits if_splits)
    next
      case True
      then obtain n where q: "q = Done (Inr n)" "n \<noteq> 0" by blast
      let ?c = "c\<lparr>pending_protocol_offset := pending_protocol_offset c + n\<rparr>"
      from "1.prems" s more q have rec: "flush_protocol_write ?c e1 = (r, c', e')"
        by (simp add: flush_protocol_write.simps [of c e])
      from w q have le: "n \<le> length ?bs" and wire: "wire e1 = wire e @ take n ?bs" by simp_all
      have sp: "(Done (Inr n), e1) = socket_write ?bs e" using s q by simp
      from le more have off: "pending_protocol_offset ?c \<le> length (pending_protocol_write ?c)" by simp
      have IH: "same_but_queue ?c c' \<and> wire e' @ unflushed c' = wire e1 @ unflushed ?c \<and>
          pending_protocol_offset c' \<le> length (pending_protocol_write c') \<and>
          (r = Done (Inr ()) \<longrightarrow> unflushed c' = [] \<and> pending_protocol_write c' = []) \<and>
          (\<exists>f. r = Done (Inr ()) \<or> r = Dropped \<or> r = Done (Inl (Err f)) \<and> (f = Io \<or> f = IoTimeout))"
        by (rule "1.IH" [OF more sp refl refl q(2) rec off])
      moreover have "wire e1 @ unflushed ?c = wire e @ unflushed c"
        using wire by (simp add: unflushed_def add.commute flip: drop_drop)
      ultimately show ?thesis by (auto simp: same_but_queue_def)
    qed
  qed
qed


lemma write_all_spec:
  assumes "write_all_within bs e = (r, e')"
  shows "read_script e' = read_script e \<and> (\<exists>n. wire e' = wire e @ take n bs) \<and>
    (r = Done (Inr ()) \<longrightarrow> wire e' = wire e @ bs)"
  using assms
proof (induction bs e arbitrary: r rule: write_all_within.induct)
  case (1 bs e)
  obtain q e1 where s: "socket_write bs e = (q, e1)" by force
  note w = socket_write_wire [OF s] socket_write_read [OF s]
  show ?case
  proof (cases "bs \<noteq> [] \<and> (\<exists>n. q = Done (Inr n) \<and> n \<noteq> 0)")
    case False
    have nil: "wire e = wire e @ take 0 bs" by simp
    from False "1.prems" s w show ?thesis
      by (auto simp: write_all_within.simps [of bs e] intro: exI [of _ 0]
          split: poll.splits sum.splits if_splits)
  next
    case True
    then obtain n where q: "bs \<noteq> []" "q = Done (Inr n)" "n \<noteq> 0" by blast
    from "1.prems" s q have rec: "write_all_within (drop n bs) e1 = (r, e')"
      by (simp add: write_all_within.simps [of bs e])
    have sp: "(Done (Inr n), e1) = socket_write bs e" using s q by simp
    from "1.IH" [OF q(1) sp refl refl q(3) rec]
    have IH: "read_script e' = read_script e1" "\<exists>m. wire e' = wire e1 @ take m (drop n bs)"
      "r = Done (Inr ()) \<longrightarrow> wire e' = wire e1 @ drop n bs" by blast+
    then obtain m where m: "wire e' = wire e1 @ take m (drop n bs)" by blast
    from w q have e1: "wire e1 = wire e @ take n bs" by simp
    have "wire e' = wire e @ take (n + m) bs"
      using m e1 by (simp add: take_add)
    with IH e1 w show ?thesis by auto
  qed
qed

section \<open>Reading\<close>

text \<open>The nonempty chunks a stretch of the read script delivers, and their decoding in order.\<close>

fun chunks_of :: "read_outcome list \<Rightarrow> u8 list list" where
  "chunks_of [] = []"
| "chunks_of (ReadBytes x # rs) = (if x = [] then chunks_of rs else x # chunks_of rs)"
| "chunks_of (_ # rs) = chunks_of rs"







lemma chunks_of_append [simp]: "chunks_of (xs @ ys) = chunks_of xs @ chunks_of ys"
  by (induction xs rule: chunks_of.induct) auto









lemma flush_wf: "flush_protocol_write c e = (r, c', e') \<Longrightarrow> wf_connection c \<Longrightarrow> wf_connection c'"
  using flush_spec [of c e r c' e'] by (auto simp: wf_connection_def same_but_queue_def)








lemma flush_wire_grows: "flush_protocol_write c e = (r, c', e') \<Longrightarrow> \<exists>ws. wire e' = wire e @ ws"
proof (induction c e arbitrary: r rule: flush_protocol_write.induct)
  case (1 c e)
  obtain q e1 where s: "socket_write (drop (pending_protocol_offset c) (pending_protocol_write c)) e = (q, e1)"
    by force
  with socket_write_wire have "\<exists>ws. wire e1 = wire e @ ws"
    by (cases q) (fastforce split: sum.splits)+
  with 1 s show ?case
    by (fastforce simp: flush_protocol_write.simps [of c e] split: poll.splits sum.splits if_splits)
qed

lemma flush_prefix:
  assumes "flush_protocol_write c e = (r, c', e')" "wf_connection c"
  shows "\<exists>n. wire e' = wire e @ take n (unflushed c @ xs)"
proof -
  from flush_wire_grows [OF assms(1)] obtain ws where ws: "wire e' = wire e @ ws" by blast
  with flush_spec [OF assms(1)] assms(2) have "ws @ unflushed c' = unflushed c"
    by (auto simp: wf_connection_def)
  then have "take (length ws) (unflushed c @ xs) = ws" by (metis append_assoc append_eq_conv_conj)
  with ws show ?thesis by metis
qed

text \<open>A user write: the outstanding replies first, then the encoded bytes.\<close>

lemma user_write_spec:
  assumes fl: "flush_protocol_write c e = (Done (Inr ()), c1, e1)" and wf: "wf_connection c"
    and wr: "write_all_within bs e1 = (q, e2)"
  shows "read_script e2 = read_script e \<and> (\<exists>n. wire e2 = wire e @ take n (unflushed c @ bs)) \<and>
    (q = Done (Inr ()) \<longrightarrow> wire e2 = wire e @ unflushed c @ bs) \<and> unflushed c1 = []"
proof -
  have w: "wire e1 = wire e @ unflushed c" and u: "unflushed c1 = []"
    using flush_spec [OF fl] wf by (auto simp: wf_connection_def)
  from write_all_spec [OF wr] obtain n where n: "wire e2 = wire e1 @ take n bs"
    and q: "q = Done (Inr ()) \<longrightarrow> wire e2 = wire e1 @ bs" and r: "read_script e2 = read_script e1" by blast
  have "wire e2 = wire e @ take (length (unflushed c) + n) (unflushed c @ bs)" using n w by simp
  then have "\<exists>n. wire e2 = wire e @ take n (unflushed c @ bs)" by blast
  then show ?thesis using q w r u flush_read_script [OF fl] by (simp del: take_append)
qed

lemma send_input_spec:
  assumes "send_input c d e = (r, c', e')" "wf_connection c"
  shows "wf_connection c' \<and> codec c' = codec c \<and> pending_data c' = pending_data c \<and>
    read_script e' = read_script e \<and>
    (\<exists>n. wire e' = wire e @ take n (unflushed c @ encode_user_input d)) \<and>
    (r = Done (Inr ()) \<longrightarrow> wire e' = wire e @ unflushed c @ encode_user_input d \<and> unflushed c' = [])"
proof -
  obtain p c1 e1 where fl: "flush_protocol_write c e = (p, c1, e1)" by (cases "flush_protocol_write c e") auto
  obtain q e2 where wr: "write_all_within (encode_user_input d) e1 = (q, e2)" by force
  note run = assms(1) [unfolded send_input_def ensure_open_def fail_if_def]
  have same: "codec c1 = codec c" "pending_data c1 = pending_data c" and wf: "wf_connection c1"
    using flush_spec [OF fl] flush_wf [OF fl] assms(2) by (auto simp: wf_connection_def same_but_queue_def)
  consider (early) "closed c \<or> MAX_INPUT_BYTES < length d"
    | (flush) "\<not> closed c" "\<not> MAX_INPUT_BYTES < length d" "p \<noteq> Done (Inr ())"
    | (sent) "\<not> closed c" "\<not> MAX_INPUT_BYTES < length d" "p = Done (Inr ())" by blast
  then show ?thesis
  proof cases
    case early
    with run assms(2) show ?thesis by (auto intro: exI [of _ 0] split: if_splits)
  next
    case flush
    with run fl have "r = p" "c' = c1" "e' = e1" by (auto split: poll.splits sum.splits)
    with same wf flush flush_prefix [OF fl assms(2)] flush_read_script [OF fl] show ?thesis by auto
  next
    case sent
    with run fl wr have "r = q" "c' = c1" "e' = e2" by auto
    with same wf sent fl user_write_spec [OF _ assms(2) wr] show ?thesis by auto
  qed
qed

lemma resize_spec:
  assumes "resize c h w e = (r, c', e')" "wf_connection c"
  shows "wf_connection c' \<and> codec c' = codec c \<and> pending_data c' = pending_data c \<and>
    read_script e' = read_script e \<and>
    (\<exists>n. wire e' = wire e @ take n (unflushed c @ encode_naws h w)) \<and>
    (r = Done (Inr ()) \<longrightarrow> rows c' = h \<and> cols c' = w \<and> unflushed c' = [] \<and>
       wire e' = wire e @ unflushed c @ (if local_naws_enabled (codec c) then encode_naws h w else []))"
proof -
  let ?c = "c\<lparr>rows := h, cols := w\<rparr>"
  obtain p c1 e1 where fl: "flush_protocol_write ?c e = (p, c1, e1)" by (cases "flush_protocol_write ?c e") auto
  obtain q e2 where wr: "write_all_within (encode_naws h w) e1 = (q, e2)" by force
  note run = assms(1) [unfolded resize_def ensure_open_def fail_if_def]
  show ?thesis
  proof (cases "closed c \<or> h = 0 \<or> w = 0")
    case True
    with run assms(2) show ?thesis by (auto intro: exI [of _ 0] split: if_splits)
  next
    case False
    then have wf: "wf_connection ?c" and un: "unflushed ?c = unflushed c"
      using assms(2) by (auto simp: wf_connection_def unflushed_def)
    have same: "codec c1 = codec c" "pending_data c1 = pending_data c" "rows c1 = h" "cols c1 = w"
      and wire: "wire e1 @ unflushed c1 = wire e @ unflushed c" "p = Done (Inr ()) \<Longrightarrow> unflushed c1 = []"
      using flush_spec [OF fl] wf un by (auto simp: wf_connection_def same_but_queue_def)
    note rest = flush_wf [OF fl wf] flush_read_script [OF fl] flush_prefix [OF fl wf, unfolded un]
    consider (flush) "p \<noteq> Done (Inr ())" | (naws) "p = Done (Inr ())" "local_naws_enabled (codec c)"
      | (plain) "p = Done (Inr ())" "\<not> local_naws_enabled (codec c)" by blast
    then show ?thesis
    proof cases
      case flush
      with False run fl have "r = p" "c' = c1" "e' = e1" by (auto split: poll.splits sum.splits)
      with same rest flush show ?thesis by auto
    next
      case naws
      with False run fl wr same have "r = q" "c' = c1" "e' = e2" by auto
      with same rest naws fl user_write_spec [OF _ wf wr, unfolded un] show ?thesis by auto
    next
      case plain
      with False run fl same have "r = Done (Inr ())" "c' = c1" "e' = e1" by auto
      with same rest plain wire show ?thesis by auto
    qed
  qed
qed

section \<open>Sessions\<close>






section \<open>Properties\<close>





text \<open>
  (C18) User input and size reports are never interleaved with a half-sent reply: a write attempt,
  also one that times out, fails or is cancelled, puts on the wire a prefix of the outstanding
  replies followed by the encoded bytes, and all of it when it succeeds; the decoder and the queued
  terminal data are untouched.
\<close>

theorem telnet_user_writes_ordered:
  assumes "wf_connection c"
  shows "(case send_input c d e of (r, c', e') \<Rightarrow>
      codec c' = codec c \<and> pending_data c' = pending_data c \<and>
      (\<exists>n. wire e' = wire e @ take n (unflushed c @ encode_user_input d)) \<and>
      (r = Done (Inr ()) \<longrightarrow> wire e' = wire e @ unflushed c @ encode_user_input d \<and> unflushed c' = [])) \<and>
    (case resize c h w e of (r, c', e') \<Rightarrow>
      codec c' = codec c \<and> pending_data c' = pending_data c \<and>
      (\<exists>n. wire e' = wire e @ take n (unflushed c @ encode_naws h w)) \<and>
      (r = Done (Inr ()) \<longrightarrow> rows c' = h \<and> cols c' = w \<and> unflushed c' = [] \<and>
         wire e' = wire e @ unflushed c @ (if local_naws_enabled (codec c) then encode_naws h w else [])))"
proof -
  obtain r c' e' where s: "send_input c d e = (r, c', e')" by (cases "send_input c d e") auto
  obtain r2 c2 e2 where z: "resize c h w e = (r2, c2, e2)" by (cases "resize c h w e") auto
  show ?thesis
    using send_input_spec [OF s assms] resize_spec [OF z assms] unfolding s z prod.case by blast
qed

theorem telnet_user_writes_ordered_witness:
  "\<exists>c e c' e'. wf_connection c \<and> send_input c [IAC] e = (Done (Inl (Err IoTimeout)), c', e') \<and>
     wire e' = [IAC, WONT, 1, IAC] \<and>
     (\<exists>n. wire e' = wire e @ take n (unflushed c @ encode_user_input [IAC]))"
proof -
  let ?c = "\<lparr>codec = TelnetCodec_new, rows = 24, cols = 80, io_timeout_ms = 10,
    pending_protocol_write = [IAC, WONT, 1], pending_protocol_offset = 2, pending_data = [[7]], closed = False\<rparr>"
  let ?e = "\<lparr>write_script = [Wrote 5, Wrote 1, WriteTimeout], read_script = [], wire = [IAC, WONT]\<rparr>"
  have wf: "wf_connection ?c" using wf_codec_new by (simp add: wf_connection_def)
  obtain r c' e' where run: "send_input ?c [IAC] ?e = (r, c', e')" by (cases "send_input ?c [IAC] ?e") auto
  have "case send_input ?c [IAC] ?e of (r, _, e') \<Rightarrow>
      r = Done (Inl (Err IoTimeout)) \<and> wire e' = [IAC, WONT, 1, IAC]" by code_simp
  with run have "r = Done (Inl (Err IoTimeout)) \<and> wire e' = [IAC, WONT, 1, IAC]" by simp
  with telnet_user_writes_ordered [OF wf, where d = "[IAC]" and e = ?e] run wf show ?thesis
    by (intro exI [of _ ?c] exI [of _ ?e] exI [of _ c'] exI [of _ e']) (simp del: take_append)
qed



end
