(* ===== verification/DesktopRegion.thy ===== *)
theory DesktopRegion
  imports Prelude "HOL-Library.Multiset"
begin

text \<open>
  Rectangles and dirty regions of \<open>crates/desktop-protocol/src/lib.rs\<close>. Coordinates are \<open>u16\<close>;
  the code widens them to \<open>u32\<close> before adding, which cannot overflow, so edges are natural numbers
  here. The cast back \<open>as u16\<close> in \<open>union\<close> truncates and is kept as such.
\<close>

section \<open>Rectangles\<close>

record DesktopRect =
  rx :: u16
  ry :: u16
  rwidth :: u16
  rheight :: u16

definition right :: "DesktopRect \<Rightarrow> nat" where "right r = unat (rx r) + unat (rwidth r)"
definition bottom :: "DesktopRect \<Rightarrow> nat" where "bottom r = unat (ry r) + unat (rheight r)"

definition rect_fits :: "DesktopRect \<Rightarrow> u16 \<Rightarrow> u16 \<Rightarrow> bool" where
  "rect_fits r w h \<longleftrightarrow>
     rwidth r \<noteq> 0 \<and> rheight r \<noteq> 0 \<and> right r \<le> unat w \<and> bottom r \<le> unat h"

definition rect_union :: "DesktopRect \<Rightarrow> DesktopRect \<Rightarrow> DesktopRect" where
  "rect_union a b =
     (let x = min (rx a) (rx b); y = min (ry a) (ry b) in
      \<lparr>rx = x, ry = y,
       rwidth = word_of_nat (max (right a) (right b) - unat x),
       rheight = word_of_nat (max (bottom a) (bottom b) - unat y)\<rparr>)"

definition rect_area :: "DesktopRect \<Rightarrow> nat" where
  "rect_area r = unat (rwidth r) * unat (rheight r)"

definition contains :: "DesktopRect \<Rightarrow> DesktopRect \<Rightarrow> bool" where
  "contains a b \<longleftrightarrow> rx a \<le> rx b \<and> ry a \<le> ry b \<and> right a \<ge> right b \<and> bottom a \<ge> bottom b"

definition touches :: "DesktopRect \<Rightarrow> DesktopRect \<Rightarrow> bool" where
  "touches a b \<longleftrightarrow>
     unat (rx a) \<le> right b \<and> unat (rx b) \<le> right a \<and>
     unat (ry a) \<le> bottom b \<and> unat (ry b) \<le> bottom a"

section \<open>Dirty regions\<close>

definition MAX_DIRTY_RECTS :: nat where "MAX_DIRTY_RECTS = 16"

text \<open>\<open>Vec::swap_remove\<close>: the last element takes the place of the removed one.\<close>

definition swap_remove :: "'a list \<Rightarrow> nat \<Rightarrow> 'a list" where
  "swap_remove xs i =
     (if i + 1 = length xs then butlast xs else (butlast xs)[i := last xs])"

fun position :: "('a \<Rightarrow> bool) \<Rightarrow> 'a list \<Rightarrow> nat option" where
  "position P [] = None"
| "position P (x # xs) = (if P x then Some 0 else map_option Suc (position P xs))"

lemma length_swap_remove [simp]: "length (swap_remove xs i) = length xs - 1"
  by (simp add: swap_remove_def)

lemma position_Some: "position P xs = Some i \<Longrightarrow> i < length xs \<and> P (xs ! i)"
  by (induction xs arbitrary: i) (auto split: if_splits)

lemma position_None: "position P xs = None \<longleftrightarrow> (\<forall>x \<in> set xs. \<not> P x)"
  by (induction xs) auto

text \<open>The merging loop of \<open>add\<close>: it returns early when a rectangle contains \<open>next\<close>.\<close>

datatype merged = Covered "DesktopRect list" | Free "DesktopRect list" DesktopRect

function merge_touching :: "DesktopRect list \<Rightarrow> DesktopRect \<Rightarrow> merged" where
  "merge_touching rs next =
     (if list_ex (\<lambda>r. contains r next) rs then Covered rs
      else (case position (\<lambda>r. touches r next) rs of
              None \<Rightarrow> Free rs next
            | Some i \<Rightarrow> merge_touching (swap_remove rs i) (rect_union next (rs ! i))))"
  by pat_completeness auto
termination
  by (relation "measure (\<lambda>(rs, _). length rs)") (auto dest!: position_Some)

declare merge_touching.simps [simp del]

definition pair_growth :: "DesktopRect \<Rightarrow> DesktopRect \<Rightarrow> nat" where
  "pair_growth a b = rect_area (rect_union a b) - (rect_area a + rect_area b)"

definition index_pairs :: "nat \<Rightarrow> (nat \<times> nat) list" where
  "index_pairs n = concat (map (\<lambda>i. map (\<lambda>j. (i, j)) [i + 1..<n]) [0..<n])"

fun best_of :: "DesktopRect list \<Rightarrow> (nat \<times> nat) list \<Rightarrow> nat \<times> nat \<times> nat \<Rightarrow> nat \<times> nat \<times> nat" where
  "best_of rs [] best = best"
| "best_of rs ((i, j) # ps) (bi, bj, least) =
     best_of rs ps (if pair_growth (rs ! i) (rs ! j) < least
                    then (i, j, pair_growth (rs ! i) (rs ! j)) else (bi, bj, least))"

definition best_pair :: "DesktopRect list \<Rightarrow> nat \<times> nat \<times> nat" where
  "best_pair rs = best_of rs (index_pairs (length rs)) (0, 1, 2 ^ 64 - 1)"

lemma merge_touching_length:
  "case merge_touching rs next of Covered rs' \<Rightarrow> length rs' \<le> length rs | Free rs' _ \<Rightarrow> length rs' \<le> length rs"
proof (induction rs "next" rule: merge_touching.induct)
  case (1 rs "next")
  then show ?case
    by (auto simp: merge_touching.simps [of rs "next"] split: option.splits merged.splits)
qed

text \<open>\<open>add\<close> and its closing \<open>while\<close> loop, which calls \<open>add\<close> again.\<close>

function (sequential) add :: "DesktopRect list \<Rightarrow> DesktopRect \<Rightarrow> DesktopRect list"
  and compact :: "DesktopRect list \<Rightarrow> DesktopRect list" where
  "add rs r =
     (if rwidth r = 0 \<or> rheight r = 0 then rs
      else (case merge_touching rs r of
              Covered rs' \<Rightarrow> rs'
            | Free rs' next \<Rightarrow> compact (rs' @ [next])))"
| "compact rs =
     (if length rs > MAX_DIRTY_RECTS then
        (case best_pair rs of (i, j, _) \<Rightarrow>
           compact (add (swap_remove (swap_remove rs j) i)
                        (rect_union (swap_remove rs j ! i) (rs ! j))))
      else rs)"
  by pat_completeness auto
termination
proof -
  have len: "add_compact_dom (Inl (rs, r)) \<Longrightarrow> length (add rs r) \<le> length rs + 1"
    "add_compact_dom (Inr rs') \<Longrightarrow> length (compact rs') \<le> length rs'" for rs r rs'
  proof (induction rs r and rs' rule: add_compact.pinduct)
    case (1 rs r)
    with merge_touching_length [of rs r] show ?case
      by (fastforce simp: add.psimps split: merged.splits)
  next
    case (2 rs)
    show ?case
    proof (cases "length rs > MAX_DIRTY_RECTS")
      case True
      obtain i j g where b: "best_pair rs = (i, j, g)" by (cases "best_pair rs")
      let ?rest = "add (swap_remove (swap_remove rs j) i) (rect_union (swap_remove rs j ! i) (rs ! j))"
      have "length ?rest \<le> length (swap_remove (swap_remove rs j) i) + 1"
        by (rule "2.IH"(1) [OF True b [symmetric] refl])
      moreover have "length (compact ?rest) \<le> length ?rest"
        by (rule "2.IH"(2) [OF True b [symmetric] refl])
      moreover have "compact rs = compact ?rest" using 2(1) True b by (simp add: compact.psimps)
      ultimately have "length (compact rs) \<le> length rs - 2 + 1" by simp
      with True show ?thesis by (simp add: MAX_DIRTY_RECTS_def)
    qed (use 2 in \<open>simp add: compact.psimps\<close>)
  qed
  show ?thesis
  proof (relation "measure (\<lambda>x. case x of Inl (rs, _) \<Rightarrow> 2 * length rs + 3 | Inr rs \<Rightarrow> 2 * length rs)")
    fix rs r rs' "next" assume "merge_touching rs r = Free rs' next"
    with merge_touching_length [of rs r]
    show "(Inr (rs' @ [next]), Inl (rs, r)) \<in> measure (\<lambda>x. case x of Inl (rs, _) \<Rightarrow> 2 * length rs + 3 | Inr rs \<Rightarrow> 2 * length rs)"
      by simp
  next
    fix rs :: "DesktopRect list" and i j g :: nat and x y
    assume big: "MAX_DIRTY_RECTS < length rs"
    show "(Inl (swap_remove (swap_remove rs j) i, rect_union (swap_remove rs j ! i) (rs ! j)), Inr rs)
        \<in> measure (\<lambda>x. case x of Inl (rs, _) \<Rightarrow> 2 * length rs + 3 | Inr rs \<Rightarrow> 2 * length rs)"
      using big by (simp add: MAX_DIRTY_RECTS_def)
    assume "add_compact_dom (Inl (swap_remove (swap_remove rs j) i, rect_union (swap_remove rs j ! i) (rs ! j)))"
    from len(1) [OF this] big
    show "(Inr (add (swap_remove (swap_remove rs j) i) (rect_union (swap_remove rs j ! i) (rs ! j))), Inr rs)
        \<in> measure (\<lambda>x. case x of Inl (rs, _) \<Rightarrow> 2 * length rs + 3 | Inr rs \<Rightarrow> 2 * length rs)"
      by (simp add: MAX_DIRTY_RECTS_def)
  qed simp
qed

declare add.simps [simp del] compact.simps [simp del]

definition extend :: "DesktopRect list \<Rightarrow> DesktopRect list \<Rightarrow> DesktopRect list" where
  "extend rs other = fold (\<lambda>r acc. add acc r) other rs"

definition region_area :: "DesktopRect list \<Rightarrow> nat" where
  "region_area rs = sum_list (map rect_area rs)"

definition region_fits :: "DesktopRect list \<Rightarrow> u16 \<Rightarrow> u16 \<Rightarrow> bool" where
  "region_fits rs w h \<longleftrightarrow> list_all (\<lambda>r. rect_fits r w h) rs"

section \<open>Geometry\<close>

definition in_box :: "nat \<Rightarrow> nat \<Rightarrow> DesktopRect \<Rightarrow> bool" where
  "in_box W H r \<longleftrightarrow> rwidth r \<noteq> 0 \<and> rheight r \<noteq> 0 \<and> right r \<le> W \<and> bottom r \<le> H"

definition apart :: "DesktopRect list \<Rightarrow> bool" where
  "apart rs \<longleftrightarrow> distinct rs \<and> (\<forall>a \<in> set rs. \<forall>b \<in> set rs. a \<noteq> b \<longrightarrow> \<not> touches a b)"

definition covered_by :: "DesktopRect set \<Rightarrow> DesktopRect set \<Rightarrow> bool" where
  "covered_by S T \<longleftrightarrow> (\<forall>q \<in> S. \<exists>c \<in> T. contains c q)"

lemma contains_refl [simp]: "contains a a"
  by (simp add: contains_def)

lemma contains_trans: "contains a b \<Longrightarrow> contains b c \<Longrightarrow> contains a c"
  by (auto simp: contains_def)

lemma touches_sym: "touches a b \<longleftrightarrow> touches b a"
  by (auto simp: touches_def)

lemma covered_by_refl [intro]: "S \<subseteq> T \<Longrightarrow> covered_by S T"
  unfolding covered_by_def using contains_refl by blast

lemma covered_by_trans: "covered_by S T \<Longrightarrow> covered_by T V \<Longrightarrow> covered_by S V"
  unfolding covered_by_def using contains_trans by blast

lemma unat_min_word: "unat (min a b) = min (unat a) (unat (b :: 'a::len word))"
  by (simp add: min_def word_le_nat_alt)

lemma unat_u16_of_nat: "n \<le> 65535 \<Longrightarrow> unat (word_of_nat n :: u16) = n"
  by (simp add: unat_of_nat)

lemma rect_union_edges:
  assumes "W \<le> 65535" "H \<le> 65535" "in_box W H a" "in_box W H b"
  shows "unat (rx (rect_union a b)) = min (unat (rx a)) (unat (rx b)) \<and>
    unat (ry (rect_union a b)) = min (unat (ry a)) (unat (ry b)) \<and>
    right (rect_union a b) = max (right a) (right b) \<and> bottom (rect_union a b) = max (bottom a) (bottom b)"
proof -
  have w: "max (right a) (right b) - unat (min (rx a) (rx b)) \<le> 65535"
    and h: "max (bottom a) (bottom b) - unat (min (ry a) (ry b)) \<le> 65535"
    using assms by (auto simp: in_box_def)
  have "unat (min (rx a) (rx b)) \<le> max (right a) (right b)"
    "unat (min (ry a) (ry b)) \<le> max (bottom a) (bottom b)"
    by (auto simp: unat_min_word right_def bottom_def)
  then show ?thesis
    using unat_u16_of_nat [OF w] unat_u16_of_nat [OF h]
    by (simp add: rect_union_def Let_def right_def [of "DesktopRect.make _ _ _ _"] unat_min_word)
      (simp add: right_def bottom_def unat_min_word)
qed

lemma rect_union_covers:
  assumes "W \<le> 65535" "H \<le> 65535" "in_box W H a" "in_box W H b"
  shows "contains (rect_union a b) a" "contains (rect_union a b) b" "in_box W H (rect_union a b)"
proof -
  note e = rect_union_edges [OF assms]
  show "contains (rect_union a b) a" "contains (rect_union a b) b"
    using e by (auto simp: contains_def word_le_nat_alt)
  have pos: "rwidth r \<noteq> 0 \<longleftrightarrow> unat (rx r) < right r" "rheight r \<noteq> 0 \<longleftrightarrow> unat (ry r) < bottom r" for r
    by (auto simp: right_def bottom_def unat_gt_0)
  show "in_box W H (rect_union a b)"
    using e assms(3,4) by (auto simp: in_box_def pos)
qed

section \<open>Removing by swapping\<close>

lemma mset_swap_remove: "i < length xs \<Longrightarrow> mset xs = add_mset (xs ! i) (mset (swap_remove xs i))"
proof -
  assume i: "i < length xs"
  then have xs: "xs = butlast xs @ [last xs]" by (cases xs) simp_all
  show ?thesis
  proof (cases "i + 1 = length xs")
    case True
    with i have "xs ! i = last xs" by (cases xs) (auto simp: last_conv_nth)
    with True show ?thesis using arg_cong [OF xs, of mset] by (simp add: swap_remove_def)
  next
    case False
    with i have lt: "i < length (butlast xs)" by simp
    then have "butlast xs ! i = xs ! i" by (simp add: nth_butlast)
    moreover have "mset xs = add_mset (last xs) (mset (butlast xs))" using arg_cong [OF xs, of mset] by simp
    moreover have "butlast xs ! i \<in># mset (butlast xs)" using lt by (metis nth_mem set_mset_mset)
    ultimately show ?thesis using lt False by (simp add: swap_remove_def mset_update)
  qed
qed

lemma set_swap_remove: "i < length xs \<Longrightarrow> set xs = insert (xs ! i) (set (swap_remove xs i))"
  using arg_cong [OF mset_swap_remove, of i xs set_mset] by simp

lemma distinct_swap_remove:
  "distinct xs \<Longrightarrow> i < length xs \<Longrightarrow> distinct (swap_remove xs i) \<and> xs ! i \<notin> set (swap_remove xs i)"
  using mset_swap_remove [of i xs] by (metis distinct.simps(2) mset.simps(2) mset_eq_imp_distinct_iff)

lemma nth_swap_remove: "i < j \<Longrightarrow> j < length xs \<Longrightarrow> swap_remove xs j ! i = xs ! i"
  by (auto simp: swap_remove_def nth_butlast)

lemma apart_swap_remove: "apart xs \<Longrightarrow> i < length xs \<Longrightarrow> apart (swap_remove xs i)"
  using set_swap_remove [of i xs] distinct_swap_remove [of xs i] by (auto simp: apart_def)

section \<open>What adding a rectangle does\<close>

lemma merge_touching_spec:
  assumes box: "W \<le> 65535" "H \<le> 65535"
  shows "\<forall>r \<in> set rs. in_box W H r \<Longrightarrow> in_box W H next \<Longrightarrow> apart rs \<Longrightarrow>
    (case merge_touching rs next of
       Covered rs' \<Rightarrow> set rs' \<subseteq> set rs \<and> apart rs' \<and> covered_by (insert next (set rs)) (set rs')
     | Free rs' n \<Rightarrow> set rs' \<subseteq> set rs \<and> apart rs' \<and> in_box W H n \<and> (\<forall>c \<in> set rs'. \<not> touches c n) \<and>
         covered_by (insert next (set rs)) (insert n (set rs')))"
proof (induction rs "next" rule: merge_touching.induct)
  case (1 rs "next")
  consider (cov) "\<exists>r \<in> set rs. contains r next"
    | (free) "\<not> (\<exists>r \<in> set rs. contains r next)" "position (\<lambda>r. touches r next) rs = None"
    | (merge) i where "\<not> (\<exists>r \<in> set rs. contains r next)" "position (\<lambda>r. touches r next) rs = Some i"
    by fastforce
  then show ?case
  proof cases
    case cov
    with "1.prems" show ?thesis
      by (auto simp: merge_touching.simps [of rs "next"] list_ex_iff covered_by_def intro: contains_refl)
  next
    case free
    then have "merge_touching rs next = Free rs next"
      by (simp add: merge_touching.simps [of rs "next"] list_ex_iff)
    with free "1.prems" show ?thesis by (auto simp: position_None intro!: covered_by_refl)
  next
    case (merge i)
    then have i: "i < length rs" using position_Some by blast
    let ?rs = "swap_remove rs i" and ?n = "rect_union next (rs ! i)"
    have step: "merge_touching rs next = merge_touching ?rs ?n"
      using merge by (simp add: merge_touching.simps [of rs "next"] list_ex_iff)
    note set = set_swap_remove [OF i]
    have u: "contains ?n next" "contains ?n (rs ! i)" "in_box W H ?n"
      using rect_union_covers [OF box "1.prems"(2), of "rs ! i"] "1.prems"(1) i by auto
    have cov: "covered_by (insert next (set rs)) (insert ?n (set ?rs))"
      using set u by (auto simp: covered_by_def intro: contains_refl)
    have ne: "\<not> list_ex (\<lambda>r. contains r next) rs" using merge by (simp add: list_ex_iff)
    have IH: "case merge_touching ?rs ?n of
       Covered rs' \<Rightarrow> set rs' \<subseteq> set ?rs \<and> apart rs' \<and> covered_by (insert ?n (set ?rs)) (set rs')
     | Free rs' n \<Rightarrow> set rs' \<subseteq> set ?rs \<and> apart rs' \<and> in_box W H n \<and> (\<forall>c \<in> set rs'. \<not> touches c n) \<and>
         covered_by (insert ?n (set ?rs)) (insert n (set rs'))"
      using "1.IH" [OF ne merge(2)] "1.prems" set u(3) apart_swap_remove [OF "1.prems"(3) i] by auto
    then show ?thesis
      unfolding step using set covered_by_trans [OF cov] by (auto split: merged.splits)
  qed
qed

lemma index_pairs_set: "set (index_pairs n) = {(i, j). i < j \<and> j < n}"
  by (force simp: index_pairs_def)

lemma best_of_least:
  "snd (snd (best_of rs ps b)) \<le> snd (snd b) \<and>
   (\<forall>(i, j) \<in> set ps. snd (snd (best_of rs ps b)) \<le> pair_growth (rs ! i) (rs ! j)) \<and>
   (best_of rs ps b = b \<or> (\<exists>(i, j) \<in> set ps. best_of rs ps b = (i, j, pair_growth (rs ! i) (rs ! j))))"
proof (induction rs ps b rule: best_of.induct)
  case (2 rs i j ps bi bj least)
  then show ?case by (auto split: if_splits)
qed simp

lemma unat_u16_le: "unat (x :: u16) \<le> 65535"
proof -
  have "unat x < 2 ^ LENGTH(16)" by (rule unsigned_less)
  then show ?thesis by simp
qed

lemma rect_area_bound: "rect_area r < 2 ^ 64 - 1"
proof -
  have "unat (rwidth r) * unat (rheight r) \<le> 65535 * 65535"
    by (intro mult_le_mono unat_u16_le)
  then show ?thesis by (simp add: rect_area_def)
qed

lemma best_pair_spec:
  assumes "2 \<le> length rs" "best_pair rs = (i, j, g)"
  shows "i < j \<and> j < length rs \<and> g = pair_growth (rs ! i) (rs ! j) \<and>
    (\<forall>i' j'. i' < j' \<longrightarrow> j' < length rs \<longrightarrow> g \<le> pair_growth (rs ! i') (rs ! j'))"
proof -
  let ?f = "\<lambda>i j. pair_growth (rs ! i) (rs ! j)"
  have b: "snd (snd (best_pair rs)) \<le> 2 ^ 64 - 1 \<and>
      (\<forall>(i, j) \<in> set (index_pairs (length rs)). snd (snd (best_pair rs)) \<le> ?f i j) \<and>
      (best_pair rs = (0, 1, 2 ^ 64 - 1) \<or> (\<exists>(i, j) \<in> set (index_pairs (length rs)). best_pair rs = (i, j, ?f i j)))"
    using best_of_least [of rs "index_pairs (length rs)" "(0, 1, 2 ^ 64 - 1)"] by (simp add: best_pair_def)
  have "?f 0 1 < 2 ^ 64 - 1" unfolding pair_growth_def using rect_area_bound le_less_trans diff_le_self by blast
  moreover have "snd (snd (best_pair rs)) \<le> ?f 0 1" using b assms(1) by (auto simp: index_pairs_set)
  ultimately have "best_pair rs \<noteq> (0, 1, 2 ^ 64 - 1)" by auto
  with b assms show ?thesis by (auto simp: index_pairs_set)
qed


lemma add_compact_spec:
  assumes box: "W \<le> 65535" "H \<le> 65535"
  shows "\<forall>r \<in> set rs. in_box W H r \<Longrightarrow> in_box W H x \<Longrightarrow> apart rs \<Longrightarrow>
      (\<forall>r \<in> set (add rs x). in_box W H r) \<and> apart (add rs x) \<and> covered_by (insert x (set rs)) (set (add rs x))"
    and "\<forall>r \<in> set rs'. in_box W H r \<Longrightarrow> apart rs' \<Longrightarrow>
      (\<forall>r \<in> set (compact rs'). in_box W H r) \<and> apart (compact rs') \<and> covered_by (set rs') (set (compact rs'))"
proof (induction rs x and rs' rule: add_compact.induct)
  case (1 rs x)
  have ne: "\<not> (rwidth x = 0 \<or> rheight x = 0)" using "1.prems"(2) by (simp add: in_box_def)
  note m = merge_touching_spec [OF box "1.prems"]
  show ?case
  proof (cases "merge_touching rs x")
    case (Covered rs')
    with ne m "1.prems" show ?thesis by (auto simp: add.simps [of rs x])
  next
    case (Free rs' n)
    with m have f: "set rs' \<subseteq> set rs" "apart rs'" "in_box W H n" "\<forall>c \<in> set rs'. \<not> touches c n"
      "covered_by (insert x (set rs)) (insert n (set rs'))" by auto
    have "touches n n" by (simp add: touches_def right_def bottom_def)
    moreover have "\<forall>c \<in> set rs'. \<not> touches n c" using f(4) touches_sym by blast
    ultimately have ap: "apart (rs' @ [n])" using f(2,4) by (auto simp: apart_def)
    have "\<forall>r \<in> set (rs' @ [n]). in_box W H r" using f "1.prems"(1) by auto
    from "1.IH" [OF ne Free this ap] f(5) covered_by_trans
    have "(\<forall>r \<in> set (compact (rs' @ [n])). in_box W H r) \<and> apart (compact (rs' @ [n])) \<and>
        covered_by (insert x (set rs)) (set (compact (rs' @ [n])))" by (metis list.simps(15) rotate1.simps(2) set_rotate1)
    with ne Free show ?thesis by (simp add: add.simps [of rs x])
  qed
next
  case (2 rs)
  show ?case
  proof (cases "length rs > MAX_DIRTY_RECTS")
    case True
    obtain i j g where b: "best_pair rs = (i, j, g)" by (cases "best_pair rs")
    with best_pair_spec [of rs i j g] True have ij: "i < j" "j < length rs" by (auto simp: MAX_DIRTY_RECTS_def)
    let ?r1 = "swap_remove rs j"
    let ?r2 = "swap_remove ?r1 i" and ?u = "rect_union (?r1 ! i) (rs ! j)"
    have i1: "i < length ?r1" using ij by simp
    have set: "set rs = insert (rs ! j) (insert (?r1 ! i) (set ?r2))"
      using set_swap_remove [OF ij(2)] set_swap_remove [OF i1] by simp
    have u: "contains ?u (?r1 ! i)" "contains ?u (rs ! j)" "in_box W H ?u"
      using rect_union_covers [OF box, of "?r1 ! i" "rs ! j"] "2.prems"(1) set by auto
    have ap: "apart ?r2" using apart_swap_remove ij i1 "2.prems"(2) by blast
    have in2: "\<forall>r \<in> set ?r2. in_box W H r" using "2.prems"(1) set by auto
    from "2.IH"(1) [OF True b [symmetric] refl in2 u(3) ap]
    have a: "\<forall>r \<in> set (add ?r2 ?u). in_box W H r" "apart (add ?r2 ?u)"
      "covered_by (insert ?u (set ?r2)) (set (add ?r2 ?u))" by auto
    have "covered_by (set rs) (insert ?u (set ?r2))"
      using set u by (auto simp: covered_by_def intro: contains_refl)
    then have "covered_by (set rs) (set (add ?r2 ?u))" by (rule covered_by_trans) (rule a(3))
    moreover have "compact rs = compact (add ?r2 ?u)" using True b by (simp add: compact.simps [of rs])
    ultimately show ?thesis
      using "2.IH"(2) [OF True b [symmetric] refl a(1,2)] covered_by_trans by metis
  qed (use 2 in \<open>auto simp: compact.simps [of rs]\<close>)
qed

lemma compact_bound: "True" "length (compact rs) \<le> MAX_DIRTY_RECTS"
proof (induction and rs rule: add_compact.induct)
  case (2 rs)
  then show ?case by (cases "best_pair rs") (auto simp: compact.simps [of rs])
qed simp

lemma add_bound: "length rs \<le> MAX_DIRTY_RECTS \<Longrightarrow> length (add rs r) \<le> MAX_DIRTY_RECTS"
  using merge_touching_length [of rs r] compact_bound(2)
  by (auto simp: add.simps [of rs r] split: merged.splits)

lemma in_box_fits: "in_box (unat w) (unat h) r \<longleftrightarrow> rect_fits r w h"
  by (simp add: in_box_def rect_fits_def)

lemma add_fits:
  assumes "region_fits rs w h" "apart rs" "rect_fits r w h"
  shows "region_fits (add rs r) w h \<and> apart (add rs r) \<and> covered_by (insert r (set rs)) (set (add rs r))"
  using add_compact_spec(1) [OF unat_u16_le unat_u16_le, of rs w h r] assms
  by (simp add: in_box_fits region_fits_def list_all_iff)

lemma add_empty: "rwidth r = 0 \<or> rheight r = 0 \<Longrightarrow> add rs r = rs"
  by (simp add: add.simps [of rs r])

lemma extend_spec:
  assumes "region_fits rs w h" "apart rs" "length rs \<le> MAX_DIRTY_RECTS"
    and "\<forall>r \<in> set other. rwidth r = 0 \<or> rheight r = 0 \<or> rect_fits r w h"
  shows "region_fits (extend rs other) w h \<and> apart (extend rs other) \<and>
    length (extend rs other) \<le> MAX_DIRTY_RECTS \<and>
    covered_by (set rs \<union> {r \<in> set other. rect_fits r w h}) (set (extend rs other))"
  using assms
proof (induction other arbitrary: rs)
  case Nil
  then show ?case by (auto simp: extend_def)
next
  case (Cons x xs)
  have step: "extend rs (x # xs) = extend (add rs x) xs" by (simp add: extend_def)
  show ?case
  proof (cases "rwidth x = 0 \<or> rheight x = 0")
    case True
    then have "\<not> rect_fits x w h" by (auto simp: rect_fits_def)
    then have "{r \<in> set (x # xs). rect_fits r w h} = {r \<in> set xs. rect_fits r w h}" by auto
    with Cons True show ?thesis by (simp add: step add_empty)
  next
    case False
    with Cons.prems have x: "rect_fits x w h" by simp
    note a = add_fits [OF Cons.prems(1,2) x]
    from Cons.IH [of "add rs x"] a add_bound [OF Cons.prems(3)] Cons.prems(4)
    have e: "region_fits (extend rs (x # xs)) w h \<and> apart (extend rs (x # xs)) \<and>
        length (extend rs (x # xs)) \<le> MAX_DIRTY_RECTS \<and>
        covered_by (set (add rs x) \<union> {r \<in> set xs. rect_fits r w h}) (set (extend rs (x # xs)))"
      by (simp add: step)
    moreover have "covered_by (set rs \<union> {r \<in> set (x # xs). rect_fits r w h})
        (set (add rs x) \<union> {r \<in> set xs. rect_fits r w h})"
      using a contains_refl unfolding covered_by_def by fastforce
    ultimately show ?thesis using covered_by_trans by blast
  qed
qed

section \<open>Properties\<close>

text \<open>
  (C7) A dirty region of a frame never under-covers: after any sequence of rectangles, empty or
  inside the frame, has been added, every rectangle the region held and every nonempty one that was
  added lies inside a single rectangle of the region; the region stays inside the frame, keeps at
  most 16 rectangles, and no two of them overlap or are adjacent.
\<close>

theorem dirty_region_covers:
  assumes "region_fits rs w h" "apart rs" "length rs \<le> MAX_DIRTY_RECTS"
    and "\<forall>r \<in> set other. rwidth r = 0 \<or> rheight r = 0 \<or> rect_fits r w h"
  shows "(\<forall>q. q \<in> set rs \<or> q \<in> set other \<and> rwidth q \<noteq> 0 \<and> rheight q \<noteq> 0 \<longrightarrow>
      (\<exists>c \<in> set (extend rs other). contains c q)) \<and>
    region_fits (extend rs other) w h \<and> apart (extend rs other) \<and> length (extend rs other) \<le> 16"
  using extend_spec [OF assms] assms(4) unfolding covered_by_def MAX_DIRTY_RECTS_def by blast

theorem dirty_region_covers_witness:
  "\<exists>c \<in> set (extend [] [\<lparr>rx = 0, ry = 0, rwidth = 2, rheight = 2\<rparr>, \<lparr>rx = 9, ry = 9, rwidth = 0, rheight = 1\<rparr>,
       \<lparr>rx = 2, ry = 1, rwidth = 3, rheight = 2\<rparr>]). contains c \<lparr>rx = 0, ry = 0, rwidth = 2, rheight = 2\<rparr>"
  using dirty_region_covers [of "[]" 8 8 "[\<lparr>rx = 0, ry = 0, rwidth = 2, rheight = 2\<rparr>,
      \<lparr>rx = 9, ry = 9, rwidth = 0, rheight = 1\<rparr>, \<lparr>rx = 2, ry = 1, rwidth = 3, rheight = 2\<rparr>]"]
  by (simp add: region_fits_def apart_def rect_fits_def right_def bottom_def)

text \<open>
  When the region is over its bound, the pair that is merged is the first whose union adds
  the least area: its indices are ordered and in range, and no other pair grows by less.
\<close>

theorem dirty_region_merges_cheapest:
  assumes "2 \<le> length rs" "best_pair rs = (i, j, g)"
  shows "i < j \<and> j < length rs \<and> g = pair_growth (rs ! i) (rs ! j) \<and>
    (\<forall>i' j'. i' < j' \<longrightarrow> j' < length rs \<longrightarrow> g \<le> pair_growth (rs ! i') (rs ! j'))"
  using assms by (rule best_pair_spec)

theorem dirty_region_merges_cheapest_witness:
  "\<exists>rs. best_pair rs = (1, 2, 1) \<and> length rs = 3 \<and>
     (\<forall>i' j'. i' < j' \<longrightarrow> j' < length rs \<longrightarrow> 1 \<le> pair_growth (rs ! i') (rs ! j'))"
proof -
  let ?rs = "[\<lparr>rx = 90, ry = 0, rwidth = 1, rheight = 1\<rparr>, \<lparr>rx = 0, ry = 0, rwidth = 1, rheight = 1\<rparr>,
    \<lparr>rx = 2, ry = 0, rwidth = 1, rheight = 1\<rparr>]"
  have b: "best_pair ?rs = (1, 2, 1)" by code_simp
  have l: "2 \<le> length ?rs" "length ?rs = 3" by simp_all
  from dirty_region_merges_cheapest [OF l(1) b] b l(2) show ?thesis by blast
qed

text \<open>
  Without the bound on the edges the cast in \<open>union\<close> loses the region: two touching rectangles
  that reach past column 65535 merge into one of width 0.
\<close>

lemma union_truncates_past_u16:
  "add [\<lparr>rx = 0, ry = 0, rwidth = 65535, rheight = 1\<rparr>] \<lparr>rx = 65535, ry = 0, rwidth = 1, rheight = 1\<rparr>
   = [\<lparr>rx = 0, ry = 0, rwidth = 0, rheight = 1\<rparr>]"
  by code_simp

end
