(* ===== verification/DesktopFrame.thy ===== *)
theory DesktopFrame
  imports DesktopRegion RustStr
begin

text \<open>
  Frames, patches, cursors and inputs of \<open>crates/desktop-protocol/src/lib.rs\<close>. A frame's pixels are
  its byte vector; a slice out of range panics and is the fault \<open>Panic\<close>. Offsets are \<open>usize\<close> sums
  of products of \<open>u16\<close> values, below \<open>2 ^ 64\<close>, and are natural numbers here.
\<close>

datatype EngineError =
    InvalidConfiguration | AuthenticationRejected | CertificateRejected | UnsupportedAuthentication
  | UnsupportedOperation | EngineProtocol | RdpUdpUnavailable | RdpGraphicsUnavailable
  | RdpResolutionUnavailable | RdpResolutionModeDisabled | RdpResolutionNotApplied
  | VncResolutionUnavailable | VncResolutionRejected | VncResolutionNotApplied
  | VncResolutionModeDisabled | ResourceLimit | ConnectionLost | EngineTimeout | Cancelled | StaleInput

definition MAX_PIXELS :: nat where "MAX_PIXELS = 16777216"
definition MAX_DIMENSION :: u16 where "MAX_DIMENSION = 8192"

section \<open>Slices\<close>

definition slice :: "'a list \<Rightarrow> nat \<Rightarrow> nat \<Rightarrow> 'a list option" where
  "slice xs a b = (if a \<le> b \<and> b \<le> length xs then Some (take (b - a) (drop a xs)) else None)"

text \<open>\<open>xs[a..a + ys.len()].copy_from_slice(ys)\<close>.\<close>

definition copy_into :: "'a list \<Rightarrow> nat \<Rightarrow> 'a list \<Rightarrow> 'a list option" where
  "copy_into xs a ys =
     (if a + length ys \<le> length xs then Some (take a xs @ ys @ drop (a + length ys) xs) else None)"

text \<open>\<open>xs.copy_within(a..b, dest)\<close>: the source range is read before the destination is written.\<close>

definition copy_within :: "'a list \<Rightarrow> nat \<Rightarrow> nat \<Rightarrow> nat \<Rightarrow> 'a list option" where
  "copy_within xs a b dest = Option.bind (slice xs a b) (copy_into xs dest)"

section \<open>Frames\<close>

record DesktopFrame =
  fwidth :: u16
  fheight :: u16
  rgba :: "u8 list"

record FramePatch =
  pwidth :: u16
  pheight :: u16
  prects :: "(DesktopRect \<times> u8 list) list"

definition frame_len :: "u16 \<Rightarrow> u16 \<Rightarrow> EngineError + nat" where
  "frame_len w h =
     (let pixels = unat w * unat h in
      if w = 0 \<or> h = 0 \<or> w > MAX_DIMENSION \<or> h > MAX_DIMENSION \<or> pixels > MAX_PIXELS
      then Inl ResourceLimit else Inr (pixels * 4))"


definition check_rect :: "DesktopFrame \<Rightarrow> u16 \<Rightarrow> u16 \<Rightarrow> u16 \<Rightarrow> u16 \<Rightarrow> EngineError + unit" where
  "check_rect f x y w h =
     (if w = 0 \<or> h = 0 \<or> unat x + unat w > unat (fwidth f) \<or> unat y + unat h > unat (fheight f)
      then Inl EngineProtocol
      else bind_result (frame_len (fwidth f) (fheight f)) (\<lambda>len.
             fail_if (length (rgba f) \<noteq> len) EngineProtocol))"

definition row_start :: "u16 \<Rightarrow> u16 \<Rightarrow> u16 \<Rightarrow> nat \<Rightarrow> nat" where
  "row_start stride x y row = ((unat y + row) * unat stride + unat x) * 4"

fun read_rows :: "u8 list \<Rightarrow> u16 \<Rightarrow> DesktopRect \<Rightarrow> nat list \<Rightarrow> u8 list \<Rightarrow> u8 list option" where
  "read_rows bs stride r [] out = Some out"
| "read_rows bs stride r (row # rest) out =
     (let start = row_start stride (rx r) (ry r) row in
      case slice bs start (start + unat (rwidth r) * 4) of
        None \<Rightarrow> None
      | Some line \<Rightarrow> read_rows bs stride r rest (out @ line))"

definition read_rect :: "u8 list \<Rightarrow> u16 \<Rightarrow> DesktopRect \<Rightarrow> u8 list option" where
  "read_rect bs stride r = read_rows bs stride r [0..<unat (rheight r)] []"

fun extract_rects :: "DesktopFrame \<Rightarrow> DesktopRect list \<Rightarrow> EngineError fault + (DesktopRect \<times> u8 list) list" where
  "extract_rects f [] = Inr []"
| "extract_rects f (r # rs) =
     (case check_rect f (rx r) (ry r) (rwidth r) (rheight r) of
        Inl e \<Rightarrow> Inl (Err e)
      | Inr _ \<Rightarrow>
          (case read_rect (rgba f) (fwidth f) r of
             None \<Rightarrow> Inl Panic
           | Some bs \<Rightarrow> bind_result (extract_rects f rs) (\<lambda>rest. Inr ((r, bs) # rest))))"

definition extract_patch :: "DesktopFrame \<Rightarrow> DesktopRect list \<Rightarrow> EngineError fault + FramePatch" where
  "extract_patch f region =
     bind_result (extract_rects f region) (\<lambda>rs.
       Inr \<lparr>pwidth = fwidth f, pheight = fheight f, prects = rs\<rparr>)"

fun write_rows :: "u8 list \<Rightarrow> u16 \<Rightarrow> u16 \<Rightarrow> u16 \<Rightarrow> nat \<Rightarrow> u8 list \<Rightarrow> nat list \<Rightarrow> u8 list option" where
  "write_rows bs stride x y row_bytes src [] = Some bs"
| "write_rows bs stride x y row_bytes src (row # rest) =
     (case slice src (row * row_bytes) ((row + 1) * row_bytes) of
        None \<Rightarrow> None
      | Some line \<Rightarrow>
          (case copy_into bs (row_start stride x y row) line of
             None \<Rightarrow> None
           | Some bs' \<Rightarrow> write_rows bs' stride x y row_bytes src rest))"

definition write_rect ::
    "DesktopFrame \<Rightarrow> u16 \<Rightarrow> u16 \<Rightarrow> u16 \<Rightarrow> u16 \<Rightarrow> u8 list \<Rightarrow> EngineError fault + DesktopFrame" where
  "write_rect f x y w h src =
     (case check_rect f x y w h of
        Inl e \<Rightarrow> Inl (Err e)
      | Inr _ \<Rightarrow>
          if length src \<noteq> unat w * 4 * unat h then Inl (Err EngineProtocol)
          else (case write_rows (rgba f) (fwidth f) x y (unat w * 4) src [0..<unat h] of
                  None \<Rightarrow> Inl Panic
                | Some bs \<Rightarrow> Inr (f\<lparr>rgba := bs\<rparr>)))"

text \<open>Rectangles written before a failing one stay written; the frame is part of the result.\<close>

fun apply_rects ::
    "DesktopFrame \<Rightarrow> (DesktopRect \<times> u8 list) list \<Rightarrow> (EngineError fault + unit) \<times> DesktopFrame" where
  "apply_rects f [] = (Inr (), f)"
| "apply_rects f ((r, bs) # rest) =
     (case write_rect f (rx r) (ry r) (rwidth r) (rheight r) bs of
        Inl e \<Rightarrow> (Inl e, f)
      | Inr f' \<Rightarrow> apply_rects f' rest)"

definition apply_patch :: "DesktopFrame \<Rightarrow> FramePatch \<Rightarrow> (EngineError fault + unit) \<times> DesktopFrame" where
  "apply_patch f p =
     (if pwidth p \<noteq> fwidth f \<or> pheight p \<noteq> fheight f then (Inl (Err EngineProtocol), f)
      else apply_rects f (prects p))"

fun copy_rows :: "u8 list \<Rightarrow> u16 \<Rightarrow> u16 \<Rightarrow> u16 \<Rightarrow> u16 \<Rightarrow> u16 \<Rightarrow> nat \<Rightarrow> nat list \<Rightarrow> u8 list option" where
  "copy_rows bs stride sx sy x y row_bytes [] = Some bs"
| "copy_rows bs stride sx sy x y row_bytes (row # rest) =
     (let source = row_start stride sx sy row in
      case copy_within bs source (source + row_bytes) (row_start stride x y row) of
        None \<Rightarrow> None
      | Some bs' \<Rightarrow> copy_rows bs' stride sx sy x y row_bytes rest)"

definition copy_rect ::
    "DesktopFrame \<Rightarrow> u16 \<Rightarrow> u16 \<Rightarrow> u16 \<Rightarrow> u16 \<Rightarrow> u16 \<Rightarrow> u16 \<Rightarrow> EngineError fault + DesktopFrame" where
  "copy_rect f sx sy x y w h =
     (case seq_checks [check_rect f sx sy w h, check_rect f x y w h] of
        Inl e \<Rightarrow> Inl (Err e)
      | Inr _ \<Rightarrow>
          let order = (if y > sy then rev [0..<unat h] else [0..<unat h]) in
          (case copy_rows (rgba f) (fwidth f) sx sy x y (unat w * 4) order of
             None \<Rightarrow> Inl Panic
           | Some bs \<Rightarrow> Inr (f\<lparr>rgba := bs\<rparr>)))"

section \<open>Cursors\<close>

record CursorBitmap =
  cwidth :: u16
  cheight :: u16
  hotspot_x :: u16
  hotspot_y :: u16
  crgba :: "u8 list"

datatype DesktopCursor = CursorDefault | CursorHidden | Bitmap CursorBitmap


section \<open>Inputs and their admission\<close>

datatype DesktopInput =
    Key u16 u32 bool
  | Pointer u16 u16 u8
  | Wheel u16 u16 "16 word" "16 word"
  | InputText ustring
  | InputClipboard ustring
  | InputResize u16 u16 u16
  | ReleaseAll





section \<open>Lines of pixels\<close>

definition line_start :: "nat \<Rightarrow> nat \<Rightarrow> nat \<Rightarrow> nat" where
  "line_start W x L = (L * W + x) * 4"

lemma row_start_line: "row_start stride x y row = line_start (unat stride) (unat x) (unat y + row)"
  by (simp add: row_start_def line_start_def)

lemma line_start_less:
  assumes "L < L'" "i < 4 * n" "x + n \<le> W"
  shows "line_start W x L + i < line_start W x' L'"
proof -
  have "L * W + W \<le> L' * W" using mult_le_mono1 [of "Suc L" L' W] assms(1) by simp
  moreover have "line_start W x L + i < 4 * (L * W) + 4 * W"
    using assms(2,3) by (simp add: line_start_def algebra_simps)
  ultimately show ?thesis by (simp add: line_start_def algebra_simps)
qed

lemma line_start_disjoint:
  assumes "L \<noteq> L'" "i < 4 * n" "x + n \<le> W" "i' < 4 * n'" "x' + n' \<le> W"
  shows "line_start W x L + i \<noteq> line_start W x' L' + i'"
proof (cases "L < L'")
  case True
  from line_start_less [OF this assms(2,3), of x'] show ?thesis by simp
next
  case False
  with assms(1) have "L' < L" by simp
  from line_start_less [OF this assms(4,5), of x] show ?thesis by simp
qed

lemma row_start_disjoint:
  assumes "unat y + row \<noteq> unat y' + row'" "i < 4 * n" "unat x + n \<le> unat stride" "i' < 4 * n'"
    "unat x' + n' \<le> unat stride"
  shows "row_start stride x y row + i \<noteq> row_start stride x' y' row' + i'"
  unfolding row_start_line using line_start_disjoint [OF assms] .

lemma line_end_le:
  assumes "L < H" "x + n \<le> W"
  shows "line_start W x L + 4 * n \<le> W * H * 4"
proof -
  have "L * W + W \<le> H * W" using mult_le_mono1 [of "Suc L" H W] assms(1) by simp
  moreover have "line_start W x L + 4 * n = 4 * (L * W + (x + n))" by (simp add: line_start_def algebra_simps)
  ultimately show ?thesis using assms(2) by (simp add: mult.commute)
qed

lemma slice_Some:
  assumes "a + n \<le> length xs"
  obtains ys where "slice xs a (a + n) = Some ys" "length ys = n" "\<And>i. i < n \<Longrightarrow> ys ! i = xs ! (a + i)"
  using assms by (simp add: slice_def)

lemma copy_into_Some:
  assumes "a + length ys \<le> length xs"
  obtains zs where "copy_into xs a ys = Some zs" "length zs = length xs"
    "\<And>i. i < length ys \<Longrightarrow> zs ! (a + i) = ys ! i"
    "\<And>k. k < length xs \<Longrightarrow> (\<And>i. i < length ys \<Longrightarrow> k \<noteq> a + i) \<Longrightarrow> zs ! k = xs ! k"
proof
  let ?zs = "take a xs @ ys @ drop (a + length ys) xs"
  show "copy_into xs a ys = Some ?zs" using assms by (simp add: copy_into_def)
  show "length ?zs = length xs" using assms by simp
  show "\<And>i. i < length ys \<Longrightarrow> ?zs ! (a + i) = ys ! i" using assms by (simp add: nth_append)
  show "?zs ! k = xs ! k" if k: "k < length xs" and out: "\<And>i. i < length ys \<Longrightarrow> k \<noteq> a + i" for k
  proof (cases "k < a")
    case True
    then show ?thesis using assms by (simp add: nth_append)
  next
    case False
    with out [of "k - a"] have "a + length ys \<le> k" by linarith
    then have "\<not> k < a" "\<not> k - a < length ys" by linarith+
    with assms k False show ?thesis by (simp add: nth_append)
  qed
qed

lemma write_rows_spec:
  assumes "distinct rows" "unat x + n \<le> unat stride"
    and "\<forall>row \<in> set rows. (row + 1) * (4 * n) \<le> length src \<and> row_start stride x y row + 4 * n \<le> length bs"
  shows "\<exists>bs'. write_rows bs stride x y (4 * n) src rows = Some bs' \<and> length bs' = length bs \<and>
    (\<forall>row \<in> set rows. \<forall>i < 4 * n. bs' ! (row_start stride x y row + i) = src ! (row * (4 * n) + i)) \<and>
    (\<forall>k < length bs. (\<forall>row \<in> set rows. \<forall>i < 4 * n. k \<noteq> row_start stride x y row + i) \<longrightarrow> bs' ! k = bs ! k)"
  using assms
proof (induction rows arbitrary: bs)
  case Nil
  then show ?case by simp
next
  case (Cons row rows)
  let ?T = "row_start stride x y"
  have "row * (4 * n) + 4 * n \<le> length src" using Cons.prems(3) by (simp add: algebra_simps)
  from slice_Some [OF this] obtain line where line: "slice src (row * (4 * n)) ((row + 1) * (4 * n)) = Some line"
    "length line = 4 * n" "\<And>i. i < 4 * n \<Longrightarrow> line ! i = src ! (row * (4 * n) + i)"
    by (auto simp: algebra_simps)
  have "?T row + length line \<le> length bs" using Cons.prems(3) line(2) by simp
  from copy_into_Some [OF this] obtain bs1 where bs1: "copy_into bs (?T row) line = Some bs1"
    "length bs1 = length bs" "\<And>i. i < 4 * n \<Longrightarrow> bs1 ! (?T row + i) = line ! i"
    "\<And>k. k < length bs \<Longrightarrow> (\<And>i. i < 4 * n \<Longrightarrow> k \<noteq> ?T row + i) \<Longrightarrow> bs1 ! k = bs ! k"
    unfolding line(2) by blast
  have "\<exists>bs'. write_rows bs1 stride x y (4 * n) src rows = Some bs' \<and> length bs' = length bs1 \<and>
      (\<forall>row \<in> set rows. \<forall>i < 4 * n. bs' ! (?T row + i) = src ! (row * (4 * n) + i)) \<and>
      (\<forall>k < length bs1. (\<forall>row \<in> set rows. \<forall>i < 4 * n. k \<noteq> ?T row + i) \<longrightarrow> bs' ! k = bs1 ! k)"
    using Cons.IH [of bs1] Cons.prems bs1(2) by simp
  then obtain bs' where IH: "write_rows bs1 stride x y (4 * n) src rows = Some bs'" "length bs' = length bs1"
      "\<forall>row \<in> set rows. \<forall>i < 4 * n. bs' ! (?T row + i) = src ! (row * (4 * n) + i)"
      "\<forall>k < length bs1. (\<forall>row \<in> set rows. \<forall>i < 4 * n. k \<noteq> ?T row + i) \<longrightarrow> bs' ! k = bs1 ! k"
    by blast
  have own: "bs' ! (?T row + i) = src ! (row * (4 * n) + i)" if i: "i < 4 * n" for i
  proof -
    have "?T row + i < length bs1" using Cons.prems(3) bs1(2) i by fastforce
    moreover have "?T row + i \<noteq> ?T row' + i'" if "row' \<in> set rows" "i' < 4 * n" for row' i'
      by (rule row_start_disjoint [OF _ i Cons.prems(2) that(2) Cons.prems(2)]) (use that(1) Cons.prems(1) in auto)
    ultimately show ?thesis using IH(4) bs1(3) line(3) i by auto
  qed
  have step: "write_rows bs stride x y (4 * n) src (row # rows) = Some bs'" using line(1) bs1(1) IH(1) by simp
  show ?case
    by (rule exI [of _ bs']) (use step IH bs1 own in auto)
qed

lemma copy_rows_spec:
  assumes "distinct rows" "sorted_wrt (\<lambda>done later. unat y + done \<noteq> unat sy + later) rows"
    and "unat x + n \<le> unat stride" "unat sx + n \<le> unat stride"
    and "\<forall>row \<in> set rows. row_start stride sx sy row + 4 * n \<le> length bs \<and>
      row_start stride x y row + 4 * n \<le> length bs"
  shows "\<exists>bs'. copy_rows bs stride sx sy x y (4 * n) rows = Some bs' \<and> length bs' = length bs \<and>
    (\<forall>row \<in> set rows. \<forall>i < 4 * n. bs' ! (row_start stride x y row + i) = bs ! (row_start stride sx sy row + i)) \<and>
    (\<forall>k < length bs. (\<forall>row \<in> set rows. \<forall>i < 4 * n. k \<noteq> row_start stride x y row + i) \<longrightarrow> bs' ! k = bs ! k)"
  using assms
proof (induction rows arbitrary: bs)
  case Nil
  then show ?case by simp
next
  case (Cons row rows)
  let ?T = "row_start stride x y" and ?S = "row_start stride sx sy"
  have "?S row + 4 * n \<le> length bs" using Cons.prems(5) by simp
  from slice_Some [OF this] obtain line where line: "slice bs (?S row) (?S row + 4 * n) = Some line"
    "length line = 4 * n" "\<And>i. i < 4 * n \<Longrightarrow> line ! i = bs ! (?S row + i)" by blast
  have "?T row + length line \<le> length bs" using Cons.prems(5) line(2) by simp
  from copy_into_Some [OF this] obtain bs1 where bs1: "copy_into bs (?T row) line = Some bs1"
    "length bs1 = length bs" "\<And>i. i < 4 * n \<Longrightarrow> bs1 ! (?T row + i) = line ! i"
    "\<And>k. k < length bs \<Longrightarrow> (\<And>i. i < 4 * n \<Longrightarrow> k \<noteq> ?T row + i) \<Longrightarrow> bs1 ! k = bs ! k"
    unfolding line(2) by blast
  have "\<exists>bs'. copy_rows bs1 stride sx sy x y (4 * n) rows = Some bs' \<and> length bs' = length bs1 \<and>
      (\<forall>row \<in> set rows. \<forall>i < 4 * n. bs' ! (?T row + i) = bs1 ! (?S row + i)) \<and>
      (\<forall>k < length bs1. (\<forall>row \<in> set rows. \<forall>i < 4 * n. k \<noteq> ?T row + i) \<longrightarrow> bs' ! k = bs1 ! k)"
    using Cons.IH [of bs1] Cons.prems bs1(2) by simp
  then obtain bs' where IH: "copy_rows bs1 stride sx sy x y (4 * n) rows = Some bs'" "length bs' = length bs1"
      "\<forall>row \<in> set rows. \<forall>i < 4 * n. bs' ! (?T row + i) = bs1 ! (?S row + i)"
      "\<forall>k < length bs1. (\<forall>row \<in> set rows. \<forall>i < 4 * n. k \<noteq> ?T row + i) \<longrightarrow> bs' ! k = bs1 ! k"
    by blast
  have own: "bs' ! (?T row + i) = bs ! (?S row + i)" if i: "i < 4 * n" for i
  proof -
    have "?T row + i < length bs1" using Cons.prems(5) bs1(2) i by fastforce
    moreover have "?T row + i \<noteq> ?T row' + i'" if "row' \<in> set rows" "i' < 4 * n" for row' i'
      by (rule row_start_disjoint [OF _ i Cons.prems(3) that(2) Cons.prems(3)]) (use that(1) Cons.prems(1) in auto)
    ultimately show ?thesis using IH(4) bs1(3) line(3) i by auto
  qed
  have rest: "bs' ! (?T row' + i) = bs ! (?S row' + i)" if r: "row' \<in> set rows" and i: "i < 4 * n" for row' i
  proof -
    have "?S row' + i < length bs" using Cons.prems(5) r i by fastforce
    moreover have "unat sy + row' \<noteq> unat y + row" using Cons.prems(2) r by auto
    then have "?S row' + i \<noteq> ?T row + i'" if "i' < 4 * n" for i'
      using row_start_disjoint [OF _ i Cons.prems(4) that Cons.prems(3)] by blast
    ultimately show ?thesis using IH(3) bs1(4) r i by auto
  qed
  have step: "copy_rows bs stride sx sy x y (4 * n) (row # rows) = Some bs'"
    using line(1) bs1(1) IH(1) by (simp add: copy_within_def Let_def)
  show ?case
    by (rule exI [of _ bs']) (use step IH bs1 own rest in auto)
qed

lemma read_rows_append:
  "read_rows bs stride r (rows @ [row]) out =
     (case read_rows bs stride r rows out of None \<Rightarrow> None | Some out' \<Rightarrow> read_rows bs stride r [row] out')"
  by (induction rows arbitrary: out) (auto split: option.splits simp: Let_def)

lemma read_rows_spec:
  assumes "\<forall>row < h. row_start stride (rx r) (ry r) row + unat (rwidth r) * 4 \<le> length bs"
  shows "\<exists>out. read_rows bs stride r [0..<h] [] = Some out \<and> length out = h * (unat (rwidth r) * 4) \<and>
    (\<forall>row < h. \<forall>i < unat (rwidth r) * 4.
       out ! (row * (unat (rwidth r) * 4) + i) = bs ! (row_start stride (rx r) (ry r) row + i))"
  using assms
proof (induction h)
  case 0
  then show ?case by simp
next
  case (Suc h)
  let ?n = "unat (rwidth r) * 4" and ?S = "row_start stride (rx r) (ry r)"
  from Suc obtain out where out: "read_rows bs stride r [0..<h] [] = Some out" "length out = h * ?n"
    "\<forall>row < h. \<forall>i < ?n. out ! (row * ?n + i) = bs ! (?S row + i)" by auto
  have "?S h + ?n \<le> length bs" using Suc.prems by simp
  from slice_Some [OF this] obtain line where line: "slice bs (?S h) (?S h + ?n) = Some line" "length line = ?n"
    "\<And>i. i < ?n \<Longrightarrow> line ! i = bs ! (?S h + i)" by blast
  have "read_rows bs stride r [0..<Suc h] [] = Some (out @ line)"
    using out(1) line(1) by (simp add: read_rows_append Let_def)
  moreover have "(out @ line) ! (row * ?n + i) = bs ! (?S row + i)" if "row < Suc h" "i < ?n" for row i
  proof (cases "row = h")
    case True
    then show ?thesis using out(2) line that(2) by (simp add: nth_append)
  next
    case False
    with that have "row < h" by simp
    moreover from this have "row * ?n + ?n \<le> h * ?n" using mult_le_mono1 [of "Suc row" h ?n] by simp
    with that(2) have "row * ?n + i < h * ?n" by linarith
    ultimately show ?thesis using out that(2) by (simp add: nth_append)
  qed
  ultimately show ?case using out(2) line(2) by auto
qed

section \<open>Pixels\<close>

definition frame_ok :: "DesktopFrame \<Rightarrow> bool" where
  "frame_ok f \<longleftrightarrow> frame_len (fwidth f) (fheight f) = Inr (length (rgba f))"

definition byte_at :: "DesktopFrame \<Rightarrow> nat \<Rightarrow> nat \<Rightarrow> nat \<Rightarrow> u8" where
  "byte_at f X Y c = rgba f ! (line_start (unat (fwidth f)) X Y + c)"

definition in_rect :: "DesktopRect \<Rightarrow> nat \<Rightarrow> nat \<Rightarrow> bool" where
  "in_rect r X Y \<longleftrightarrow> unat (rx r) \<le> X \<and> X < right r \<and> unat (ry r) \<le> Y \<and> Y < bottom r"

definition in_frame :: "DesktopFrame \<Rightarrow> nat \<Rightarrow> nat \<Rightarrow> nat \<Rightarrow> bool" where
  "in_frame f X Y c \<longleftrightarrow> X < unat (fwidth f) \<and> Y < unat (fheight f) \<and> c < 4"

lemma frame_ok_length: "frame_ok f \<Longrightarrow> length (rgba f) = unat (fwidth f) * unat (fheight f) * 4"
  by (auto simp: frame_ok_def frame_len_def Let_def split: if_splits)

lemma check_rect_fits:
  "frame_ok f \<Longrightarrow> check_rect f (rx r) (ry r) (rwidth r) (rheight r) =
     (if rect_fits r (fwidth f) (fheight f) then Inr () else Inl EngineProtocol)"
  by (auto simp: check_rect_def frame_ok_def rect_fits_def right_def bottom_def result_simps)

lemma row_start_pixel:
  assumes "in_rect r X Y"
  shows "row_start (fwidth f) (rx r) (ry r) (Y - unat (ry r)) + ((X - unat (rx r)) * 4 + c) =
    line_start (unat (fwidth f)) X Y + c"
  using assms by (simp add: row_start_line in_rect_def line_start_def algebra_simps)

lemma byte_at_row:
  "in_rect r X Y \<Longrightarrow> byte_at f X Y c =
     rgba f ! (row_start (fwidth f) (rx r) (ry r) (Y - unat (ry r)) + ((X - unat (rx r)) * 4 + c))"
  by (simp only: byte_at_def row_start_pixel)

lemma row_start_outside:
  assumes "\<not> in_rect r X Y" "X < unat (fwidth f)" "c < 4" "row < unat (rheight r)" "i < 4 * unat (rwidth r)"
    and "right r \<le> unat (fwidth f)"
  shows "line_start (unat (fwidth f)) X Y + c \<noteq> row_start (fwidth f) (rx r) (ry r) row + i"
proof (cases "Y = unat (ry r) + row")
  case True
  with assms(1,4) have "X < unat (rx r) \<or> right r \<le> X" by (auto simp: in_rect_def bottom_def)
  with True assms show ?thesis by (auto simp: row_start_line line_start_def right_def)
next
  case False
  with assms show ?thesis
    unfolding row_start_line
    by (intro line_start_disjoint [of _ _ _ 1 _ _ _ "unat (rwidth r)"]) (auto simp: right_def)
qed

lemma rows_in_frame:
  assumes "frame_ok f" "rect_fits r (fwidth f) (fheight f)" "row < unat (rheight r)"
  shows "row_start (fwidth f) (rx r) (ry r) row + 4 * unat (rwidth r) \<le> length (rgba f)"
  using line_end_le [of "unat (ry r) + row" "unat (fheight f)" "unat (rx r)" "unat (rwidth r)" "unat (fwidth f)"]
    assms frame_ok_length [OF assms(1)]
  by (simp add: row_start_line rect_fits_def right_def bottom_def)

lemma rect_offset:
  assumes "in_rect r X Y" "c < 4"
  shows "Y - unat (ry r) < unat (rheight r)" "(X - unat (rx r)) * 4 + c < 4 * unat (rwidth r)"
  using assms by (auto simp: in_rect_def right_def bottom_def)

lemma write_rect_spec:
  assumes ok: "frame_ok f" and fits: "rect_fits r (fwidth f) (fheight f)"
    and len: "length src = unat (rwidth r) * 4 * unat (rheight r)"
  shows "\<exists>f'. write_rect f (rx r) (ry r) (rwidth r) (rheight r) src = Inr f' \<and> frame_ok f' \<and>
    fwidth f' = fwidth f \<and> fheight f' = fheight f \<and>
    (\<forall>X Y c. in_frame f X Y c \<longrightarrow> byte_at f' X Y c =
       (if in_rect r X Y then src ! ((Y - unat (ry r)) * (4 * unat (rwidth r)) + ((X - unat (rx r)) * 4 + c))
        else byte_at f X Y c))"
proof -
  let ?n = "unat (rwidth r)" and ?rows = "[0..<unat (rheight r)]" and ?T = "row_start (fwidth f) (rx r) (ry r)"
  have "(row + 1) * (4 * ?n) \<le> length src" if "row < unat (rheight r)" for row
    using mult_le_mono1 [of "row + 1" "unat (rheight r)" "4 * ?n"] that len by (simp add: mult.commute mult.left_commute)
  with rows_in_frame [OF ok fits]
  have "\<exists>bs'. write_rows (rgba f) (fwidth f) (rx r) (ry r) (4 * ?n) src ?rows = Some bs' \<and>
      length bs' = length (rgba f) \<and>
      (\<forall>row \<in> set ?rows. \<forall>i < 4 * ?n. bs' ! (?T row + i) = src ! (row * (4 * ?n) + i)) \<and>
      (\<forall>k < length (rgba f). (\<forall>row \<in> set ?rows. \<forall>i < 4 * ?n. k \<noteq> ?T row + i) \<longrightarrow> bs' ! k = rgba f ! k)"
    using fits by (intro write_rows_spec) (auto simp: rect_fits_def right_def)
  then obtain bs' where w: "write_rows (rgba f) (fwidth f) (rx r) (ry r) (4 * ?n) src ?rows = Some bs'"
      "length bs' = length (rgba f)"
      "\<forall>row < unat (rheight r). \<forall>i < 4 * ?n. bs' ! (?T row + i) = src ! (row * (4 * ?n) + i)"
      "\<forall>k < length (rgba f). (\<forall>row < unat (rheight r). \<forall>i < 4 * ?n. k \<noteq> ?T row + i) \<longrightarrow> bs' ! k = rgba f ! k"
    by auto
  let ?f = "f\<lparr>rgba := bs'\<rparr>"
  have "write_rect f (rx r) (ry r) (rwidth r) (rheight r) src = Inr ?f"
    using w(1) len fits ok by (simp add: write_rect_def check_rect_fits mult.commute)
  moreover have "frame_ok ?f" using ok w(2) by (simp add: frame_ok_def)
  moreover have "byte_at ?f X Y c = (if in_rect r X Y
      then src ! ((Y - unat (ry r)) * (4 * ?n) + ((X - unat (rx r)) * 4 + c)) else byte_at f X Y c)"
    if fr: "in_frame f X Y c" for X Y c
  proof (cases "in_rect r X Y")
    case True
    then show ?thesis
      using w(3) rect_offset [OF True, of c] byte_at_row [OF True, of ?f c] fr by (simp add: in_frame_def)
  next
    case False
    have "line_start (unat (fwidth f)) X Y + c < length (rgba f)"
      using line_end_le [of Y "unat (fheight f)" X 1 "unat (fwidth f)"] fr frame_ok_length [OF ok]
      by (simp add: in_frame_def)
    then show ?thesis
      using w(4) row_start_outside [OF False, of f c] fr fits False
      by (simp add: byte_at_def in_frame_def rect_fits_def)
  qed
  ultimately show ?thesis by auto
qed

lemma read_rect_spec:
  assumes ok: "frame_ok f" and fits: "rect_fits r (fwidth f) (fheight f)"
  shows "\<exists>out. read_rect (rgba f) (fwidth f) r = Some out \<and> length out = unat (rwidth r) * 4 * unat (rheight r) \<and>
    (\<forall>X Y c. in_rect r X Y \<longrightarrow> c < 4 \<longrightarrow>
       out ! ((Y - unat (ry r)) * (4 * unat (rwidth r)) + ((X - unat (rx r)) * 4 + c)) = byte_at f X Y c)"
proof -
  let ?n = "unat (rwidth r) * 4"
  from read_rows_spec [of "unat (rheight r)" "fwidth f" r "rgba f"] rows_in_frame [OF ok fits]
  obtain out where out: "read_rect (rgba f) (fwidth f) r = Some out" "length out = unat (rheight r) * ?n"
    "\<forall>row < unat (rheight r). \<forall>i < ?n. out ! (row * ?n + i) = rgba f ! (row_start (fwidth f) (rx r) (ry r) row + i)"
    by (auto simp: read_rect_def mult.commute)
  have "out ! ((Y - unat (ry r)) * (4 * unat (rwidth r)) + ((X - unat (rx r)) * 4 + c)) = byte_at f X Y c"
    if "in_rect r X Y" "c < 4" for X Y c
    using out(3) rect_offset [OF that] byte_at_row [OF that(1), of f c] by (simp add: mult.commute)
  with out show ?thesis by (auto simp: mult.commute)
qed

lemma copy_order_safe:
  "sorted_wrt (\<lambda>done later. unat y + done \<noteq> unat sy + later)
     (if y > sy then rev [0..<n] else [0..<n])" for y sy :: u16
proof -
  have asc: "sorted_wrt (<) [0..<n]" by simp
  show ?thesis
  proof (cases "y > sy")
    case True
    then have "sorted_wrt (\<lambda>done later. unat y + done \<noteq> unat sy + later) (rev [0..<n])"
      unfolding sorted_wrt_rev by (intro sorted_wrt_mono_rel [OF _ asc]) (auto simp: word_less_nat_alt)
    with True show ?thesis by simp
  next
    case False
    then have "sorted_wrt (\<lambda>done later. unat y + done \<noteq> unat sy + later) [0..<n]"
      by (intro sorted_wrt_mono_rel [OF _ asc]) (auto simp: word_less_nat_alt)
    with False show ?thesis by simp
  qed
qed

lemma copy_rect_spec:
  assumes ok: "frame_ok f" and fits: "rect_fits s (fwidth f) (fheight f)" "rect_fits r (fwidth f) (fheight f)"
    and same: "rwidth s = rwidth r" "rheight s = rheight r"
  shows "\<exists>f'. copy_rect f (rx s) (ry s) (rx r) (ry r) (rwidth r) (rheight r) = Inr f' \<and> frame_ok f' \<and>
    fwidth f' = fwidth f \<and> fheight f' = fheight f \<and>
    (\<forall>X Y c. in_frame f X Y c \<longrightarrow> byte_at f' X Y c =
       (if in_rect r X Y then byte_at f (X - unat (rx r) + unat (rx s)) (Y - unat (ry r) + unat (ry s)) c
        else byte_at f X Y c))"
proof -
  let ?n = "unat (rwidth r)" and ?T = "row_start (fwidth f) (rx r) (ry r)" and ?S = "row_start (fwidth f) (rx s) (ry s)"
  let ?rows = "if ry r > ry s then rev [0..<unat (rheight r)] else [0..<unat (rheight r)]"
  have set: "set ?rows = {..<unat (rheight r)}" by auto
  have "\<exists>bs'. copy_rows (rgba f) (fwidth f) (rx s) (ry s) (rx r) (ry r) (4 * ?n) ?rows = Some bs' \<and>
      length bs' = length (rgba f) \<and>
      (\<forall>row \<in> set ?rows. \<forall>i < 4 * ?n. bs' ! (?T row + i) = rgba f ! (?S row + i)) \<and>
      (\<forall>k < length (rgba f). (\<forall>row \<in> set ?rows. \<forall>i < 4 * ?n. k \<noteq> ?T row + i) \<longrightarrow> bs' ! k = rgba f ! k)"
    using fits same rows_in_frame [OF ok fits(1)] rows_in_frame [OF ok fits(2)]
    by (intro copy_rows_spec copy_order_safe) (auto simp: rect_fits_def right_def)
  then obtain bs' where w: "copy_rows (rgba f) (fwidth f) (rx s) (ry s) (rx r) (ry r) (4 * ?n) ?rows = Some bs'"
      "length bs' = length (rgba f)"
      "\<forall>row < unat (rheight r). \<forall>i < 4 * ?n. bs' ! (?T row + i) = rgba f ! (?S row + i)"
      "\<forall>k < length (rgba f). (\<forall>row < unat (rheight r). \<forall>i < 4 * ?n. k \<noteq> ?T row + i) \<longrightarrow> bs' ! k = rgba f ! k"
    unfolding set by auto
  let ?f = "f\<lparr>rgba := bs'\<rparr>"
  have "copy_rect f (rx s) (ry s) (rx r) (ry r) (rwidth r) (rheight r) = Inr ?f"
    using w(1) fits ok check_rect_fits [OF ok, of s] check_rect_fits [OF ok, of r] same
    by (simp add: copy_rect_def seq_checks.simps(2) Let_def mult.commute)
  moreover have "frame_ok ?f" using ok w(2) by (simp add: frame_ok_def)
  moreover have "byte_at ?f X Y c = (if in_rect r X Y
      then byte_at f (X - unat (rx r) + unat (rx s)) (Y - unat (ry r) + unat (ry s)) c else byte_at f X Y c)"
    if fr: "in_frame f X Y c" for X Y c
  proof (cases "in_rect r X Y")
    case True
    let ?X = "X - unat (rx r) + unat (rx s)" and ?Y = "Y - unat (ry r) + unat (ry s)"
    have s: "in_rect s ?X ?Y" using True same by (auto simp: in_rect_def right_def bottom_def)
    have "bs' ! (?T (Y - unat (ry r)) + ((X - unat (rx r)) * 4 + c)) =
        rgba f ! (?S (Y - unat (ry r)) + ((X - unat (rx r)) * 4 + c))"
      using w(3) rect_offset [OF True, of c] fr by (simp add: in_frame_def)
    then show ?thesis
      using byte_at_row [OF True, of ?f c] byte_at_row [OF s, of f c] True by simp
  next
    case False
    have "line_start (unat (fwidth f)) X Y + c < length (rgba f)"
      using line_end_le [of Y "unat (fheight f)" X 1 "unat (fwidth f)"] fr frame_ok_length [OF ok]
      by (simp add: in_frame_def)
    then show ?thesis
      using w(4) row_start_outside [OF False, of f c] fr fits False
      by (simp add: byte_at_def in_frame_def rect_fits_def)
  qed
  ultimately show ?thesis by auto
qed

lemma write_rect_error:
  assumes "frame_ok f"
    and "\<not> rect_fits r (fwidth f) (fheight f) \<or> length src \<noteq> unat (rwidth r) * 4 * unat (rheight r)"
  shows "write_rect f (rx r) (ry r) (rwidth r) (rheight r) src = Inl (Err EngineProtocol)"
  using assms by (simp add: write_rect_def check_rect_fits)

lemma frame_eqI:
  assumes "frame_ok f" "frame_ok g" "fwidth g = fwidth f" "fheight g = fheight f"
    and pix: "\<And>X Y c. in_frame f X Y c \<Longrightarrow> byte_at g X Y c = byte_at f X Y c"
  shows "rgba g = rgba f"
proof (rule nth_equalityI)
  let ?W = "unat (fwidth f)" and ?H = "unat (fheight f)"
  have len: "length (rgba f) = ?W * ?H * 4" "length (rgba g) = ?W * ?H * 4"
    using frame_ok_length assms by auto
  then show "length (rgba g) = length (rgba f)" by simp
  fix k assume "k < length (rgba g)"
  with len have k: "k div 4 < ?W * ?H" by (simp add: less_mult_imp_div_less)
  then have W: "0 < ?W" by (cases ?W) auto
  define X Y where "X = k div 4 mod ?W" and "Y = k div 4 div ?W"
  have "X < ?W" "Y < ?H"
    using W k by (auto simp: X_def Y_def less_mult_imp_div_less mult.commute)
  then have fr: "in_frame f X Y (k mod 4)" by (simp add: in_frame_def)
  have "line_start ?W X Y + k mod 4 = k"
    unfolding line_start_def X_def Y_def by (simp only: div_mult_mod_eq)
  with pix [OF fr] assms(3) show "rgba g ! k = rgba f ! k" by (simp add: byte_at_def)
qed

lemma in_rect_frame: "in_frame f X Y c \<Longrightarrow> c < 4"
  by (simp add: in_frame_def)

section \<open>Patches\<close>

definition in_region :: "DesktopRect list \<Rightarrow> nat \<Rightarrow> nat \<Rightarrow> bool" where
  "in_region rs X Y \<longleftrightarrow> (\<exists>r \<in> set rs. in_rect r X Y)"

lemma extract_rects_spec:
  assumes ok: "frame_ok f" and fits: "region_fits rs (fwidth f) (fheight f)"
  shows "\<exists>ps. extract_rects f rs = Inr ps \<and> map fst ps = rs \<and>
    (\<forall>(r, bs) \<in> set ps. read_rect (rgba f) (fwidth f) r = Some bs)"
  using fits
proof (induction rs)
  case Nil
  then show ?case by simp
next
  case (Cons r rs)
  then obtain ps where ps: "extract_rects f rs = Inr ps" "map fst ps = rs"
    "\<forall>(r, bs) \<in> set ps. read_rect (rgba f) (fwidth f) r = Some bs" by (auto simp: region_fits_def)
  have r: "rect_fits r (fwidth f) (fheight f)" using Cons.prems by (simp add: region_fits_def)
  from read_rect_spec [OF ok r] obtain bs where "read_rect (rgba f) (fwidth f) r = Some bs" by blast
  with ps r show ?case by (intro exI [of _ "(r, bs) # ps"]) (simp add: check_rect_fits [OF ok])
qed

lemma apply_rects_spec:
  assumes "frame_ok src" "frame_ok f" "fwidth f = fwidth src" "fheight f = fheight src"
    and "region_fits (map fst ps) (fwidth src) (fheight src)"
    and "\<forall>(r, bs) \<in> set ps. read_rect (rgba src) (fwidth src) r = Some bs"
  shows "\<exists>f'. apply_rects f ps = (Inr (), f') \<and> frame_ok f' \<and> fwidth f' = fwidth src \<and> fheight f' = fheight src \<and>
    (\<forall>X Y c. in_frame src X Y c \<longrightarrow> byte_at f' X Y c =
       (if in_region (map fst ps) X Y then byte_at src X Y c else byte_at f X Y c))"
  using assms
proof (induction ps arbitrary: f)
  case Nil
  then show ?case by (simp add: in_region_def)
next
  case (Cons p ps)
  obtain r bs where p: "p = (r, bs)" by force
  have r: "rect_fits r (fwidth src) (fheight src)" using Cons.prems(5) p by (simp add: region_fits_def)
  from read_rect_spec [OF Cons.prems(1) r] Cons.prems(6) p
  have bs: "length bs = unat (rwidth r) * 4 * unat (rheight r)"
    "\<forall>X Y c. in_rect r X Y \<longrightarrow> c < 4 \<longrightarrow>
       bs ! ((Y - unat (ry r)) * (4 * unat (rwidth r)) + ((X - unat (rx r)) * 4 + c)) = byte_at src X Y c" by auto
  from write_rect_spec [OF Cons.prems(2) _ bs(1)] r Cons.prems(3,4)
  obtain f1 where f1: "write_rect f (rx r) (ry r) (rwidth r) (rheight r) bs = Inr f1" "frame_ok f1"
    "fwidth f1 = fwidth src" "fheight f1 = fheight src"
    "\<forall>X Y c. in_frame src X Y c \<longrightarrow> byte_at f1 X Y c = (if in_rect r X Y
       then bs ! ((Y - unat (ry r)) * (4 * unat (rwidth r)) + ((X - unat (rx r)) * 4 + c)) else byte_at f X Y c)"
    by (auto simp: in_frame_def)
  have "region_fits (map fst ps) (fwidth src) (fheight src)" using Cons.prems(5) by (simp add: region_fits_def)
  with Cons.IH [OF Cons.prems(1) f1(2-4)] Cons.prems(6) obtain f' where f': "apply_rects f1 ps = (Inr (), f')"
    "frame_ok f'" "fwidth f' = fwidth src" "fheight f' = fheight src"
    "\<forall>X Y c. in_frame src X Y c \<longrightarrow> byte_at f' X Y c =
       (if in_region (map fst ps) X Y then byte_at src X Y c else byte_at f1 X Y c)" by auto
  have "byte_at f' X Y c = (if in_region (map fst (p # ps)) X Y then byte_at src X Y c else byte_at f X Y c)"
    if fr: "in_frame src X Y c" for X Y c
    using f'(5) f1(5) bs(2) fr in_rect_frame [OF fr] p by (auto simp: in_region_def)
  with f' f1(1) p show ?case by auto
qed

section \<open>Properties\<close>

text \<open>
  (C37) On a well-formed frame \<open>write_rect\<close> changes exactly the bytes of the rectangle, each to the
  byte the packed rows hold for it, keeps the frame well-formed, and reading the rectangle back
  gives the rows that were written. A rectangle that is empty or leaves the frame, or rows of the
  wrong length, are rejected with \<open>Protocol\<close>; no input makes it index out of bounds.
\<close>

theorem write_rect_correct:
  assumes "frame_ok f"
  shows "if rect_fits r (fwidth f) (fheight f) \<and> length src = unat (rwidth r) * 4 * unat (rheight r)
    then (\<exists>f'. write_rect f (rx r) (ry r) (rwidth r) (rheight r) src = Inr f' \<and> frame_ok f' \<and>
      read_rect (rgba f') (fwidth f') r = Some src \<and>
      (\<forall>X Y c. in_frame f X Y c \<longrightarrow> byte_at f' X Y c =
        (if in_rect r X Y then src ! ((Y - unat (ry r)) * (4 * unat (rwidth r)) + ((X - unat (rx r)) * 4 + c))
         else byte_at f X Y c)))
    else write_rect f (rx r) (ry r) (rwidth r) (rheight r) src = Inl (Err EngineProtocol)"
proof (cases "rect_fits r (fwidth f) (fheight f) \<and> length src = unat (rwidth r) * 4 * unat (rheight r)")
  case True
  then obtain f' where f': "write_rect f (rx r) (ry r) (rwidth r) (rheight r) src = Inr f'" "frame_ok f'"
    "fwidth f' = fwidth f" "fheight f' = fheight f"
    "\<forall>X Y c. in_frame f X Y c \<longrightarrow> byte_at f' X Y c =
       (if in_rect r X Y then src ! ((Y - unat (ry r)) * (4 * unat (rwidth r)) + ((X - unat (rx r)) * 4 + c))
        else byte_at f X Y c)"
    using write_rect_spec [OF assms] by blast
  from True f' read_rect_spec [OF f'(2), of r] obtain out where out: "read_rect (rgba f') (fwidth f') r = Some out"
    "length out = length src"
    "\<forall>X Y c. in_rect r X Y \<longrightarrow> c < 4 \<longrightarrow>
       out ! ((Y - unat (ry r)) * (4 * unat (rwidth r)) + ((X - unat (rx r)) * 4 + c)) = byte_at f' X Y c" by auto
  have "out = src"
  proof (rule nth_equalityI [OF out(2)])
    fix k assume k: "k < length out"
    let ?n = "unat (rwidth r)"
    define Y X c where "Y = unat (ry r) + k div (4 * ?n)" and "X = unat (rx r) + (k mod (4 * ?n)) div 4" and "c = k mod 4"
    from k out(2) True have lt: "k < unat (rheight r) * (4 * ?n)" by (simp add: mult.commute mult.left_commute)
    then have n: "0 < ?n" by (cases "?n = 0") auto
    have "k div (4 * ?n) < unat (rheight r)" using lt n by (simp add: less_mult_imp_div_less)
    moreover have "(k mod (4 * ?n)) div 4 < ?n" using n by (simp add: less_mult_imp_div_less mult.commute)
    ultimately have inr: "in_rect r X Y" "c < 4" by (auto simp: in_rect_def X_def Y_def c_def right_def bottom_def)
    have "c = (k mod (4 * ?n)) mod 4" by (simp add: c_def mod_mod_cancel)
    then have idx: "(Y - unat (ry r)) * (4 * ?n) + ((X - unat (rx r)) * 4 + c) = k"
      by (simp only: X_def Y_def diff_add_inverse div_mult_mod_eq)
    have "in_frame f X Y c" using inr True by (auto simp: in_rect_def in_frame_def rect_fits_def)
    with f'(5) out(3) inr idx show "out ! k = src ! k" by metis
  qed
  with out f' True show ?thesis by auto
next
  case False
  with write_rect_error [OF assms, of r src] show ?thesis by auto
qed

theorem write_rect_correct_witness:
  "\<exists>f. write_rect \<lparr>fwidth = 2, fheight = 2, rgba = replicate 16 0\<rparr> 1 0 1 2 [1, 2, 3, 4, 5, 6, 7, 8] = Inr f \<and>
     read_rect (rgba f) (fwidth f) \<lparr>rx = 1, ry = 0, rwidth = 1, rheight = 2\<rparr> = Some [1, 2, 3, 4, 5, 6, 7, 8] \<and>
     byte_at f 0 1 2 = 0"
proof -
  let ?f = "\<lparr>fwidth = 2, fheight = 2, rgba = replicate 16 0\<rparr>"
  let ?r = "\<lparr>rx = 1, ry = 0, rwidth = 1, rheight = 2\<rparr>"
  have ok: "frame_ok ?f" by code_simp
  have fit: "rect_fits ?r (fwidth ?f) (fheight ?f)" by code_simp
  have out: "in_frame ?f 0 1 2 \<and> \<not> in_rect ?r 0 1 \<and> byte_at ?f 0 1 2 = 0" by code_simp
  from write_rect_correct [OF ok, of ?r "[1, 2, 3, 4, 5, 6, 7, 8]"] fit out show ?thesis by auto
qed

text \<open>
  (C21) \<open>copy_rect\<close> moves the pixels as if the source had been read in full before anything was
  written, also when source and destination overlap in rows or columns: each byte of the
  destination is the old byte at the corresponding source position, and nothing else changes.
\<close>

theorem copy_rect_simultaneous:
  assumes "frame_ok f" "rect_fits s (fwidth f) (fheight f)" "rect_fits r (fwidth f) (fheight f)"
    and "rwidth s = rwidth r" "rheight s = rheight r"
  shows "\<exists>f'. copy_rect f (rx s) (ry s) (rx r) (ry r) (rwidth r) (rheight r) = Inr f' \<and> frame_ok f' \<and>
    (\<forall>X Y c. in_frame f X Y c \<longrightarrow> byte_at f' X Y c =
       (if in_rect r X Y then byte_at f (X - unat (rx r) + unat (rx s)) (Y - unat (ry r) + unat (ry s)) c
        else byte_at f X Y c))"
  using copy_rect_spec [OF assms] by blast

theorem copy_rect_simultaneous_witness:
  "\<exists>f'. copy_rect \<lparr>fwidth = 1, fheight = 3, rgba = [1, 1, 1, 255, 2, 2, 2, 255, 3, 3, 3, 255]\<rparr> 0 0 0 1 1 2 = Inr f' \<and>
     byte_at f' 0 2 0 = 2 \<and> byte_at f' 0 0 0 = 1"
proof -
  let ?f = "\<lparr>fwidth = 1, fheight = 3, rgba = [1, 1, 1, 255, 2, 2, 2, 255, 3, 3, 3, 255]\<rparr>"
  let ?s = "\<lparr>rx = 0, ry = 0, rwidth = 1, rheight = 2\<rparr>" and ?r = "\<lparr>rx = 0, ry = 1, rwidth = 1, rheight = 2\<rparr>"
  have ok: "frame_ok ?f" by code_simp
  have fit: "rect_fits ?s (fwidth ?f) (fheight ?f)" "rect_fits ?r (fwidth ?f) (fheight ?f)" by code_simp+
  have p: "in_frame ?f 0 2 0 \<and> in_rect ?r 0 2 \<and> byte_at ?f 0 1 0 = 2" "in_frame ?f 0 0 0 \<and> \<not> in_rect ?r 0 0 \<and> byte_at ?f 0 0 0 = 1"
    by code_simp+
  from copy_rect_simultaneous [OF ok fit] obtain f' where
    c: "copy_rect ?f (rx ?s) (ry ?s) (rx ?r) (ry ?r) (rwidth ?r) (rheight ?r) = Inr f'"
    and b: "\<forall>X Y c. in_frame ?f X Y c \<longrightarrow> byte_at f' X Y c =
       (if in_rect ?r X Y then byte_at ?f (X - unat (rx ?r) + unat (rx ?s)) (Y - unat (ry ?r) + unat (ry ?s)) c
        else byte_at ?f X Y c)" by auto
  have "byte_at f' 0 2 0 = 2" "byte_at f' 0 0 0 = 1" using b [rule_format, of 0 2 0] b [rule_format, of 0 0 0] p by auto
  with c show ?thesis by auto
qed

text \<open>
  (C22) Patches transport a frame: extracting a region that lies in a well-formed frame succeeds,
  applying the patch to any well-formed frame of the same size succeeds, copies exactly the pixels
  of the region, and makes the two frames equal when they agreed outside the region.
\<close>

theorem patch_reconstructs_frame:
  assumes "frame_ok src" "frame_ok f" "fwidth f = fwidth src" "fheight f = fheight src"
    and "region_fits region (fwidth src) (fheight src)"
  shows "\<exists>p f'. extract_patch src region = Inr p \<and> apply_patch f p = (Inr (), f') \<and> frame_ok f' \<and>
    (\<forall>X Y c. in_frame src X Y c \<longrightarrow> byte_at f' X Y c =
       (if in_region region X Y then byte_at src X Y c else byte_at f X Y c)) \<and>
    ((\<forall>X Y c. in_frame src X Y c \<longrightarrow> \<not> in_region region X Y \<longrightarrow> byte_at f X Y c = byte_at src X Y c) \<longrightarrow>
       rgba f' = rgba src)"
proof -
  from extract_rects_spec [OF assms(1,5)] obtain ps where ps: "extract_rects src region = Inr ps"
    "map fst ps = region" "\<forall>(r, bs) \<in> set ps. read_rect (rgba src) (fwidth src) r = Some bs" by blast
  from apply_rects_spec [OF assms(1-4) _ ps(3)] assms(5) ps(2) obtain f' where f': "apply_rects f ps = (Inr (), f')"
    "frame_ok f'" "fwidth f' = fwidth src" "fheight f' = fheight src"
    "\<forall>X Y c. in_frame src X Y c \<longrightarrow> byte_at f' X Y c =
       (if in_region region X Y then byte_at src X Y c else byte_at f X Y c)" by auto
  let ?p = "\<lparr>pwidth = fwidth src, pheight = fheight src, prects = ps\<rparr>"
  have "extract_patch src region = Inr ?p" using ps(1) by (simp add: extract_patch_def)
  moreover have "apply_patch f ?p = (Inr (), f')" using f'(1) assms(3,4) by (simp add: apply_patch_def)
  moreover have "rgba f' = rgba src"
    if "\<forall>X Y c. in_frame src X Y c \<longrightarrow> \<not> in_region region X Y \<longrightarrow> byte_at f X Y c = byte_at src X Y c"
    using frame_eqI [OF assms(1) f'(2-4)] f'(5) that by auto
  ultimately show ?thesis using f'(2,5) by auto
qed

theorem patch_reconstructs_frame_witness:
  "\<exists>p f'. extract_patch \<lparr>fwidth = 2, fheight = 1, rgba = [1, 2, 3, 4, 5, 6, 7, 8]\<rparr>
        [\<lparr>rx = 1, ry = 0, rwidth = 1, rheight = 1\<rparr>] = Inr p \<and>
     apply_patch \<lparr>fwidth = 2, fheight = 1, rgba = [9, 9, 9, 9, 0, 0, 0, 0]\<rparr> p = (Inr (), f') \<and>
     byte_at f' 1 0 3 = 8"
proof -
  let ?s = "\<lparr>fwidth = 2, fheight = 1, rgba = [1, 2, 3, 4, 5, 6, 7, 8]\<rparr> :: DesktopFrame"
  let ?f = "\<lparr>fwidth = 2, fheight = 1, rgba = [9, 9, 9, 9, 0, 0, 0, 0]\<rparr> :: DesktopFrame"
  let ?r = "[\<lparr>rx = 1, ry = 0, rwidth = 1, rheight = 1\<rparr>] :: DesktopRect list"
  have h: "frame_ok ?s" "frame_ok ?f" "region_fits ?r (fwidth ?s) (fheight ?s)"
    "in_frame ?s 1 0 3 \<and> in_region ?r 1 0 \<and> byte_at ?s 1 0 3 = 8" by code_simp+
  from patch_reconstructs_frame [OF h(1,2) _ _ h(3)] obtain p f' where "extract_patch ?s ?r = Inr p"
    "apply_patch ?f p = (Inr (), f')"
    "\<forall>X Y c. in_frame ?s X Y c \<longrightarrow> byte_at f' X Y c =
       (if in_region ?r X Y then byte_at ?s X Y c else byte_at ?f X Y c)" by auto
  with h(4) show ?thesis by metis
qed



end
