(* ===== verification/BTree.thy ===== *)
theory BTree
  imports Prelude "HOL-Library.Product_Lexorder" "HOL-Library.List_Lexorder"
begin

text \<open>
  The ordered map of the standard library, \<open>BTreeMap\<close>, as the strictly increasing list of its
  entries, with the interface its clients rely on as a locale. A \<open>BTreeSet\<close> that is only iterated
  is the strictly increasing list of its elements; one that is used for membership is a set, and
  its iteration order is \<open>sorted_list_of_set\<close>.
\<close>

section \<open>The interface\<close>

locale ordered_map =
  fixes empty :: 'm
    and insert :: "'k::linorder \<Rightarrow> 'v \<Rightarrow> 'm \<Rightarrow> 'm"
    and lookup :: "'m \<Rightarrow> 'k \<Rightarrow> 'v option"
    and entries :: "'m \<Rightarrow> ('k \<times> 'v) list"
    and invar :: "'m \<Rightarrow> bool"
  assumes invar_empty: "invar empty"
    and lookup_empty: "lookup empty k = None"
    and invar_insert: "invar m \<Longrightarrow> invar (insert k v m)"
    and lookup_insert: "invar m \<Longrightarrow> lookup (insert k v m) = (lookup m)(k \<mapsto> v)"
    and entries_lookup: "invar m \<Longrightarrow> (k, v) \<in> set (entries m) \<longleftrightarrow> lookup m k = Some v"
    and entries_sorted: "invar m \<Longrightarrow> sorted_wrt (<) (map fst (entries m))"
begin

text \<open>\<open>entry(k).and_modify(|old| *old = f(old, v)).or_insert(v)\<close>\<close>

definition entry_with :: "('v \<Rightarrow> 'v \<Rightarrow> 'v) \<Rightarrow> 'k \<Rightarrow> 'v \<Rightarrow> 'm \<Rightarrow> 'm" where
  "entry_with f k v m = insert k (case lookup m k of None \<Rightarrow> v | Some old \<Rightarrow> f old v) m"

lemma invar_entry_with: "invar m \<Longrightarrow> invar (entry_with f k v m)"
  by (simp add: entry_with_def invar_insert)

lemma lookup_entry_with:
  "invar m \<Longrightarrow> lookup (entry_with f k v m) =
     (lookup m)(k \<mapsto> (case lookup m k of None \<Rightarrow> v | Some old \<Rightarrow> f old v))"
  by (simp add: entry_with_def lookup_insert)

lemma invar_entry_fold: "invar m \<Longrightarrow> invar (fold (\<lambda>(k, v). entry_with f k v) xs m)"
  by (induction xs arbitrary: m) (auto simp: invar_entry_with)

lemma keys_entry_fold:
  "invar m \<Longrightarrow> dom (lookup (fold (\<lambda>(k, v). entry_with f k v) xs m)) = dom (lookup m) \<union> fst ` set xs"
proof (induction xs arbitrary: m)
  case (Cons x xs)
  obtain k v where x: "x = (k, v)" by force
  from Cons.IH [OF invar_entry_with [OF Cons.prems], of f k v]
  have "dom (lookup (fold (\<lambda>(k, v). entry_with f k v) (x # xs) m)) =
      dom (lookup (entry_with f k v m)) \<union> fst ` set xs" by (simp add: x)
  with Cons.prems x show ?case by (auto simp: lookup_entry_with)
qed simp

text \<open>A selective combination returns one of the values that were entered for the key.\<close>

lemma value_entry_fold:
  assumes sel: "\<And>a b. f a b = a \<or> f a b = b" and "invar m"
    and "lookup (fold (\<lambda>(k, v). entry_with f k v) xs m) k = Some v"
  shows "lookup m k = Some v \<or> (k, v) \<in> set xs"
  using assms(2,3)
proof (induction xs arbitrary: m)
  case (Cons x xs)
  obtain k' v' where x: "x = (k', v')" by force
  from Cons.IH [of "entry_with f k' v' m"] Cons.prems x
  have "lookup (entry_with f k' v' m) k = Some v \<or> (k, v) \<in> set xs"
    by (simp add: invar_entry_with)
  then show ?case
    using sel [of "the (lookup m k')" v'] Cons.prems(1) x
    by (auto simp: lookup_entry_with split: if_splits option.splits)
qed simp

lemma upper_entry_fold:
  fixes le :: "'v \<Rightarrow> 'v \<Rightarrow> bool"
  assumes f: "\<And>a b. le a (f a b) \<and> le b (f a b)" and refl: "\<And>a. le a a"
    and trans: "\<And>a b c. le a b \<Longrightarrow> le b c \<Longrightarrow> le a c" and "invar m"
    and "lookup m k = Some v \<or> (k, v) \<in> set xs"
  shows "\<exists>w. lookup (fold (\<lambda>(k, v). entry_with f k v) xs m) k = Some w \<and> le v w"
  using assms(4,5)
proof (induction xs arbitrary: m v)
  case Nil
  then show ?case using refl by auto
next
  case (Cons x xs)
  obtain k' v' where x: "x = (k', v')" by force
  let ?m = "entry_with f k' v' m"
  have inv: "invar ?m" using Cons.prems(1) by (rule invar_entry_with)
  show ?case
  proof (cases "(k, v) \<in> set xs \<or> lookup ?m k = Some v")
    case True
    with Cons.IH [OF inv, of v] x show ?thesis by auto
  next
    case False
    with Cons.prems x have eq: "k' = k" "lookup m k = Some v \<or> v' = v"
      by (auto simp: lookup_entry_with split: if_splits)
    then obtain w where w: "lookup ?m k = Some w" "le v w"
      using f refl Cons.prems(1) by (cases "lookup m k") (auto simp: lookup_entry_with)
    from Cons.IH [OF inv, of w] w(1) obtain w' where
      "lookup (fold (\<lambda>(k, v). entry_with f k v) xs ?m) k = Some w'" "le w w'" by blast
    with trans [OF w(2)] x show ?thesis by auto
  qed
qed

end

section \<open>Strictly increasing association lists\<close>

fun btree_insert :: "'k::linorder \<Rightarrow> 'v \<Rightarrow> ('k \<times> 'v) list \<Rightarrow> ('k \<times> 'v) list" where
  "btree_insert k v [] = [(k, v)]"
| "btree_insert k v ((k', v') # xs) =
     (if k < k' then (k, v) # (k', v') # xs
      else if k = k' then (k, v) # xs
      else (k', v') # btree_insert k v xs)"

definition btree_ok :: "('k::linorder \<times> 'v) list \<Rightarrow> bool" where
  "btree_ok xs \<longleftrightarrow> sorted_wrt (<) (map fst xs)"

definition btree_keys :: "('k \<times> 'v) list \<Rightarrow> 'k list" where
  "btree_keys xs = map fst xs"

lemma set_btree_insert: "fst ` set (btree_insert k v xs) = Set.insert k (fst ` set xs)"
proof (induction xs)
  case (Cons x xs)
  then show ?case by (cases x) (simp add: insert_commute)
qed simp

lemma btree_insert_ok: "btree_ok xs \<Longrightarrow> btree_ok (btree_insert k v xs)"
proof (induction xs)
  case (Cons x xs)
  obtain k' v' where x: "x = (k', v')" by force
  have "\<forall>y \<in> fst ` set (btree_insert k v xs). y = k \<or> y \<in> fst ` set xs"
    using set_btree_insert [of k v xs] by blast
  with Cons x show ?case by (fastforce simp: btree_ok_def)
qed (simp add: btree_ok_def)

lemma map_of_btree_insert: "btree_ok xs \<Longrightarrow> map_of (btree_insert k v xs) = (map_of xs)(k \<mapsto> v)"
proof (induction xs)
  case (Cons x xs)
  obtain k' v' where x: "x = (k', v')" by force
  from Cons.prems have "btree_ok xs" by (simp add: btree_ok_def)
  with Cons x show ?case by (auto simp: fun_eq_iff)
qed simp

lemma btree_ok_distinct: "btree_ok xs \<Longrightarrow> distinct (map fst xs)"
  by (simp add: btree_ok_def strict_sorted_iff)

interpretation btree: ordered_map "[]" btree_insert map_of "\<lambda>xs. xs" btree_ok
proof
  fix k :: 'a and v :: 'b and m :: "('a \<times> 'b) list"
  show "btree_ok []" by (simp add: btree_ok_def)
  show "map_of [] k = None" by simp
  show "btree_ok m \<Longrightarrow> btree_ok (btree_insert k v m)" by (rule btree_insert_ok)
  show "btree_ok m \<Longrightarrow> map_of (btree_insert k v m) = (map_of m)(k \<mapsto> v)" by (rule map_of_btree_insert)
  show "btree_ok m \<Longrightarrow> (k, v) \<in> set m \<longleftrightarrow> map_of m k = Some v"
    using btree_ok_distinct [of m] by simp
  show "btree_ok m \<Longrightarrow> sorted_wrt (<) (map fst m)" by (simp add: btree_ok_def)
qed

text \<open>Two maps with the same lookups are the same list of entries.\<close>

lemma btree_eqI:
  assumes "btree_ok xs" "btree_ok ys" "map_of xs = map_of ys"
  shows "xs = ys"
proof -
  have d: "distinct (map fst xs)" "distinct (map fst ys)" using assms btree_ok_distinct by auto
  then have "set xs = set ys" using assms(3) by (metis map_of_eq_Some_iff subrelI subset_antisym)
  moreover from this d have "inj_on fst (set xs \<union> set ys)" by (simp add: distinct_map)
  ultimately show ?thesis
    using map_sorted_distinct_set_unique [of fst xs ys] assms(1,2) by (simp add: btree_ok_def strict_sorted_iff)
qed

end
