(* ===== verification/NetAddr.thy ===== *)
theory NetAddr
  imports RustStr
begin

text \<open>
  Reading and printing of IP addresses as the standard library does it (\<open>core::net::parser\<close> and
  the \<open>Display\<close> instances), which the SSH endpoint and the desktop endpoint checks rely on. A
  reader takes a text and gives the value and the rest, or \<open>None\<close> with nothing consumed.
\<close>

datatype IpAddr = V4 "u8 list" | V6 "u16 list"

section \<open>Readers\<close>

definition to_digit :: "nat \<Rightarrow> uchar \<Rightarrow> nat option" where
  "to_digit radix c =
     (let d = (if is_ascii_digit c then Some (c - 48)
               else if is_ascii_lower c then Some (c - 87)
               else if is_ascii_upper c then Some (c - 55) else None) in
      case d of Some n \<Rightarrow> if n < radix then Some n else None | None \<Rightarrow> None)"

text \<open>The digit loop: the value, the number of digits, the rest; it gives up past \<open>max_digits\<close>.\<close>

fun read_digits :: "nat \<Rightarrow> nat \<Rightarrow> nat \<Rightarrow> nat \<Rightarrow> ustring \<Rightarrow> (nat \<times> nat \<times> ustring) option" where
  "read_digits radix max_digits result count [] = Some (result, count, [])"
| "read_digits radix max_digits result count (c # cs) =
     (case to_digit radix c of
        None \<Rightarrow> Some (result, count, c # cs)
      | Some d \<Rightarrow>
          if count + 1 > max_digits then None
          else read_digits radix max_digits (result * radix + d) (count + 1) cs)"

definition read_number :: "nat \<Rightarrow> nat \<Rightarrow> bool \<Rightarrow> nat \<Rightarrow> ustring \<Rightarrow> (nat \<times> ustring) option" where
  "read_number radix max_digits allow_zero_prefix bound s =
     (case read_digits radix max_digits 0 0 s of
        None \<Rightarrow> None
      | Some (result, count, rest) \<Rightarrow>
          if count = 0 then None
          else if \<not> allow_zero_prefix \<and> s \<noteq> [] \<and> hd s = 48 \<and> count > 1 then None
          else if result < bound then Some (result, rest) else None)"

definition read_given_char :: "uchar \<Rightarrow> ustring \<Rightarrow> ustring option" where
  "read_given_char c s = strip_prefix c s"

definition read_separator ::
    "uchar \<Rightarrow> nat \<Rightarrow> (ustring \<Rightarrow> ('a \<times> ustring) option) \<Rightarrow> ustring \<Rightarrow> ('a \<times> ustring) option" where
  "read_separator sep index inner s =
     (if index > 0 then (case read_given_char sep s of None \<Rightarrow> None | Some s' \<Rightarrow> inner s') else inner s)"

fun read_octets :: "nat \<Rightarrow> nat \<Rightarrow> ustring \<Rightarrow> (u8 list \<times> ustring) option" where
  "read_octets i 0 s = Some ([], s)"
| "read_octets i (Suc n) s =
     (case read_separator 46 i (read_number 10 3 False 256) s of
        None \<Rightarrow> None
      | Some (v, s') \<Rightarrow>
          (case read_octets (i + 1) n s' of
             None \<Rightarrow> None
           | Some (vs, s'') \<Rightarrow> Some (of_nat v # vs, s'')))"

definition read_ipv4_addr :: "ustring \<Rightarrow> (u8 list \<times> ustring) option" where
  "read_ipv4_addr s = read_octets 0 4 s"

definition octet_pairs :: "u8 list \<Rightarrow> u16 list" where
  "octet_pairs os =
     (case os of [a, b, c, d] \<Rightarrow> [of_nat (unat a * 256 + unat b), of_nat (unat c * 256 + unat d)] | _ \<Rightarrow> [])"

text \<open>\<open>read_groups\<close>: slot \<open>i\<close> of \<open>limit\<close>, \<open>n\<close> slots left; the groups read, whether an embedded IPv4
  address ended them, the rest.\<close>

fun read_groups :: "nat \<Rightarrow> nat \<Rightarrow> nat \<Rightarrow> ustring \<Rightarrow> u16 list \<times> bool \<times> ustring" where
  "read_groups limit i 0 s = ([], False, s)"
| "read_groups limit i (Suc n) s =
     (case (if i < limit - 1 then read_separator 58 i read_ipv4_addr s else None) of
        Some (os, s') \<Rightarrow> (octet_pairs os, True, s')
      | None \<Rightarrow>
          (case read_separator 58 i (read_number 16 4 True 65536) s of
             Some (g, s') \<Rightarrow>
               (case read_groups limit (i + 1) n s' of (gs, v4, s'') \<Rightarrow> (of_nat g # gs, v4, s''))
           | None \<Rightarrow> ([], False, s)))"

definition read_ipv6_addr :: "ustring \<Rightarrow> (u16 list \<times> ustring) option" where
  "read_ipv6_addr s =
     (case read_groups 8 0 8 s of (head, head_ipv4, s1) \<Rightarrow>
        if length head = 8 then Some (head, s1)
        else if head_ipv4 then None
        else (case Option.bind (read_given_char 58 s1) (read_given_char 58) of
                None \<Rightarrow> None
              | Some s2 \<Rightarrow>
                  let limit = 8 - (length head + 1) in
                  (case read_groups limit 0 limit s2 of (tail, _, s3) \<Rightarrow>
                     Some (head @ replicate (8 - length head - length tail) 0 @ tail, s3))))"

definition parse_ipv6 :: "ustring \<Rightarrow> u16 list option" where
  "parse_ipv6 s = (case read_ipv6_addr s of Some (v, []) \<Rightarrow> Some v | _ \<Rightarrow> None)"

definition parse_ip :: "ustring \<Rightarrow> IpAddr option" where
  "parse_ip s =
     (case read_ipv4_addr s of
        Some (v, rest) \<Rightarrow> if rest = [] then Some (V4 v) else None
      | None \<Rightarrow>
          (case read_ipv6_addr s of
             Some (v, rest) \<Rightarrow> if rest = [] then Some (V6 v) else None
           | None \<Rightarrow> None))"

definition is_ipv6 :: "IpAddr \<Rightarrow> bool" where
  "is_ipv6 ip = (case ip of V6 _ \<Rightarrow> True | V4 _ \<Rightarrow> False)"

section \<open>Printing\<close>

definition hex_digit :: "nat \<Rightarrow> uchar" where
  "hex_digit d = (if d < 10 then 48 + d else 87 + d)"

fun hexadecimal :: "nat \<Rightarrow> ustring" where
  "hexadecimal n = (if n < 16 then [hex_digit n] else hexadecimal (n div 16) @ [hex_digit (n mod 16)])"

declare hexadecimal.simps [simp del]

fun join :: "uchar \<Rightarrow> ustring list \<Rightarrow> ustring" where
  "join c [] = []"
| "join c [x] = x"
| "join c (x # y # ys) = x @ c # join c (y # ys)"

definition show_ipv4 :: "u8 list \<Rightarrow> ustring" where
  "show_ipv4 os = join 46 (map (\<lambda>b. decimal (unat b)) os)"

definition fmt_subslice :: "u16 list \<Rightarrow> ustring" where
  "fmt_subslice gs = join 58 (map (\<lambda>g. hexadecimal (unat g)) gs)"

text \<open>The first longest run of zero groups: position in the scan, current span, longest span.\<close>

fun zero_span :: "nat \<Rightarrow> nat \<times> nat \<Rightarrow> nat \<times> nat \<Rightarrow> u16 list \<Rightarrow> nat \<times> nat" where
  "zero_span i current longest [] = longest"
| "zero_span i (cs, cl) (ls, ll) (g # gs) =
     (if g = 0 then
        (let current = (if cl = 0 then i else cs, cl + 1) in
         zero_span (i + 1) current (if cl + 1 > ll then current else (ls, ll)) gs)
      else zero_span (i + 1) (0, 0) (ls, ll) gs)"

definition to_ipv4_mapped :: "u16 list \<Rightarrow> u8 list option" where
  "to_ipv4_mapped gs =
     (case gs of
        [a, b, c, d, e, f, g, h] \<Rightarrow>
          if a = 0 \<and> b = 0 \<and> c = 0 \<and> d = 0 \<and> e = 0 \<and> f = 0xFFFF
          then Some [of_nat (unat g div 256), of_nat (unat g mod 256),
                     of_nat (unat h div 256), of_nat (unat h mod 256)]
          else None
      | _ \<Rightarrow> None)"

definition show_ipv6 :: "u16 list \<Rightarrow> ustring" where
  "show_ipv6 gs =
     (case to_ipv4_mapped gs of
        Some os \<Rightarrow> U ''::ffff:'' @ show_ipv4 os
      | None \<Rightarrow>
          (case zero_span 0 (0, 0) (0, 0) gs of (start, len) \<Rightarrow>
             if len > 1 then fmt_subslice (take start gs) @ U ''::'' @ fmt_subslice (drop (start + len) gs)
             else fmt_subslice gs))"

definition show_ip :: "IpAddr \<Rightarrow> ustring" where
  "show_ip ip = (case ip of V4 os \<Rightarrow> show_ipv4 os | V6 gs \<Rightarrow> show_ipv6 gs)"

section \<open>Numbers read back\<close>

fun radix_value :: "nat \<Rightarrow> nat \<Rightarrow> nat list \<Rightarrow> nat" where
  "radix_value radix acc [] = acc"
| "radix_value radix acc (d # ds) = radix_value radix (acc * radix + d) ds"

lemma radix_value_append: "radix_value radix acc (xs @ ys) = radix_value radix (radix_value radix acc xs) ys"
  by (induction xs arbitrary: acc) simp_all

definition not_digit :: "nat \<Rightarrow> ustring \<Rightarrow> bool" where
  "not_digit radix s \<longleftrightarrow> s = [] \<or> to_digit radix (hd s) = None"

lemma read_digits_append:
  assumes "list_all2 (\<lambda>c d. to_digit radix c = Some d) cs ds" "count + length cs \<le> max_digits" "not_digit radix rest"
  shows "read_digits radix max_digits acc count (cs @ rest) = Some (radix_value radix acc ds, count + length cs, rest)"
  using assms
proof (induction cs ds arbitrary: acc count rule: list_all2_induct)
  case Nil
  then show ?case by (cases rest) (simp_all add: not_digit_def)
next
  case (Cons c cs d ds)
  then show ?case by simp
qed

text \<open>The digits of a number, most significant first.\<close>

fun digits_of :: "nat \<Rightarrow> nat \<Rightarrow> nat list" where
  "digits_of b n = (if n < b \<or> b < 2 then [n] else digits_of b (n div b) @ [n mod b])"

declare digits_of.simps [simp del]

lemma digits_of_value: "radix_value b 0 (digits_of b n) = n"
proof (induction b n rule: digits_of.induct)
  case (1 b n)
  then show ?case
    by (subst digits_of.simps) (auto simp: radix_value_append)
qed

lemma digits_of_less: "2 \<le> b \<Longrightarrow> list_all (\<lambda>d. d < b) (digits_of b n)"
proof (induction b n rule: digits_of.induct)
  case (1 b n)
  then show ?case by (subst digits_of.simps) auto
qed

lemma digits_of_nonempty: "digits_of b n \<noteq> []"
  by (subst digits_of.simps) simp

lemma digits_of_hd:
  assumes "hd (digits_of b n) = 0" "2 \<le> b"
  shows "n = 0"
  using assms
proof (induction b n rule: digits_of.induct)
  case (1 b n)
  show ?case
  proof (cases "n < b \<or> b < 2")
    case True
    with 1(2) show ?thesis by (simp add: digits_of.simps [of b n])
  next
    case False
    with 1 have "n div b = 0" by (simp add: digits_of.simps [of b n] digits_of_nonempty)
    with False show ?thesis by (simp add: div_eq_0_iff)
  qed
qed

lemma digits_of_length: "2 \<le> b \<Longrightarrow> n < b ^ k \<Longrightarrow> 0 < k \<Longrightarrow> length (digits_of b n) \<le> k"
proof (induction b n arbitrary: k rule: digits_of.induct)
  case (1 b n)
  show ?case
  proof (cases "n < b \<or> b < 2")
    case True
    with 1 show ?thesis by (simp add: digits_of.simps [of b n])
  next
    case False
    then obtain k' where k: "k = Suc k'" "0 < k'" using 1(3,4) by (cases k; cases "k - 1") auto
    have "n div b < b ^ k'" using 1(3) k False by (simp add: less_mult_imp_div_less mult.commute)
    with 1(1) [OF False _ this k(2)] 1(2) False k show ?thesis by (simp add: digits_of.simps [of b n])
  qed
qed

lemma decimal_digits: "decimal n = map (\<lambda>d. 48 + d) (digits_of 10 n)"
proof (induction n rule: decimal.induct)
  case (1 n)
  then show ?case by (subst decimal.simps, subst digits_of.simps) auto
qed

lemma decimal_inject: "decimal m = decimal n \<longleftrightarrow> m = n"
proof
  assume "decimal m = decimal n"
  then have "digits_of 10 m = digits_of 10 n" unfolding decimal_digits by (simp add: inj_map_eq_map inj_on_def)
  then show "m = n" using digits_of_value by metis
qed simp

lemma hexadecimal_digits: "hexadecimal n = map hex_digit (digits_of 16 n)"
proof (induction n rule: hexadecimal.induct)
  case (1 n)
  then show ?case by (subst hexadecimal.simps, subst digits_of.simps) auto
qed

lemma to_digit_decimal: "d < 10 \<Longrightarrow> to_digit 10 (48 + d) = Some d"
  by (simp add: to_digit_def is_ascii_digit_def)

lemma to_digit_hex: "d < 16 \<Longrightarrow> to_digit 16 (hex_digit d) = Some d"
  by (auto simp: to_digit_def hex_digit_def is_ascii_digit_def is_ascii_lower_def)

lemma list_all2_map_digits:
  "(\<And>d. d < b \<Longrightarrow> to_digit b (f d) = Some d) \<Longrightarrow> list_all (\<lambda>d. d < b) ds \<Longrightarrow>
   list_all2 (\<lambda>c d. to_digit b c = Some d) (map f ds) ds"
  by (induction ds) auto

lemma read_decimal:
  assumes "n < 256" "not_digit 10 rest"
  shows "read_number 10 3 False 256 (decimal n @ rest) = Some (n, rest)"
proof -
  let ?ds = "digits_of 10 n"
  have len: "length ?ds \<le> 3" using assms(1) by (intro digits_of_length) simp_all
  have l: "list_all2 (\<lambda>c d. to_digit 10 c = Some d) (decimal n) ?ds"
    unfolding decimal_digits by (rule list_all2_map_digits) (simp_all add: to_digit_decimal digits_of_less)
  have "read_digits 10 3 0 0 (decimal n @ rest) = Some (n, length ?ds, rest)"
    using read_digits_append [OF l, of 0 3 rest 0] len assms(2)
    by (simp add: decimal_digits digits_of_value)
  moreover have "hd (decimal n @ rest) = 48 \<Longrightarrow> length ?ds = 1"
  proof -
    assume "hd (decimal n @ rest) = 48"
    then have "hd ?ds = 0" using digits_of_nonempty [of 10 n] by (simp add: decimal_digits hd_map)
    then have "n = 0" using digits_of_hd by simp
    then show "length ?ds = 1" by (simp add: digits_of.simps [of 10 0])
  qed
  ultimately show ?thesis
    using assms(1) digits_of_nonempty [of 10 n] by (auto simp: read_number_def)
qed

lemma read_hexadecimal:
  assumes "n < 65536" "not_digit 16 rest"
  shows "read_number 16 4 True 65536 (hexadecimal n @ rest) = Some (n, rest)"
proof -
  let ?ds = "digits_of 16 n"
  have len: "length ?ds \<le> 4" using assms(1) by (intro digits_of_length) simp_all
  have l: "list_all2 (\<lambda>c d. to_digit 16 c = Some d) (hexadecimal n) ?ds"
    unfolding hexadecimal_digits by (rule list_all2_map_digits) (simp_all add: to_digit_hex digits_of_less)
  have "read_digits 16 4 0 0 (hexadecimal n @ rest) = Some (n, length ?ds, rest)"
    using read_digits_append [OF l, of 0 4 rest 0] len assms(2)
    by (simp add: hexadecimal_digits digits_of_value)
  then show ?thesis
    using assms(1) digits_of_nonempty [of 16 n] by (auto simp: read_number_def)
qed

section \<open>IPv4 addresses read back\<close>

lemma not_digit_dot: "not_digit 10 (46 # s)"
  by (simp add: not_digit_def to_digit_def is_ascii_digit_def is_ascii_lower_def is_ascii_upper_def)

lemma four: "(4 :: nat) = Suc (Suc (Suc (Suc 0)))"
  by simp

lemma read_ipv4_show:
  assumes "length os = 4" "not_digit 10 rest"
  shows "read_ipv4_addr (show_ipv4 os @ rest) = Some (os, rest)"
proof -
  obtain a b c d where os: "os = [a, b, c, d]"
    using assms(1) by (auto simp: numeral_eq_Suc length_Suc_conv)
  have r: "read_number 10 3 False 256 (decimal (unat x) @ s) = Some (unat x, s)" if "not_digit 10 s" for x :: u8 and s
    using read_decimal [OF _ that, of "unat x"] unsigned_less [of x] by simp
  show ?thesis
    unfolding read_ipv4_addr_def four
    by (simp add: os show_ipv4_def read_separator_def read_given_char_def strip_prefix_def
        r not_digit_dot assms(2))
qed

section \<open>IPv6 addresses read back\<close>

lemma digit_chars:
  "list_all is_ascii_digit (decimal n)"
  "list_all (\<lambda>c. is_ascii_digit c \<or> is_ascii_lower c) (hexadecimal n)"
proof -
  have "list_all (\<lambda>d. d < 10) (digits_of 10 n)" "list_all (\<lambda>d. d < 16) (digits_of 16 n)"
    by (rule digits_of_less, simp)+
  then show "list_all is_ascii_digit (decimal n)" "list_all (\<lambda>c. is_ascii_digit c \<or> is_ascii_lower c) (hexadecimal n)"
    unfolding decimal_digits hexadecimal_digits
    by (auto simp: list_all_iff is_ascii_digit_def is_ascii_lower_def hex_digit_def)
qed

lemma read_digits_rest:
  "read_digits 10 m acc count s = Some (v, c, rest) \<Longrightarrow> rest = dropWhile is_ascii_digit s"
proof (induction s arbitrary: acc count)
  case (Cons x s)
  have "to_digit 10 x = (if is_ascii_digit x then Some (x - 48) else None)"
    by (auto simp: to_digit_def is_ascii_digit_def is_ascii_lower_def is_ascii_upper_def)
  with Cons show ?case by (auto split: if_splits)
qed simp

text \<open>A text whose first dot comes after a colon does not start with an IPv4 address.\<close>

definition no_dot_first :: "ustring \<Rightarrow> bool" where
  "no_dot_first s \<longleftrightarrow> 46 \<notin> set (takeWhile (\<lambda>c. c \<noteq> 58) s)"

lemma read_ipv4_none:
  assumes "no_dot_first s"
  shows "read_ipv4_addr s = None"
proof -
  have "read_octets 0 4 s = None"
  proof (cases "read_number 10 3 False 256 s")
    case None
    then show ?thesis unfolding four by (simp add: read_separator_def)
  next
    case (Some p)
    obtain v rest where p: "p = (v, rest)" by force
    have rest: "rest = dropWhile is_ascii_digit s"
      using Some p by (auto simp: read_number_def dest!: read_digits_rest split: option.splits if_splits)
    have "strip_prefix 46 rest = None"
    proof (cases rest)
      case (Cons x xs)
      have "x \<noteq> 46"
      proof
        assume x: "x = 46"
        define pre where "pre = takeWhile is_ascii_digit s"
        have s: "s = pre @ 46 # xs" using Cons rest x takeWhile_dropWhile_id [of is_ascii_digit s] by (simp add: pre_def)
        have "c \<noteq> 58" if "c \<in> set pre" for c using set_takeWhileD that by (force simp: pre_def is_ascii_digit_def)
        then have "takeWhile (\<lambda>c. c \<noteq> 58) (pre @ 46 # xs) = pre @ takeWhile (\<lambda>c. c \<noteq> 58) (46 # xs)"
          by (intro takeWhile_append2)
        with assms show False unfolding s by (simp add: no_dot_first_def)
      qed
      with Cons show ?thesis by (simp add: strip_prefix_def)
    qed (simp add: strip_prefix_def)
    with Some p show ?thesis unfolding four by (simp add: read_separator_def read_given_char_def)
  qed
  then show ?thesis by (simp add: read_ipv4_addr_def)
qed

lemma no_dot_hex: "no_dot_first rest \<Longrightarrow> no_dot_first (hexadecimal n @ rest)"
proof -
  assume r: "no_dot_first rest"
  have h: "\<forall>c \<in> set (hexadecimal n). c \<noteq> 58 \<and> c \<noteq> 46"
    using digit_chars(2) [of n] by (auto simp: list_all_iff is_ascii_digit_def is_ascii_lower_def)
  then have "takeWhile (\<lambda>c. c \<noteq> 58) (hexadecimal n @ rest) = hexadecimal n @ takeWhile (\<lambda>c. c \<noteq> 58) rest"
    by (simp add: takeWhile_append2)
  with h r show ?thesis by (auto simp: no_dot_first_def)
qed

lemma no_dot_colon [simp]: "no_dot_first (58 # s)" "no_dot_first []"
  by (simp_all add: no_dot_first_def)

text \<open>Groups after the first, each with its colon.\<close>

definition group_tail :: "u16 list \<Rightarrow> ustring" where
  "group_tail gs = concat (map (\<lambda>g. 58 # hexadecimal (unat g)) gs)"

lemma fmt_subslice_Cons: "fmt_subslice (g # gs) = hexadecimal (unat g) @ group_tail gs"
  by (induction gs arbitrary: g) (simp_all add: fmt_subslice_def group_tail_def)

lemma fmt_subslice_Nil: "fmt_subslice [] = []"
  by (simp add: fmt_subslice_def)

text \<open>What may follow the groups: the end, or the two colons of a compressed run.\<close>

definition stops :: "ustring \<Rightarrow> bool" where
  "stops rest \<longleftrightarrow> rest = [] \<or> (\<exists>s. rest = 58 # 58 # s)"

lemma to_digit_colon [simp]: "to_digit r 58 = None"
  by (simp add: to_digit_def is_ascii_digit_def is_ascii_lower_def is_ascii_upper_def)

lemma read_number_colon: "read_number r m z b (58 # s) = None" "read_number r m z b [] = None"
  by (simp_all add: read_number_def)

lemma not_digit_tail: "stops rest \<Longrightarrow> not_digit 16 (group_tail gs @ rest)"
  by (cases gs) (auto simp: stops_def not_digit_def group_tail_def)

lemma no_dot_tail: "stops rest \<Longrightarrow> no_dot_first (group_tail gs @ rest)"
  by (cases gs) (auto simp: stops_def group_tail_def)

lemma read_groups_stop:
  assumes "stops rest" "0 < i"
  shows "read_groups limit i n rest = ([], False, rest)"
proof (cases n)
  case (Suc k)
  have "read_separator 58 i read_ipv4_addr rest = None" "read_separator 58 i (read_number 16 4 True 65536) rest = None"
    using assms read_ipv4_none [OF no_dot_colon(1)]
    by (auto simp: stops_def read_separator_def read_given_char_def strip_prefix_def read_number_colon)
  then show ?thesis by (simp add: Suc)
qed simp

lemma read_groups_tail:
  assumes "length gs \<le> n" "stops rest" "0 < i"
  shows "read_groups limit i n (group_tail gs @ rest) = (gs, False, rest)"
  using assms
proof (induction gs arbitrary: i n)
  case Nil
  then show ?case using read_groups_stop by (simp add: group_tail_def)
next
  case (Cons g gs)
  then obtain k where n: "n = Suc k" by (cases n) auto
  let ?s = "group_tail gs @ rest"
  have s: "group_tail (g # gs) @ rest = 58 # hexadecimal (unat g) @ ?s" by (simp add: group_tail_def)
  have "read_separator 58 i read_ipv4_addr (58 # hexadecimal (unat g) @ ?s) = None"
    using Cons.prems(3) read_ipv4_none [OF no_dot_hex [OF no_dot_tail [OF Cons.prems(2)]]]
    by (simp add: read_separator_def read_given_char_def strip_prefix_def)
  moreover have "read_separator 58 i (read_number 16 4 True 65536) (58 # hexadecimal (unat g) @ ?s) = Some (unat g, ?s)"
    using Cons.prems(3) read_hexadecimal [OF _ not_digit_tail [OF Cons.prems(2)], of "unat g"] unsigned_less [of g]
    by (simp add: read_separator_def read_given_char_def strip_prefix_def)
  moreover have "read_groups limit (i + 1) k ?s = (gs, False, rest)"
    using Cons n by simp
  ultimately show ?case unfolding s n by simp
qed

lemma read_groups_fmt:
  assumes "length gs \<le> n" "stops rest" "gs = [] \<Longrightarrow> n = 0 \<or> rest = [] \<or> stops rest"
  shows "read_groups limit 0 n (fmt_subslice gs @ rest) = (gs, False, rest)"
proof (cases gs)
  case Nil
  have "read_ipv4_addr rest = None" using assms(2) by (intro read_ipv4_none) (auto simp: stops_def)
  moreover have "read_number 16 4 True 65536 rest = None" using assms(2) by (auto simp: stops_def read_number_colon)
  ultimately show ?thesis by (cases n) (simp_all add: Nil fmt_subslice_Nil read_separator_def)
next
  case (Cons g hs)
  then obtain k where n: "n = Suc k" using assms(1) by (cases n) auto
  let ?s = "group_tail hs @ rest"
  have "read_separator 58 0 read_ipv4_addr (hexadecimal (unat g) @ ?s) = None"
    using read_ipv4_none [OF no_dot_hex [OF no_dot_tail [OF assms(2)]]] by (simp add: read_separator_def)
  moreover have "read_separator 58 0 (read_number 16 4 True 65536) (hexadecimal (unat g) @ ?s) = Some (unat g, ?s)"
    using read_hexadecimal [OF _ not_digit_tail [OF assms(2)], of "unat g"] unsigned_less [of g]
    by (simp add: read_separator_def)
  moreover have "read_groups limit 1 k ?s = (hs, False, rest)"
    using read_groups_tail [of hs k rest 1 limit] assms Cons n by simp
  ultimately show ?thesis by (simp add: Cons fmt_subslice_Cons n)
qed

text \<open>The longest run lies in the address and is zero.\<close>

definition zeros_at :: "u16 list \<Rightarrow> nat \<times> nat \<Rightarrow> bool" where
  "zeros_at gs p \<longleftrightarrow> (case p of (s, l) \<Rightarrow> s + l \<le> length gs \<and> (\<forall>k < l. gs ! (s + k) = 0))"

lemma zero_span_zeros:
  assumes "zeros_at (pre @ gs) cur" "zeros_at (pre @ gs) best" "snd cur = 0 \<or> fst cur + snd cur = length pre"
  shows "zeros_at (pre @ gs) (zero_span (length pre) cur best gs)"
  using assms
proof (induction gs arbitrary: pre cur best)
  case (Cons g gs)
  obtain cs cl ls ll where c: "cur = (cs, cl)" "best = (ls, ll)" by force
  have e: "pre @ g # gs = (pre @ [g]) @ gs" by simp
  show ?case
  proof (cases "g = 0")
    case True
    let ?cur = "(if cl = 0 then length pre else cs, cl + 1)"
    have z: "zeros_at (pre @ g # gs) ?cur"
      using Cons.prems(1,3) True c by (auto simp: zeros_at_def nth_append less_Suc_eq)
    have "snd ?cur = 0 \<or> fst ?cur + snd ?cur = length (pre @ [g])" using Cons.prems(3) c by auto
    with Cons.IH [of "pre @ [g]" ?cur "if cl + 1 > ll then ?cur else (ls, ll)"] z Cons.prems(2) c True
    show ?thesis by (auto simp: Let_def split: if_splits)
  next
    case False
    have "zeros_at (pre @ g # gs) (0, 0)" by (simp add: zeros_at_def)
    with Cons.IH [of "pre @ [g]" "(0, 0)" best] Cons.prems(2) c False show ?thesis by simp
  qed
qed simp

lemma zero_span_run:
  assumes "zero_span 0 (0, 0) (0, 0) gs = (s, l)"
  shows "s + l \<le> length gs" "take s gs @ replicate l 0 @ drop (s + l) gs = gs"
proof -
  have "zeros_at gs (s, l)" using zero_span_zeros [of "[]" gs "(0, 0)" "(0, 0)"] assms by (simp add: zeros_at_def)
  then have b: "s + l \<le> length gs" and z: "\<forall>k < l. gs ! (s + k) = 0" by (auto simp: zeros_at_def)
  have "replicate l 0 = take l (drop s gs)"
    using b z by (intro nth_equalityI) auto
  then show "s + l \<le> length gs" "take s gs @ replicate l 0 @ drop (s + l) gs = gs"
    using b by (simp_all add: add.commute flip: take_drop drop_drop)
qed

lemma parse_fmt:
  assumes "length gs = 8" "l > 1" "zero_span 0 (0, 0) (0, 0) gs = (s, l)"
  shows "read_ipv6_addr (fmt_subslice (take s gs) @ U ''::'' @ fmt_subslice (drop (s + l) gs)) = Some (gs, [])"
proof -
  note run = zero_span_run [OF assms(3)]
  let ?h = "take s gs" and ?t = "drop (s + l) gs"
  let ?rest = "58 # 58 # fmt_subslice ?t"
  have len: "length ?h = s" "length ?t = 8 - (s + l)" "s < 8" "length ?t \<le> 8 - (s + 1)"
    using run(1) assms(1,2) by auto
  have "read_groups 8 0 8 (fmt_subslice ?h @ ?rest) = (?h, False, ?rest)"
    using len by (intro read_groups_fmt) (auto simp: stops_def)
  moreover have "read_groups (8 - (s + 1)) 0 (8 - (s + 1)) (fmt_subslice ?t @ []) = (?t, False, [])"
    using len by (intro read_groups_fmt) (auto simp: stops_def)
  moreover have "8 - s - length ?t = l" using run(1) assms(1) len by simp
  ultimately show ?thesis
    using run(2) len
    by (simp add: read_ipv6_addr_def U_def read_given_char_def strip_prefix_def Let_def del: take_append drop_append)
qed

lemma octet_pairs_split:
  "octet_pairs [of_nat (unat g div 256), of_nat (unat g mod 256), of_nat (unat h div 256), of_nat (unat h mod 256)] = [g, h]"
  for g h :: u16
proof -
  have "unat x < 65536" for x :: u16 by (rule order_less_le_trans [OF unsigned_less]) simp
  then have "unat x div 256 < 256" for x :: u16 by (intro less_mult_imp_div_less) simp
  then have eqs: "unat (of_nat (unat x div 256) :: u8) = unat x div 256" "unat (of_nat (unat x mod 256) :: u8) = unat x mod 256" for x :: u16
    by (simp_all add: unat_of_nat)
  show ?thesis by (simp only: octet_pairs_def list.case eqs div_mult_mod_eq) simp
qed

lemma parse_mapped:
  assumes "to_ipv4_mapped gs = Some os"
  shows "read_ipv6_addr (U ''::ffff:'' @ show_ipv4 os) = Some (gs, [])"
proof -
  obtain g h where gs: "gs = [0, 0, 0, 0, 0, 0xFFFF, g, h]" and os: "os = [of_nat (unat g div 256), of_nat (unat g mod 256), of_nat (unat h div 256), of_nat (unat h mod 256)]"
    using assms by (auto simp: to_ipv4_mapped_def split: list.splits if_splits)
  have hex: "hexadecimal 65535 = [102, 102, 102, 102]" by code_simp
  have five: "replicate 5 (0 :: u16) = [0, 0, 0, 0, 0]" by code_simp
  let ?v4 = "58 # show_ipv4 os"
  have "read_groups 8 0 8 (58 # 58 # hexadecimal 65535 @ ?v4) = ([], False, 58 # 58 # hexadecimal 65535 @ ?v4)"
    using read_groups_fmt [of "[]" 8 "58 # 58 # hexadecimal 65535 @ ?v4" 8] by (simp add: fmt_subslice_Nil stops_def)
  moreover have v4: "read_ipv4_addr (hexadecimal 65535 @ ?v4) = None"
    by (intro read_ipv4_none no_dot_hex) simp
  moreover have num: "read_number 16 4 True 65536 (hexadecimal 65535 @ ?v4) = Some (65535, ?v4)"
    by (intro read_hexadecimal) (simp_all add: not_digit_def)
  moreover have inner: "read_ipv4_addr (show_ipv4 os) = Some (os, [])"
    using read_ipv4_show [of os "[]"] by (simp add: os not_digit_def)
  moreover have "U ''::ffff:'' @ show_ipv4 os = 58 # 58 # hexadecimal 65535 @ ?v4" by (simp add: hex U_def)
  moreover have "read_groups 7 0 7 (hexadecimal 65535 @ ?v4) = ([0xFFFF, g, h], True, [])"
  proof -
    have "read_groups 7 0 (Suc (Suc k)) (hexadecimal 65535 @ ?v4) = ([0xFFFF, g, h], True, [])" for k
      using v4 num inner by (simp add: read_separator_def read_given_char_def strip_prefix_def os octet_pairs_split)
    from this [of 5] show ?thesis by simp
  qed
  ultimately show ?thesis using five
    by (simp add: read_ipv6_addr_def read_given_char_def strip_prefix_def gs Let_def)
qed

lemma ipv6_text_no_ipv4:
  assumes "length gs = 8"
  shows "read_ipv4_addr (show_ipv6 gs) = None"
proof -
  have f: "no_dot_first (fmt_subslice hs @ rest)" if "stops rest" for hs rest
    using that no_dot_hex no_dot_tail by (cases hs) (auto simp: fmt_subslice_Nil fmt_subslice_Cons stops_def)
  have "no_dot_first (show_ipv6 gs)"
  proof (cases "to_ipv4_mapped gs")
    case (Some os)
    then show ?thesis by (simp add: show_ipv6_def U_def)
  next
    case None
    obtain s l where z: "zero_span 0 (0, 0) (0, 0) gs = (s, l)" by force
    have "stops (U ''::'' @ x)" for x by (simp add: stops_def U_def)
    moreover have "stops []" by (simp add: stops_def)
    ultimately show ?thesis using f f [of "[]"] None z by (auto simp: show_ipv6_def)
  qed
  then show ?thesis by (rule read_ipv4_none)
qed

definition valid_ip :: "IpAddr \<Rightarrow> bool" where
  "valid_ip ip = (case ip of V4 os \<Rightarrow> length os = 4 | V6 gs \<Rightarrow> length gs = 8)"

lemma parse_show_ipv6: "length gs = 8 \<Longrightarrow> read_ipv6_addr (show_ipv6 gs) = Some (gs, [])"
proof -
  assume len: "length gs = 8"
  show ?thesis
  proof (cases "to_ipv4_mapped gs")
    case (Some os)
    then show ?thesis using parse_mapped by (simp add: show_ipv6_def)
  next
    case None
    obtain s l where z: "zero_span 0 (0, 0) (0, 0) gs = (s, l)" by force
    show ?thesis
    proof (cases "l > 1")
      case True
      then show ?thesis using parse_fmt [OF len True z] None z by (simp add: show_ipv6_def)
    next
      case False
      have "read_groups 8 0 8 (fmt_subslice gs @ []) = (gs, False, [])"
        using len by (intro read_groups_fmt) (auto simp: stops_def)
      with False None z len show ?thesis by (simp add: show_ipv6_def read_ipv6_addr_def)
    qed
  qed
qed

lemma parse_show_ip: "valid_ip ip \<Longrightarrow> parse_ip (show_ip ip) = Some ip"
  using read_ipv4_show [of _ "[]"] ipv6_text_no_ipv4 parse_show_ipv6
  by (cases ip) (simp_all add: valid_ip_def parse_ip_def show_ip_def not_digit_def)

end
