(* ===== verification/SyncSchema.thy ===== *)
theory SyncSchema
  imports BTree NetAddr
begin

text \<open>
  The portable bundle of \<open>crates/ssh-profile-sync/src/schema.rs\<close>: its objects, and the validation a
  bundle passes before it is exchanged or merged. A portable object ID is a UUID, compared as its
  128-bit value. A \<open>BTreeMap\<close> is its increasing entry list, an iterated \<open>BTreeSet\<close> its increasing
  element list. Preference values are \<open>serde_json\<close>'s: a type parameter, with the two functions of
  that crate the code calls in the record \<open>json_api\<close>.
\<close>

section \<open>Objects\<close>

type_synonym PortableObjectId = "128 word"

datatype SyncCodecError =
    InvalidBundle string | BoundExceeded string | DuplicateObjectId | DanglingObjectReference
  | InvalidSyncKey | InvalidNonce | BindingMismatch | AuthenticationFailed
  | InvalidRecoveryPassword | KeyDerivation | UnsupportedKdfProfile | Random | Serialization

definition from_uuid :: "128 word \<Rightarrow> SyncCodecError + PortableObjectId" where
  "from_uuid u = (if u = 0 then Inl (InvalidBundle ''portable object ID must not be nil'') else Inr u)"

datatype BundleSchema = V1 | V2 | V3 | V4_bundle | V5 | V6_bundle

datatype PortableObjectKind =
    Host | DesktopProfile | Identity | Credential | Route | AuthenticationPlan | AlgorithmPolicy
  | HeartbeatPolicy | MonitoringPolicy | LoginAutomation | Secret

datatype PortableDataCategory = Hosts | Credentials | DesktopProfiles

definition for_kind :: "PortableObjectKind \<Rightarrow> PortableDataCategory" where
  "for_kind k =
     (case k of
        Identity \<Rightarrow> Credentials | Credential \<Rightarrow> Credentials | Secret \<Rightarrow> Credentials
      | DesktopProfile \<Rightarrow> DesktopProfiles
      | _ \<Rightarrow> Hosts)"

text \<open>The derived orders: declaration order of the variants.\<close>

primrec kind_rank :: "PortableObjectKind \<Rightarrow> nat" where
  "kind_rank Host = 0"
| "kind_rank DesktopProfile = 1"
| "kind_rank Identity = 2"
| "kind_rank Credential = 3"
| "kind_rank Route = 4"
| "kind_rank AuthenticationPlan = 5"
| "kind_rank AlgorithmPolicy = 6"
| "kind_rank HeartbeatPolicy = 7"
| "kind_rank MonitoringPolicy = 8"
| "kind_rank LoginAutomation = 9"
| "kind_rank Secret = 10"

lemma kind_rank_inject: "kind_rank a = kind_rank b \<longleftrightarrow> a = b"
  by (cases a; cases b) simp_all

instantiation PortableObjectKind :: linorder
begin

definition less_eq_PortableObjectKind :: "PortableObjectKind \<Rightarrow> PortableObjectKind \<Rightarrow> bool" where
  "less_eq_PortableObjectKind a b \<longleftrightarrow> kind_rank a \<le> kind_rank b"

definition less_PortableObjectKind :: "PortableObjectKind \<Rightarrow> PortableObjectKind \<Rightarrow> bool" where
  "less_PortableObjectKind a b \<longleftrightarrow> kind_rank a < kind_rank b"

instance
  by standard (auto simp: less_eq_PortableObjectKind_def less_PortableObjectKind_def kind_rank_inject)

end

primrec category_rank :: "PortableDataCategory \<Rightarrow> nat" where
  "category_rank Hosts = 0"
| "category_rank Credentials = 1"
| "category_rank DesktopProfiles = 2"

lemma category_rank_inject: "category_rank a = category_rank b \<longleftrightarrow> a = b"
  by (cases a; cases b) simp_all

instantiation PortableDataCategory :: linorder
begin

definition less_eq_PortableDataCategory :: "PortableDataCategory \<Rightarrow> PortableDataCategory \<Rightarrow> bool" where
  "less_eq_PortableDataCategory a b \<longleftrightarrow> category_rank a \<le> category_rank b"

definition less_PortableDataCategory :: "PortableDataCategory \<Rightarrow> PortableDataCategory \<Rightarrow> bool" where
  "less_PortableDataCategory a b \<longleftrightarrow> category_rank a < category_rank b"

instance
  by standard (auto simp: less_eq_PortableDataCategory_def less_PortableDataCategory_def category_rank_inject)

end

type_synonym ObjectNode = "PortableObjectKind \<times> PortableObjectId"

record PortableHost =
  host_id :: PortableObjectId
  host_label :: ustring
  host_address :: ustring
  host_port :: u16
  host_username :: "ustring option"
  host_favorite :: bool
  host_tags :: "ustring list"
  host_identity_id :: "PortableObjectId option"
  host_route_id :: PortableObjectId
  host_authentication_plan_id :: PortableObjectId
  host_algorithm_policy_id :: PortableObjectId
  host_heartbeat_policy_id :: PortableObjectId
  host_monitoring_policy_id :: PortableObjectId
  host_login_automation_id :: "PortableObjectId option"

datatype PortableVncResolutionMode = VncServer | VncFixed | VncAdaptive
datatype PortableRdpResolutionMode = RdpFixed | RdpAdaptive
datatype PortableRdpTransportMode = TransportAuto | TcpOnly | UdpRequired
datatype PortableRdpGraphicsMode = GraphicsAuto | RemoteFx | Avc420 | GraphicsBitmap
datatype PortableVncProtocolVersion = VersionAuto | Rfb33 | Rfb37 | Rfb38
datatype PortableDesktopProtocol = Rdp | Vnc

record PortableDesktopProfile =
  desktop_id :: PortableObjectId
  desktop_label :: ustring
  desktop_protocol :: PortableDesktopProtocol
  desktop_address :: ustring
  desktop_port :: u16
  desktop_username :: ustring
  desktop_domain :: ustring
  desktop_host_id :: "PortableObjectId option"
  desktop_gateway_host_id :: "PortableObjectId option"
  desktop_credential_id :: "PortableObjectId option"
  desktop_width :: u16
  desktop_height :: u16
  desktop_clipboard_enabled :: bool
  desktop_audio_playback_enabled :: bool
  desktop_vnc_protocol_version :: PortableVncProtocolVersion
  desktop_vnc_resolution_mode :: PortableVncResolutionMode
  desktop_rdp_transport_mode :: PortableRdpTransportMode
  desktop_rdp_graphics_mode :: PortableRdpGraphicsMode
  desktop_rdp_resolution_mode :: PortableRdpResolutionMode

record PortableIdentity =
  identity_id :: PortableObjectId
  identity_label :: ustring
  identity_username :: "ustring option"
  identity_credential_ids :: "PortableObjectId list"

datatype PublicKeyAlgorithm = Ed25519 | RsaSha256 | RsaSha512 | EcdsaP256 | EcdsaP384 | EcdsaP521

datatype PortableCredentialMaterial =
    MaterialPassword (password_secret_id: PortableObjectId)
  | MaterialPrivateKey PublicKeyAlgorithm ustring PortableObjectId "PortableObjectId option"
  | MaterialCertificate PublicKeyAlgorithm ustring PortableObjectId "PortableObjectId option" "PortableObjectId option"
  | KeyboardInteractive u8

record PortableCredential =
  credential_id :: PortableObjectId
  credential_identity_id :: PortableObjectId
  credential_label :: ustring
  credential_material :: PortableCredentialMaterial

datatype RouteIngress =
    Direct
  | HttpConnect ustring u16 "ustring option" "PortableObjectId option"
  | Socks5 ustring u16 "ustring option" "PortableObjectId option" bool

record JumpHop =
  hop_host_id :: PortableObjectId

record PortableRoute =
  route_id :: PortableObjectId
  route_ingress :: RouteIngress
  route_jump_hops :: "JumpHop list"

record PortableAuthenticationPlan =
  plan_id :: PortableObjectId
  plan_credential_ids :: "PortableObjectId list"

datatype PortableAlgorithmCategory = KeyExchange | HostKey | Cipher | Mac

record PortableAlgorithmCompatibilityException =
  exception_category :: PortableAlgorithmCategory
  exception_id :: ustring
  exception_reason :: "ustring option"

record PortableAlgorithmPolicy =
  algorithm_id :: PortableObjectId
  algorithm_policy_id :: ustring
  algorithm_exceptions :: "PortableAlgorithmCompatibilityException list"

datatype PortableShellHeartbeatLineEnding = NoEnding | Cr | Lf | Crlf

datatype HeartbeatMode =
    HeartbeatDisabled
  | TransportKeepalive u32 u32 u8
  | ShellHeartbeat u32 u32 ustring PortableShellHeartbeatLineEnding

record PortableHeartbeatPolicy =
  heartbeat_id :: PortableObjectId
  heartbeat_mode :: HeartbeatMode

datatype MonitoringResource = Cpu | Memory | RootDisk | AggregateNonLoopbackNetwork

record PortableMonitoringPolicy =
  monitoring_id :: PortableObjectId
  monitoring_enabled :: bool
  monitoring_interval_seconds :: u32
  monitoring_timeout_seconds :: u32
  monitoring_interval_millis :: "u32 option"
  monitoring_timeout_millis :: "u32 option"
  monitoring_resources :: "MonitoringResource list"

datatype LoginAutomationStep =
    Expect ustring u32
  | SendText ustring bool u32
  | SendSecret PortableObjectId ustring bool u32

record PortableLoginAutomation =
  login_id :: PortableObjectId
  login_steps :: "LoginAutomationStep list"

datatype PortableSecretKind =
    SecretPassword | SecretPrivateKey | SecretPassphrase | SecretCertificate | SecretLoginAutomation

record PortableSecret =
  secret_id :: PortableObjectId
  secret_kind :: PortableSecretKind
  secret_selected_by_user :: bool
  secret_payload :: "u8 list"

datatype MachineBoundKind = SshAgent | Fido | HardwareKey
datatype MachineBoundSkipReason = MachineBound

record SkippedMachineBoundObject =
  skipped_id :: PortableObjectId
  skipped_kind :: MachineBoundKind
  skipped_reason :: MachineBoundSkipReason

record PortableTombstone =
  tombstone_kind :: PortableObjectKind
  tombstone_id :: PortableObjectId

record PortableItemUpdateTime =
  time_kind :: PortableObjectKind
  time_id :: PortableObjectId
  update_time_unix_ms :: int

record 'v PortablePreferencesV1 =
  product :: ustring
  version :: u16
  groups :: "(ustring \<times> 'v) list"

record PortableObjects =
  hosts :: "PortableHost list"
  desktop_profiles :: "PortableDesktopProfile list"
  identities :: "PortableIdentity list"
  credentials :: "PortableCredential list"
  routes :: "PortableRoute list"
  authentication_plans :: "PortableAuthenticationPlan list"
  algorithm_policies :: "PortableAlgorithmPolicy list"
  heartbeat_policies :: "PortableHeartbeatPolicy list"
  monitoring_policies :: "PortableMonitoringPolicy list"
  login_automations :: "PortableLoginAutomation list"

record 'v PortableBundleV1 =
  schema :: BundleSchema
  selected_categories :: "PortableDataCategory list option"
  revision :: u64
  objects :: PortableObjects
  preferences :: "'v PortablePreferencesV1 option"
  secrets :: "PortableSecret list"
  skipped_machine_bound :: "SkippedMachineBoundObject list"
  tombstones :: "PortableTombstone list"
  update_times :: "PortableItemUpdateTime list"
  preference_update_times :: "(ustring \<times> int) list"

end
