(* ===== verification/SyncValidate.thy ===== *)
theory SyncValidate
  imports SyncSchema "HOL-Library.Multiset"
begin

text \<open>
  Validation of portable bundles, check by check in the order of
  \<open>crates/ssh-profile-sync/src/schema.rs\<close>: the first failing check is the error. A \<open>for\<close> loop over
  checks is \<open>check_all\<close>, a chain of \<open>?\<close> statements \<open>seq_checks\<close>.
\<close>

section \<open>Bounds and texts\<close>

definition MAX_OBJECTS_PER_KIND :: nat where "MAX_OBJECTS_PER_KIND = 10000"
definition MAX_SMALL_TEXT_BYTES :: nat where "MAX_SMALL_TEXT_BYTES = 1024"
definition MAX_LARGE_TEXT_BYTES :: nat where "MAX_LARGE_TEXT_BYTES = 64 * 1024"
definition MAX_COLLECTION_ITEMS :: nat where "MAX_COLLECTION_ITEMS = 1024"

definition validate_count :: "nat \<Rightarrow> string \<Rightarrow> SyncCodecError + unit" where
  "validate_count n name = fail_if (n > MAX_OBJECTS_PER_KIND) (BoundExceeded name)"

definition validate_collection :: "nat \<Rightarrow> string \<Rightarrow> SyncCodecError + unit" where
  "validate_collection n name = fail_if (n > MAX_COLLECTION_ITEMS) (BoundExceeded name)"

definition validate_unique_ids :: "PortableObjectId list \<Rightarrow> string \<Rightarrow> SyncCodecError + unit" where
  "validate_unique_ids ids name =
     seq_checks
      [validate_collection (length ids) name,
       fail_if (card (set ids) \<noteq> length ids)
         (InvalidBundle ''ordered object references must not contain duplicates'')]"

definition validate_text :: "ustring \<Rightarrow> nat \<Rightarrow> string \<Rightarrow> SyncCodecError + unit" where
  "validate_text s max_bytes name =
     seq_checks
      [fail_if (s = []) (InvalidBundle name),
       fail_if (str_len s > max_bytes) (BoundExceeded name),
       fail_if (list_ex is_control s) (InvalidBundle ''text fields must not contain control characters'')]"

definition validate_optional_text :: "ustring option \<Rightarrow> string \<Rightarrow> SyncCodecError + unit" where
  "validate_optional_text v name =
     (case v of None \<Rightarrow> Inr () | Some s \<Rightarrow> validate_text s MAX_SMALL_TEXT_BYTES name)"

definition validate_desktop_text :: "ustring \<Rightarrow> string \<Rightarrow> SyncCodecError + unit" where
  "validate_desktop_text s name =
     seq_checks
      [fail_if (str_len s > 256) (BoundExceeded name),
       fail_if (list_ex is_control s)
         (InvalidBundle ''desktop text fields must not contain control characters'')]"

definition validate_desktop_label :: "ustring \<Rightarrow> SyncCodecError + unit" where
  "validate_desktop_label s =
     seq_checks
      [fail_if (trim s = []) (InvalidBundle ''desktop label''),
       validate_desktop_text s ''desktop label'']"

definition label_ok :: "ustring \<Rightarrow> bool" where
  "label_ok l \<longleftrightarrow>
     l \<noteq> [] \<and> str_len l \<le> 63 \<and> list_all (\<lambda>c. is_ascii_alnum c \<or> c = 45) l \<and>
     is_ascii_alnum (hd l) \<and> is_ascii_alnum (last l)"

definition validate_desktop_endpoint :: "ustring \<Rightarrow> u16 \<Rightarrow> SyncCodecError + unit" where
  "validate_desktop_endpoint s p =
     (if p = 0 then Inl (InvalidBundle ''desktop port must be positive'')
      else let inp = trim s in
      if inp = [] then Inl (InvalidBundle ''desktop endpoint'')
      else let stripped = Option.bind (strip_prefix 91 inp) (strip_suffix 93);
               addr = (case stripped of Some a \<Rightarrow> a | None \<Rightarrow> inp);
               bracketed = (stripped \<noteq> None) in
      case parse_ip addr of
        Some ip \<Rightarrow> fail_if (bracketed \<and> \<not> is_ipv6 ip) (InvalidBundle ''desktop endpoint'')
      | None \<Rightarrow>
          if bracketed \<or> \<not> is_ascii addr then Inl (InvalidBundle ''desktop endpoint'')
          else let hostname = to_ascii_lowercase (case strip_suffix 46 addr of Some a \<Rightarrow> a | None \<Rightarrow> addr) in
          if hostname = [] \<or> str_len hostname > 253 then Inl (InvalidBundle ''desktop endpoint'')
          else let labels = split_char 46 hostname in
          if length labels = 4 \<and> list_all (list_all is_ascii_digit) labels
          then Inl (InvalidBundle ''desktop endpoint'')
          else fail_if (list_ex (\<lambda>l. \<not> label_ok l) labels) (InvalidBundle ''desktop endpoint''))"

definition validate_seconds :: "u32 \<Rightarrow> string \<Rightarrow> SyncCodecError + unit" where
  "validate_seconds v name = fail_if (\<not> (1 \<le> v \<and> v \<le> 86400)) (InvalidBundle name)"

section \<open>Preferences\<close>

record 'v json_api =
  object_keys :: "'v \<Rightarrow> ustring list option"
  encoded_len :: "'v PortablePreferencesV1 \<Rightarrow> nat option"

definition GROUPS :: "(ustring \<times> ustring list) list" where
  "GROUPS =
     [(U ''application'',
       map U [''themePreference'', ''locale'', ''uiZoom'', ''terminalStartupBehavior'',
              ''newTerminalBehavior'', ''singlePaneTabCloseBehavior'']),
      (U ''appearance'',
       map U [''terminalThemeMode'', ''terminalFontFamily'', ''terminalFontSize'', ''terminalFontWeight'',
              ''terminalBoldFontWeight'', ''terminalLineHeight'', ''terminalLetterSpacing'',
              ''terminalCursorStyle'', ''terminalCursorBlink'', ''customTerminalPalette'',
              ''customTerminalPaletteName'']),
      (U ''interaction'', map U [''interaction'', ''pasteWarning'']),
      (U ''highlights'', map U [''enabled'', ''rules'']),
      (U ''shortcuts'', map U [''version'', ''bindings'']),
      (U ''files'', map U [''browser'', ''rememberLastDirectory'']),
      (U ''desktop'',
       map U [''windowCloseBehavior'', ''trayShowStatus'', ''trayRecentLimit'', ''trayShowHostNames'',
              ''notificationBackgroundOnly'', ''notificationFailureOnly'', ''notifyTransferCompleted'',
              ''notifyTransferFailed'', ''notifyDisconnected'']),
      (U ''commandNotifications'', map U [''notificationsEnabled'', ''notificationThresholdSeconds''])]"

definition validate_group ::
    "'v json_api \<Rightarrow> 'v PortablePreferencesV1 \<Rightarrow> ustring \<times> ustring list \<Rightarrow> SyncCodecError + unit" where
  "validate_group J p g =
     (case g of (grp, keys) \<Rightarrow>
        (case Option.bind (map_of (groups p) grp) (object_keys J) of
           None \<Rightarrow> Inl (InvalidBundle ''missing preferences group'')
         | Some ks \<Rightarrow>
             let optional_app_theme = (grp = U ''appearance'' \<and> U ''appTheme'' \<in> set ks) in
             fail_if (length ks \<noteq> length keys + (if optional_app_theme then 1 else 0) \<or>
                      list_ex (\<lambda>k. k \<notin> set keys \<and> \<not> (grp = U ''appearance'' \<and> k = U ''appTheme'')) ks)
               (InvalidBundle ''invalid preferences group shape'')))"

definition validate_preferences :: "'v json_api \<Rightarrow> 'v PortablePreferencesV1 \<Rightarrow> SyncCodecError + unit" where
  "validate_preferences J p =
     seq_checks
      [fail_if (product p \<noteq> U ''NoriShell'' \<or> version p \<noteq> 1 \<or> length (groups p) \<noteq> length GROUPS)
         (InvalidBundle ''invalid preferences transfer header''),
       (case encoded_len J p of
          None \<Rightarrow> Inl Serialization
        | Some n \<Rightarrow> fail_if (n > 256 * 1024) (BoundExceeded ''preferences'')),
       check_all (validate_group J p) GROUPS]"

section \<open>Objects\<close>

definition validate_host :: "PortableHost \<Rightarrow> SyncCodecError + unit" where
  "validate_host h =
     seq_checks
      [validate_text (host_label h) MAX_SMALL_TEXT_BYTES ''host label'',
       validate_text (host_address h) MAX_SMALL_TEXT_BYTES ''host address'',
       fail_if (host_port h = 0) (InvalidBundle ''host port must be positive''),
       validate_optional_text (host_username h) ''username'',
       validate_collection (length (host_tags h)) ''host tags'',
       check_all (\<lambda>t. validate_text t MAX_SMALL_TEXT_BYTES ''host tag'') (host_tags h)]"

definition validate_desktop :: "PortableDesktopProfile \<Rightarrow> SyncCodecError + unit" where
  "validate_desktop d =
     seq_checks
      [validate_desktop_label (desktop_label d),
       validate_desktop_endpoint (desktop_address d) (desktop_port d),
       validate_desktop_text (desktop_username d) ''desktop username'',
       validate_desktop_text (desktop_domain d) ''desktop domain'',
       fail_if (desktop_protocol d = Vnc \<and> desktop_audio_playback_enabled d)
         (InvalidBundle ''VNC desktop profiles cannot enable audio playback''),
       fail_if (desktop_protocol d = Rdp \<and>
                (desktop_vnc_protocol_version d \<noteq> VersionAuto \<or> desktop_vnc_resolution_mode d \<noteq> VncServer))
         (InvalidBundle ''RDP cannot select VNC options''),
       fail_if (desktop_protocol d = Vnc \<and>
                (desktop_rdp_transport_mode d \<noteq> TransportAuto \<or> desktop_rdp_graphics_mode d \<noteq> GraphicsAuto \<or>
                 desktop_rdp_resolution_mode d \<noteq> RdpFixed))
         (InvalidBundle ''VNC cannot select RDP transport, graphics or resolution modes''),
       fail_if (desktop_width d = 0 \<or> desktop_height d = 0 \<or> desktop_width d > 8192 \<or> desktop_height d > 8192 \<or>
                unat (desktop_width d) * unat (desktop_height d) > 16777216)
         (InvalidBundle ''invalid desktop dimensions'')]"

definition validate_identity :: "PortableIdentity \<Rightarrow> SyncCodecError + unit" where
  "validate_identity i =
     seq_checks
      [validate_text (identity_label i) MAX_SMALL_TEXT_BYTES ''identity label'',
       validate_optional_text (identity_username i) ''identity username'',
       validate_unique_ids (identity_credential_ids i) ''identity credentials'']"

definition validate_credential :: "PortableCredential \<Rightarrow> SyncCodecError + unit" where
  "validate_credential c =
     seq_checks
      [validate_text (credential_label c) MAX_SMALL_TEXT_BYTES ''credential label'',
       (case credential_material c of
          MaterialPassword _ \<Rightarrow> Inr ()
        | MaterialPrivateKey _ fp _ _ \<Rightarrow> validate_text fp MAX_SMALL_TEXT_BYTES ''public key fingerprint''
        | MaterialCertificate _ fp _ _ _ \<Rightarrow> validate_text fp MAX_SMALL_TEXT_BYTES ''public key fingerprint''
        | KeyboardInteractive rounds \<Rightarrow>
            fail_if (\<not> (1 \<le> rounds \<and> rounds \<le> 32))
              (InvalidBundle ''keyboard-interactive max rounds must be between 1 and 32''))]"

definition validate_proxy :: "ustring \<Rightarrow> u16 \<Rightarrow> ustring option \<Rightarrow> SyncCodecError + unit" where
  "validate_proxy h p u =
     seq_checks
      [validate_text h MAX_SMALL_TEXT_BYTES ''proxy host'',
       fail_if (p = 0) (InvalidBundle ''proxy port must be positive''),
       validate_optional_text u ''proxy username'']"

definition validate_route :: "PortableRoute \<Rightarrow> SyncCodecError + unit" where
  "validate_route r =
     seq_checks
      [validate_collection (length (route_jump_hops r)) ''jump hops'',
       fail_if (length (route_jump_hops r) > 5) (BoundExceeded ''jump hops''),
       (case route_ingress r of
          Direct \<Rightarrow> Inr ()
        | HttpConnect h p u _ \<Rightarrow> validate_proxy h p u
        | Socks5 h p u _ _ \<Rightarrow> validate_proxy h p u)]"

definition validate_algorithm_policy :: "PortableAlgorithmPolicy \<Rightarrow> SyncCodecError + unit" where
  "validate_algorithm_policy p =
     seq_checks
      [validate_text (algorithm_policy_id p) MAX_SMALL_TEXT_BYTES ''algorithm policy ID'',
       validate_collection (length (algorithm_exceptions p)) ''algorithm compatibility exceptions'',
       check_all (\<lambda>x. seq_checks
          [validate_text (exception_id x) MAX_SMALL_TEXT_BYTES ''algorithm compatibility exception ID'',
           validate_optional_text (exception_reason x) ''algorithm exception reason''])
         (algorithm_exceptions p)]"

definition validate_heartbeat_policy :: "PortableHeartbeatPolicy \<Rightarrow> SyncCodecError + unit" where
  "validate_heartbeat_policy p =
     (case heartbeat_mode p of
        HeartbeatDisabled \<Rightarrow> Inr ()
      | TransportKeepalive interval reply missed \<Rightarrow>
          seq_checks
           [validate_seconds interval ''keepalive interval'',
            validate_seconds reply ''keepalive timeout'',
            fail_if (missed = 0) (InvalidBundle ''max missed replies must be positive'')]
      | ShellHeartbeat interval idle payload _ \<Rightarrow>
          seq_checks
           [validate_seconds interval ''shell heartbeat interval'',
            validate_seconds idle ''shell heartbeat idle threshold'',
            validate_text payload MAX_LARGE_TEXT_BYTES ''shell heartbeat payload''])"

definition div_ceil :: "u32 \<Rightarrow> nat \<Rightarrow> nat" where
  "div_ceil x n = (unat x + n - 1) div n"

definition validate_monitoring_policy :: "PortableMonitoringPolicy \<Rightarrow> SyncCodecError + unit" where
  "validate_monitoring_policy p =
     seq_checks
      [validate_seconds (monitoring_interval_seconds p) ''monitoring interval'',
       validate_seconds (monitoring_timeout_seconds p) ''monitoring timeout'',
       (case (monitoring_interval_millis p, monitoring_timeout_millis p) of
          (None, None) \<Rightarrow> Inr ()
        | (Some interval, Some timeout) \<Rightarrow>
            fail_if (\<not> (1500 \<le> interval \<and> interval \<le> 300000 \<and> 500 \<le> timeout \<and> timeout \<le> 30000 \<and>
                        div_ceil interval 1000 = unat (monitoring_interval_seconds p) \<and>
                        div_ceil timeout 1000 = unat (monitoring_timeout_seconds p)))
              (InvalidBundle ''invalid monitoring duration'')
        | _ \<Rightarrow> Inl (InvalidBundle ''invalid monitoring duration'')),
       validate_collection (length (monitoring_resources p)) ''monitoring resources'']"

definition validate_step :: "LoginAutomationStep \<Rightarrow> SyncCodecError + unit" where
  "validate_step s =
     (case s of
        Expect pat secs \<Rightarrow>
          seq_checks [validate_text pat MAX_LARGE_TEXT_BYTES ''expect pattern'', validate_seconds secs ''expect timeout'']
      | SendText t _ secs \<Rightarrow>
          seq_checks [validate_text t MAX_LARGE_TEXT_BYTES ''send text'', validate_seconds secs ''send text timeout'']
      | SendSecret _ l _ secs \<Rightarrow>
          seq_checks [validate_text l MAX_SMALL_TEXT_BYTES ''send secret label'',
                      validate_seconds secs ''send secret timeout''])"

definition validate_login_automation :: "PortableLoginAutomation \<Rightarrow> SyncCodecError + unit" where
  "validate_login_automation a =
     seq_checks
      [validate_collection (length (login_steps a)) ''login automation steps'',
       check_all validate_step (login_steps a)]"

definition validate_objects :: "PortableObjects \<Rightarrow> SyncCodecError + unit" where
  "validate_objects os =
     seq_checks
      [check_all (\<lambda>(n, name). validate_count n name)
         [(length (hosts os), ''hosts''), (length (desktop_profiles os), ''desktop profiles''),
          (length (identities os), ''identities''), (length (credentials os), ''credentials''),
          (length (routes os), ''routes''), (length (authentication_plans os), ''authentication plans''),
          (length (algorithm_policies os), ''algorithm policies''),
          (length (heartbeat_policies os), ''heartbeat policies''),
          (length (monitoring_policies os), ''monitoring policies''),
          (length (login_automations os), ''login automations'')],
       check_all validate_host (hosts os),
       check_all validate_desktop (desktop_profiles os),
       check_all validate_identity (identities os),
       check_all validate_credential (credentials os),
       check_all validate_route (routes os),
       check_all (\<lambda>p. validate_unique_ids (plan_credential_ids p) ''authentication plan'') (authentication_plans os),
       check_all validate_algorithm_policy (algorithm_policies os),
       check_all validate_heartbeat_policy (heartbeat_policies os),
       check_all validate_monitoring_policy (monitoring_policies os),
       check_all validate_login_automation (login_automations os)]"

definition object_nodes :: "PortableObjects \<Rightarrow> ObjectNode list" where
  "object_nodes os =
     map (\<lambda>x. (Host, host_id x)) (hosts os) @
     map (\<lambda>x. (DesktopProfile, desktop_id x)) (desktop_profiles os) @
     map (\<lambda>x. (Identity, identity_id x)) (identities os) @
     map (\<lambda>x. (Credential, credential_id x)) (credentials os) @
     map (\<lambda>x. (Route, route_id x)) (routes os) @
     map (\<lambda>x. (AuthenticationPlan, plan_id x)) (authentication_plans os) @
     map (\<lambda>x. (AlgorithmPolicy, algorithm_id x)) (algorithm_policies os) @
     map (\<lambda>x. (HeartbeatPolicy, heartbeat_id x)) (heartbeat_policies os) @
     map (\<lambda>x. (MonitoringPolicy, monitoring_id x)) (monitoring_policies os) @
     map (\<lambda>x. (LoginAutomation, login_id x)) (login_automations os)"

definition object_ids :: "PortableObjects \<Rightarrow> PortableObjectId list" where
  "object_ids os =
     map host_id (hosts os) @ map desktop_id (desktop_profiles os) @ map identity_id (identities os) @
     map credential_id (credentials os) @ map route_id (routes os) @ map plan_id (authentication_plans os) @
     map algorithm_id (algorithm_policies os) @ map heartbeat_id (heartbeat_policies os) @
     map monitoring_id (monitoring_policies os) @ map login_id (login_automations os)"

definition objects_sort_by_id :: "PortableObjects \<Rightarrow> PortableObjects" where
  "objects_sort_by_id os =
     \<lparr>hosts = sort_key host_id (hosts os), desktop_profiles = sort_key desktop_id (desktop_profiles os),
      identities = sort_key identity_id (identities os), credentials = sort_key credential_id (credentials os),
      routes = sort_key route_id (routes os), authentication_plans = sort_key plan_id (authentication_plans os),
      algorithm_policies = sort_key algorithm_id (algorithm_policies os),
      heartbeat_policies = sort_key heartbeat_id (heartbeat_policies os),
      monitoring_policies = sort_key monitoring_id (monitoring_policies os),
      login_automations = sort_key login_id (login_automations os)\<rparr>"

section \<open>References\<close>

definition material_secret_refs :: "PortableCredentialMaterial \<Rightarrow> (PortableObjectId \<times> PortableSecretKind) list" where
  "material_secret_refs m =
     (case m of
        MaterialPassword s \<Rightarrow> [(s, SecretPassword)]
      | MaterialPrivateKey _ _ k ph \<Rightarrow>
          [(k, SecretPrivateKey)] @ (case ph of Some p \<Rightarrow> [(p, SecretPassphrase)] | None \<Rightarrow> [])
      | MaterialCertificate _ _ c k ph \<Rightarrow>
          [(c, SecretCertificate)] @ (case k of Some x \<Rightarrow> [(x, SecretPrivateKey)] | None \<Rightarrow> []) @
          (case ph of Some p \<Rightarrow> [(p, SecretPassphrase)] | None \<Rightarrow> [])
      | KeyboardInteractive _ \<Rightarrow> [])"

definition ingress_credential :: "RouteIngress \<Rightarrow> PortableObjectId option" where
  "ingress_credential i =
     (case i of Direct \<Rightarrow> None | HttpConnect _ _ _ c \<Rightarrow> c | Socks5 _ _ _ c _ \<Rightarrow> c)"

definition is_password :: "PortableCredentialMaterial \<Rightarrow> bool" where
  "is_password m = (case m of MaterialPassword _ \<Rightarrow> True | _ \<Rightarrow> False)"

definition opt_in :: "'a option \<Rightarrow> 'a set \<Rightarrow> bool" where
  "opt_in x S = (case x of None \<Rightarrow> True | Some y \<Rightarrow> y \<in> S)"

text \<open>A \<open>HashMap\<close> collected from pairs keeps the last value of a key.\<close>

definition collect_map :: "('k \<times> 'v) list \<Rightarrow> 'k \<Rightarrow> 'v option" where
  "collect_map kvs = map_of (rev kvs)"

definition credential_ref_ok :: "PortableObjects \<Rightarrow> PortableObjectId \<Rightarrow> bool" where
  "credential_ref_ok os cid =
     (case collect_map (map (\<lambda>c. (credential_id c, c)) (credentials os)) cid of
        None \<Rightarrow> False
      | Some c \<Rightarrow>
          is_password (credential_material c) \<and>
          (case collect_map (map (\<lambda>i. (identity_id i, identity_credential_ids i)) (identities os))
                  (credential_identity_id c) of
             None \<Rightarrow> False
           | Some ids \<Rightarrow> cid \<in> set ids))"

definition validate_references :: "'v PortableBundleV1 \<Rightarrow> SyncCodecError + unit" where
  "validate_references b =
     (let os = objects b;
          host_ids = host_id ` set (hosts os);
          identity_ids = identity_id ` set (identities os);
          credential_ids = credential_id ` set (credentials os);
          secret_kinds = collect_map (map (\<lambda>s. (secret_id s, secret_kind s)) (secrets b)) in
      seq_checks
       [check_all (\<lambda>h. fail_if
           (host_route_id h \<notin> route_id ` set (routes os) \<or>
            host_authentication_plan_id h \<notin> plan_id ` set (authentication_plans os) \<or>
            host_algorithm_policy_id h \<notin> algorithm_id ` set (algorithm_policies os) \<or>
            host_heartbeat_policy_id h \<notin> heartbeat_id ` set (heartbeat_policies os) \<or>
            host_monitoring_policy_id h \<notin> monitoring_id ` set (monitoring_policies os) \<or>
            \<not> opt_in (host_identity_id h) identity_ids \<or>
            \<not> opt_in (host_login_automation_id h) (login_id ` set (login_automations os)))
           DanglingObjectReference) (hosts os),
        check_all (\<lambda>d. fail_if
           (\<not> opt_in (desktop_host_id d) host_ids \<or> \<not> opt_in (desktop_gateway_host_id d) host_ids \<or>
            (case desktop_credential_id d of None \<Rightarrow> False | Some c \<Rightarrow> \<not> credential_ref_ok os c))
           DanglingObjectReference) (desktop_profiles os),
        check_all (\<lambda>i. fail_if (list_ex (\<lambda>c. c \<notin> credential_ids) (identity_credential_ids i))
           DanglingObjectReference) (identities os),
        check_all (\<lambda>c. fail_if
           (credential_identity_id c \<notin> identity_ids \<or>
            list_ex (\<lambda>(s, expected). secret_kinds s \<noteq> Some expected) (material_secret_refs (credential_material c)))
           DanglingObjectReference) (credentials os),
        check_all (\<lambda>r. fail_if
           (list_ex (\<lambda>hop. hop_host_id hop \<notin> host_ids) (route_jump_hops r) \<or>
            (case ingress_credential (route_ingress r) of
               None \<Rightarrow> False
             | Some c \<Rightarrow>
                 (case collect_map (map (\<lambda>c. (credential_id c, c)) (credentials os)) c of
                    None \<Rightarrow> True
                  | Some cr \<Rightarrow> \<not> is_password (credential_material cr))))
           DanglingObjectReference) (routes os),
        check_all (\<lambda>p. fail_if (list_ex (\<lambda>c. c \<notin> credential_ids) (plan_credential_ids p))
           DanglingObjectReference) (authentication_plans os),
        check_all (\<lambda>a. fail_if
           (list_ex (\<lambda>s. case s of SendSecret x _ _ _ \<Rightarrow> secret_kinds x \<noteq> Some SecretLoginAutomation | _ \<Rightarrow> False)
              (login_steps a))
           DanglingObjectReference) (login_automations os)])"

section \<open>Bundles\<close>

definition requires_desktop_mode_schema :: "'v PortableBundleV1 \<Rightarrow> bool" where
  "requires_desktop_mode_schema b =
     list_ex (\<lambda>d. desktop_rdp_transport_mode d \<noteq> TransportAuto \<or> desktop_rdp_graphics_mode d \<noteq> GraphicsAuto \<or>
                  desktop_rdp_resolution_mode d \<noteq> RdpFixed \<or> desktop_vnc_resolution_mode d \<noteq> VncServer)
       (desktop_profiles (objects b))"

definition present_nodes :: "'v PortableBundleV1 \<Rightarrow> ObjectNode list" where
  "present_nodes b =
     object_nodes (objects b) @ map (\<lambda>s. (Secret, secret_id s)) (secrets b) @
     map (\<lambda>t. (tombstone_kind t, tombstone_id t)) (tombstones b)"

definition all_ids :: "'v PortableBundleV1 \<Rightarrow> PortableObjectId list" where
  "all_ids b =
     object_ids (objects b) @ map secret_id (secrets b) @ map skipped_id (skipped_machine_bound b) @
     map tombstone_id (tombstones b)"

fun strictly_increasing :: "'a::linorder list \<Rightarrow> bool" where
  "strictly_increasing (x # y # ys) \<longleftrightarrow> x < y \<and> strictly_increasing (y # ys)"
| "strictly_increasing _ \<longleftrightarrow> True"

definition validate_selection :: "'v PortableBundleV1 \<Rightarrow> SyncCodecError + unit" where
  "validate_selection b =
     (case selected_categories b of
        None \<Rightarrow> Inr ()
      | Some selected \<Rightarrow>
          seq_checks
           [fail_if (schema b \<noteq> V6_bundle \<or> selected = [] \<or> length selected > 3 \<or> \<not> strictly_increasing selected)
              (InvalidBundle ''invalid selected categories''),
            fail_if (list_ex (\<lambda>(k, _). for_kind k \<notin> set selected) (present_nodes b))
              (InvalidBundle ''exchange contains an unselected category''),
            fail_if (Credentials \<notin> set selected \<and> skipped_machine_bound b \<noteq> [])
              (InvalidBundle ''exchange contains an unselected category'')])"

text \<open>\<open>HashSet::insert\<close> in a loop: each item is checked against those before it.\<close>

fun check_times :: "ObjectNode list \<Rightarrow> ObjectNode list \<Rightarrow> PortableItemUpdateTime list \<Rightarrow> SyncCodecError + unit" where
  "check_times present timed [] = Inr ()"
| "check_times present timed (t # ts) =
     (let node = (time_kind t, time_id t) in
      if update_time_unix_ms t \<le> 0 \<or> node \<notin> set present \<or> node \<in> set timed
      then Inl (InvalidBundle ''invalid item update time'')
      else check_times present (node # timed) ts)"

fun check_ids :: "PortableObjectId list \<Rightarrow> PortableObjectId list \<Rightarrow> SyncCodecError + unit" where
  "check_ids seen [] = Inr ()"
| "check_ids seen (i # is) =
     (if i = 0 then Inl (InvalidBundle ''portable object ID must not be nil'')
      else if i \<in> set seen then Inl DuplicateObjectId
      else check_ids (i # seen) is)"

definition preferences_check :: "'v json_api \<Rightarrow> 'v PortableBundleV1 \<Rightarrow> SyncCodecError + unit" where
  "preferences_check J b =
     (case (schema b, preferences b) of
        (V4_bundle, Some p) \<Rightarrow> validate_preferences J p
      | (V5, Some p) \<Rightarrow> validate_preferences J p
      | (V6_bundle, Some p) \<Rightarrow> validate_preferences J p
      | (V4_bundle, None) \<Rightarrow> Inl (InvalidBundle ''bundle v4/v5 requires preferences'')
      | (V5, None) \<Rightarrow> Inl (InvalidBundle ''bundle v4/v5 requires preferences'')
      | (_, Some _) \<Rightarrow> Inl (InvalidBundle ''preferences require bundle v4'')
      | (_, None) \<Rightarrow> Inr ())"

definition validate :: "'v json_api \<Rightarrow> 'v PortableBundleV1 \<Rightarrow> SyncCodecError + unit" where
  "validate J b =
     seq_checks
      [validate_selection b,
       fail_if (revision b = 0) (InvalidBundle ''revision must be positive''),
       validate_count (length (secrets b)) ''secrets'',
       validate_count (length (skipped_machine_bound b)) ''skipped objects'',
       validate_count (length (tombstones b)) ''tombstones'',
       fail_if (schema b = V1 \<and> tombstones b \<noteq> []) (InvalidBundle ''bundle v1 cannot contain tombstones''),
       fail_if (schema b \<noteq> V6_bundle \<and> requires_desktop_mode_schema b)
         (InvalidBundle ''desktop display modes require bundle v6''),
       fail_if (schema b \<notin> {V3, V4_bundle, V5, V6_bundle} \<and> desktop_profiles (objects b) \<noteq> [])
         (InvalidBundle ''desktop profiles require bundle v3''),
       fail_if (schema b \<notin> {V3, V4_bundle, V5, V6_bundle} \<and>
                list_ex (\<lambda>t. tombstone_kind t = DesktopProfile) (tombstones b))
         (InvalidBundle ''desktop profile tombstones require bundle v3''),
       preferences_check J b,
       validate_objects (objects b),
       fail_if (schema b \<notin> {V5, V6_bundle} \<and> (update_times b \<noteq> [] \<or> preference_update_times b \<noteq> []))
         (InvalidBundle ''update times require bundle v5''),
       fail_if (length (update_times b) > 12 * MAX_OBJECTS_PER_KIND) (BoundExceeded ''update times''),
       check_times (present_nodes b) [] (update_times b),
       check_all (\<lambda>(grp, time). fail_if
           (time \<le> 0 \<or> (case preferences b of None \<Rightarrow> True | Some p \<Rightarrow> grp \<notin> set (btree_keys (groups p))))
           (InvalidBundle ''invalid preference update time'')) (preference_update_times b),
       check_ids [] (all_ids b),
       check_all (\<lambda>s. fail_if (\<not> secret_selected_by_user s)
           (InvalidBundle ''secret payload was not explicitly selected by the user'')) (secrets b),
       validate_references b]"

definition validate_current_business_exchange :: "'v json_api \<Rightarrow> 'v PortableBundleV1 \<Rightarrow> SyncCodecError + unit" where
  "validate_current_business_exchange J b =
     seq_checks
      [validate J b,
       fail_if (schema b \<noteq> V6_bundle \<or> preferences b \<noteq> None \<or> preference_update_times b \<noteq> [])
         (InvalidBundle ''current exchange must contain only business data'')]"

definition canonicalized :: "'v json_api \<Rightarrow> 'v PortableBundleV1 \<Rightarrow> SyncCodecError + 'v PortableBundleV1" where
  "canonicalized J b =
     bind_result (validate J b) (\<lambda>_. Inr
       (b\<lparr>objects := objects_sort_by_id (objects b),
          secrets := sort_key secret_id (secrets b),
          skipped_machine_bound := sort_key skipped_id (skipped_machine_bound b),
          tombstones := sort_key (\<lambda>t. (tombstone_kind t, tombstone_id t)) (tombstones b),
          update_times := sort_key (\<lambda>t. (time_kind t, time_id t)) (update_times b)\<rparr>))"

section \<open>What the loops check\<close>

lemma check_ids_ok:
  "check_ids seen is = Inr u \<longleftrightarrow> distinct is \<and> 0 \<notin> set is \<and> set is \<inter> set seen = {}"
  by (induction seen "is" rule: check_ids.induct) auto

definition times_ok :: "ObjectNode set \<Rightarrow> PortableItemUpdateTime list \<Rightarrow> bool" where
  "times_ok present ts \<longleftrightarrow>
     distinct (map (\<lambda>t. (time_kind t, time_id t)) ts) \<and>
     (\<forall>t \<in> set ts. update_time_unix_ms t > 0 \<and> (time_kind t, time_id t) \<in> present)"

lemma check_times_ok:
  "check_times present timed ts = Inr u \<longleftrightarrow>
     times_ok (set present) ts \<and> (\<forall>t \<in> set ts. (time_kind t, time_id t) \<notin> set timed)"
proof (induction present timed ts rule: check_times.induct)
  case (2 present timed t ts)
  then show ?case by (auto simp: Let_def times_ok_def image_iff)
qed (simp add: times_ok_def)

lemma validate_iff:
  "validate J b = Inr () \<longleftrightarrow>
     validate_selection b = Inr () \<and> revision b \<noteq> 0 \<and>
     validate_count (length (secrets b)) ''secrets'' = Inr () \<and>
     validate_count (length (skipped_machine_bound b)) ''skipped objects'' = Inr () \<and>
     validate_count (length (tombstones b)) ''tombstones'' = Inr () \<and>
     \<not> (schema b = V1 \<and> tombstones b \<noteq> []) \<and>
     \<not> (schema b \<noteq> V6_bundle \<and> requires_desktop_mode_schema b) \<and>
     \<not> (schema b \<notin> {V3, V4_bundle, V5, V6_bundle} \<and> desktop_profiles (objects b) \<noteq> []) \<and>
     \<not> (schema b \<notin> {V3, V4_bundle, V5, V6_bundle} \<and>
          list_ex (\<lambda>t. tombstone_kind t = DesktopProfile) (tombstones b)) \<and>
     preferences_check J b = Inr () \<and> validate_objects (objects b) = Inr () \<and>
     \<not> (schema b \<notin> {V5, V6_bundle} \<and> (update_times b \<noteq> [] \<or> preference_update_times b \<noteq> [])) \<and>
     length (update_times b) \<le> 12 * MAX_OBJECTS_PER_KIND \<and>
     times_ok (set (present_nodes b)) (update_times b) \<and>
     (\<forall>(grp, time) \<in> set (preference_update_times b).
        \<not> (time \<le> 0 \<or> (case preferences b of None \<Rightarrow> True | Some p \<Rightarrow> grp \<notin> set (btree_keys (groups p))))) \<and>
     distinct (all_ids b) \<and> 0 \<notin> set (all_ids b) \<and>
     (\<forall>s \<in> set (secrets b). secret_selected_by_user s) \<and> validate_references b = Inr ()"
  unfolding validate_def
  by (simp only: seq_checks_ok list.set ball_simps insert_iff) (auto simp: result_simps check_ids_ok check_times_ok not_less split: prod.splits)


section \<open>Sorting by a key\<close>

lemma sort_key_unique:
  assumes "mset xs = mset ys" "distinct (map f xs)"
  shows "sort_key f xs = sort_key f ys"
proof -
  have s: "set xs = set ys" using assms(1) by (rule mset_eq_setD)
  have "mset (map f xs) = mset (map f ys)" using assms(1) by simp
  then have d: "distinct (map f ys)" using assms(2) mset_eq_imp_distinct_iff by blast
  have ds: "distinct (map f (sort_key f zs))" if "distinct (map f zs)" for zs
    using that by (metis mset_eq_imp_distinct_iff mset_map mset_sort)
  show ?thesis
    using map_sorted_distinct_set_unique [of f "sort_key f xs" "sort_key f ys"] ds [OF assms(2)] ds [OF d] s assms(2)
    by (simp add: distinct_map)
qed

lemma sort_key_idem: "sort_key f (sort_key f xs) = sort_key f xs"
  by (simp add: sort_key_id_if_sorted)

section \<open>Bundles with the same content\<close>

definition same_objects :: "PortableObjects \<Rightarrow> PortableObjects \<Rightarrow> bool" where
  "same_objects a b \<longleftrightarrow>
     mset (hosts a) = mset (hosts b) \<and> mset (desktop_profiles a) = mset (desktop_profiles b) \<and>
     mset (identities a) = mset (identities b) \<and> mset (credentials a) = mset (credentials b) \<and>
     mset (routes a) = mset (routes b) \<and> mset (authentication_plans a) = mset (authentication_plans b) \<and>
     mset (algorithm_policies a) = mset (algorithm_policies b) \<and>
     mset (heartbeat_policies a) = mset (heartbeat_policies b) \<and>
     mset (monitoring_policies a) = mset (monitoring_policies b) \<and>
     mset (login_automations a) = mset (login_automations b)"

definition same_content :: "'v PortableBundleV1 \<Rightarrow> 'v PortableBundleV1 \<Rightarrow> bool" where
  "same_content a b \<longleftrightarrow>
     schema a = schema b \<and> selected_categories a = selected_categories b \<and> revision a = revision b \<and>
     same_objects (objects a) (objects b) \<and> preferences a = preferences b \<and>
     mset (secrets a) = mset (secrets b) \<and> mset (skipped_machine_bound a) = mset (skipped_machine_bound b) \<and>
     mset (tombstones a) = mset (tombstones b) \<and> mset (update_times a) = mset (update_times b) \<and>
     preference_update_times a = preference_update_times b"

lemma check_all_mset: "mset xs = mset ys \<Longrightarrow> check_all f xs = Inr () \<longleftrightarrow> check_all f ys = Inr ()"
  by (auto simp: check_all_ok dest: mset_eq_setD)

lemma list_ex_mset: "mset xs = mset ys \<Longrightarrow> list_ex P xs \<longleftrightarrow> list_ex P ys"
  by (auto simp: list_ex_iff dest: mset_eq_setD)

lemma Nil_mset: "mset xs = mset ys \<Longrightarrow> xs = [] \<longleftrightarrow> ys = []"
  by auto

lemma object_nodes_mset: "same_objects a b \<Longrightarrow> mset (object_nodes a) = mset (object_nodes b)"
  by (simp add: same_objects_def object_nodes_def)

lemma present_nodes_mset: "same_content a b \<Longrightarrow> mset (present_nodes a) = mset (present_nodes b)"
  by (simp add: same_content_def present_nodes_def object_nodes_mset)

lemma all_ids_mset: "same_content a b \<Longrightarrow> mset (all_ids a) = mset (all_ids b)"
  by (simp add: same_content_def same_objects_def all_ids_def object_ids_def)

lemma collect_map_mset:
  assumes "mset xs = mset ys" "distinct (map fst xs)"
  shows "collect_map xs = collect_map ys"
proof -
  have "distinct (map fst ys)" using assms by (metis mset_eq_imp_distinct_iff mset_map)
  then have "map_of (rev xs) = map_of (rev ys) \<longleftrightarrow> set (rev xs) = set (rev ys)"
    using assms(2) by (intro map_of_inject_set) (simp_all flip: rev_map)
  with mset_eq_setD [OF assms(1)] show ?thesis by (simp add: collect_map_def)
qed

text \<open>Distinct IDs in a bundle are distinct in each of its lists.\<close>

lemma distinct_all_ids:
  assumes "distinct (all_ids b)"
  shows "distinct (map host_id (hosts (objects b)))" "distinct (map desktop_id (desktop_profiles (objects b)))"
    "distinct (map identity_id (identities (objects b)))" "distinct (map credential_id (credentials (objects b)))"
    "distinct (map route_id (routes (objects b)))" "distinct (map plan_id (authentication_plans (objects b)))"
    "distinct (map algorithm_id (algorithm_policies (objects b)))"
    "distinct (map heartbeat_id (heartbeat_policies (objects b)))"
    "distinct (map monitoring_id (monitoring_policies (objects b)))"
    "distinct (map login_id (login_automations (objects b)))"
    "distinct (map secret_id (secrets b))" "distinct (map skipped_id (skipped_machine_bound b))"
    "distinct (map tombstone_id (tombstones b))"
  using assms by (simp_all only: all_ids_def object_ids_def distinct_append)

lemma same_objects_sets:
  assumes "same_objects a b"
  shows "set (hosts a) = set (hosts b)"
    "set (desktop_profiles a) = set (desktop_profiles b)"
    "set (identities a) = set (identities b)"
    "set (credentials a) = set (credentials b)"
    "set (routes a) = set (routes b)"
    "set (authentication_plans a) = set (authentication_plans b)"
    "set (algorithm_policies a) = set (algorithm_policies b)"
    "set (heartbeat_policies a) = set (heartbeat_policies b)"
    "set (monitoring_policies a) = set (monitoring_policies b)"
    "set (login_automations a) = set (login_automations b)"
  using assms unfolding same_objects_def by - (elim conjE, erule mset_eq_setD)+

lemma same_objects_lengths:
  assumes "same_objects a b"
  shows "length (hosts a) = length (hosts b)"
    "length (desktop_profiles a) = length (desktop_profiles b)"
    "length (identities a) = length (identities b)"
    "length (credentials a) = length (credentials b)"
    "length (routes a) = length (routes b)"
    "length (authentication_plans a) = length (authentication_plans b)"
    "length (algorithm_policies a) = length (algorithm_policies b)"
    "length (heartbeat_policies a) = length (heartbeat_policies b)"
    "length (monitoring_policies a) = length (monitoring_policies b)"
    "length (login_automations a) = length (login_automations b)"
  using assms unfolding same_objects_def by - (elim conjE, erule mset_eq_length)+

lemma validate_references_mset:
  assumes "same_content a b" "distinct (all_ids a)"
  shows "validate_references a = Inr () \<longleftrightarrow> validate_references b = Inr ()"
proof -
  note d = distinct_all_ids [OF assms(2)]
  from assms(1) have ms: "same_objects (objects a) (objects b)" "mset (secrets a) = mset (secrets b)"
    by (simp_all add: same_content_def)
  note sets = same_objects_sets [OF ms(1)]
  have maps: "collect_map (map (\<lambda>c. (credential_id c, c)) (credentials (objects a))) =
      collect_map (map (\<lambda>c. (credential_id c, c)) (credentials (objects b)))"
    "collect_map (map (\<lambda>i. (identity_id i, identity_credential_ids i)) (identities (objects a))) =
      collect_map (map (\<lambda>i. (identity_id i, identity_credential_ids i)) (identities (objects b)))"
    "collect_map (map (\<lambda>s. (secret_id s, secret_kind s)) (secrets a)) =
      collect_map (map (\<lambda>s. (secret_id s, secret_kind s)) (secrets b))"
    using ms d by (intro collect_map_mset; simp add: same_objects_def comp_def)+
  show ?thesis
    unfolding validate_references_def Let_def credential_ref_ok_def
    by (simp only: seq_checks_ok list.set ball_simps insert_iff check_all_ok fail_if_ok sets maps)
qed

lemma validate_objects_mset:
  assumes "same_objects a b"
  shows "validate_objects a = Inr () \<longleftrightarrow> validate_objects b = Inr ()"
  unfolding validate_objects_def
  by (simp only: seq_checks_ok list.set ball_simps insert_iff check_all_ok
      same_objects_sets [OF assms] same_objects_lengths [OF assms])

lemma times_ok_mset: "mset ts = mset us \<Longrightarrow> times_ok P ts \<longleftrightarrow> times_ok P us"
proof -
  assume m: "mset ts = mset us"
  then have "distinct (map (\<lambda>t. (time_kind t, time_id t)) ts) \<longleftrightarrow> distinct (map (\<lambda>t. (time_kind t, time_id t)) us)"
    by (intro mset_eq_imp_distinct_iff) simp
  with mset_eq_setD [OF m] show ?thesis by (simp add: times_ok_def)
qed

lemma validate_mset:
  assumes "same_content a b" "validate J a = Inr ()"
  shows "validate J b = Inr ()"
proof -
  from assms(2) have d: "distinct (all_ids a)" by (simp add: validate_iff)
  from assms(1) have eq: "schema a = schema b" "selected_categories a = selected_categories b" "revision a = revision b"
      "preferences a = preferences b" "preference_update_times a = preference_update_times b"
    and o: "same_objects (objects a) (objects b)"
    and m: "mset (secrets a) = mset (secrets b)" "mset (skipped_machine_bound a) = mset (skipped_machine_bound b)"
      "mset (tombstones a) = mset (tombstones b)" "mset (update_times a) = mset (update_times b)"
    by (simp_all add: same_content_def)
  have sel: "validate_selection a = Inr () \<longleftrightarrow> validate_selection b = Inr ()"
    unfolding validate_selection_def using eq Nil_mset [OF m(2)] list_ex_mset [OF present_nodes_mset [OF assms(1)]]
    by (simp split: option.splits)
  have modes: "requires_desktop_mode_schema a \<longleftrightarrow> requires_desktop_mode_schema b"
    unfolding requires_desktop_mode_schema_def using o by (intro list_ex_mset) (simp add: same_objects_def)
  have prefs: "preferences_check J a = preferences_check J b" by (simp add: preferences_check_def eq)
  have ids: "distinct (all_ids a) \<longleftrightarrow> distinct (all_ids b)" "set (all_ids a) = set (all_ids b)"
    using all_ids_mset [OF assms(1)] by (simp_all add: mset_eq_imp_distinct_iff [OF all_ids_mset [OF assms(1)]] mset_eq_setD [OF all_ids_mset [OF assms(1)]])
  have desk: "desktop_profiles (objects a) = [] \<longleftrightarrow> desktop_profiles (objects b) = []"
    using o by (intro Nil_mset) (simp add: same_objects_def)
  have set: "set (present_nodes a) = set (present_nodes b)"
    using present_nodes_mset [OF assms(1)] by (rule mset_eq_setD)
  have nil: "tombstones a = [] \<longleftrightarrow> tombstones b = []" "update_times a = [] \<longleftrightarrow> update_times b = []"
    using Nil_mset m by auto
  have len: "length (secrets a) = length (secrets b)" "length (tombstones a) = length (tombstones b)"
    "length (skipped_machine_bound a) = length (skipped_machine_bound b)"
    "length (update_times a) = length (update_times b)" using m by - (erule mset_eq_length)+
  show ?thesis
    using assms(2)
    unfolding validate_iff sel modes prefs ids desk set nil len eq mset_eq_setD [OF m(1)] list_ex_mset [OF m(3)]
      times_ok_mset [OF m(4)] validate_objects_mset [OF o] validate_references_mset [OF assms(1) d] .
qed

lemma canonical_same_content:
  assumes "canonicalized J b = Inr c"
  shows "same_content b c" "validate J b = Inr ()"
  using assms
  by (auto simp: canonicalized_def result_simps same_content_def same_objects_def objects_sort_by_id_def)

lemma objects_sort_unique:
  assumes "same_objects (objects a) (objects b)" "distinct (all_ids a)"
  shows "objects_sort_by_id (objects a) = objects_sort_by_id (objects b)"
  using distinct_all_ids [OF assms(2)] assms(1)
  by (simp add: objects_sort_by_id_def same_objects_def sort_key_unique)

lemma canonicalized_unique:
  assumes "same_content a b" "validate J a = Inr ()"
  shows "canonicalized J a = canonicalized J b"
proof -
  have v: "validate J b = Inr ()" by (rule validate_mset [OF assms])
  have d: "distinct (all_ids a)" "distinct (map (\<lambda>t. (time_kind t, time_id t)) (update_times a))"
    using assms(2) by (simp_all add: validate_iff times_ok_def)
  note ids = distinct_all_ids [OF d(1)]
  have t: "distinct (map (\<lambda>t. (tombstone_kind t, tombstone_id t)) (tombstones a))"
    using ids(13) by (auto simp: distinct_map inj_on_def)
  from assms(1) have m: "mset (secrets a) = mset (secrets b)" "mset (skipped_machine_bound a) = mset (skipped_machine_bound b)"
      "mset (tombstones a) = mset (tombstones b)" "mset (update_times a) = mset (update_times b)"
    and o: "same_objects (objects a) (objects b)" by (simp_all add: same_content_def)
  note s = objects_sort_unique [OF o d(1)] sort_key_unique [OF m(1) ids(11)] sort_key_unique [OF m(2) ids(12)]
    sort_key_unique [OF m(3) t] sort_key_unique [OF m(4) d(2)]
  show ?thesis
    unfolding canonicalized_def assms(2) v bind_result_Inr sum.inject
    by (rule PortableBundleV1.equality) (use s assms(1) in \<open>simp_all add: same_content_def\<close>)
qed

section \<open>Properties\<close>

text \<open>
  (C31) The canonical form is a normal form: bundles that hold the same objects in any order have
  the same canonical form, which holds the same objects, is valid, and is its own canonical form.
  In particular validity does not depend on the order of the objects.
\<close>

theorem canonical_form:
  assumes "validate J a = Inr ()" "same_content a b"
  shows "\<exists>c. canonicalized J a = Inr c \<and> canonicalized J b = Inr c \<and> same_content a c \<and>
    validate J b = Inr () \<and> validate J c = Inr () \<and> canonicalized J c = Inr c"
proof -
  obtain c where c: "canonicalized J a = Inr c" using assms(1) by (simp add: canonicalized_def)
  note sc = canonical_same_content(1) [OF c]
  from canonicalized_unique [OF sc assms(1)] canonicalized_unique [OF assms(2,1)] c
    validate_mset [OF sc assms(1)] validate_mset [OF assms(2,1)] sc
  show ?thesis by metis
qed

definition sample_json :: "unit json_api" where
  "sample_json = \<lparr>object_keys = (\<lambda>_. None), encoded_len = (\<lambda>_. None)\<rparr>"

definition sample_secret :: "PortableObjectId \<Rightarrow> PortableSecret" where
  "sample_secret i =
     \<lparr>secret_id = i, secret_kind = SecretLoginAutomation, secret_selected_by_user = True, secret_payload = [1]\<rparr>"

definition sample_bundle :: "PortableSecret list \<Rightarrow> unit PortableBundleV1" where
  "sample_bundle ss =
     \<lparr>schema = V6_bundle, selected_categories = None, revision = 1,
      objects = \<lparr>hosts = [], desktop_profiles = [], identities = [], credentials = [], routes = [],
        authentication_plans = [], algorithm_policies = [], heartbeat_policies = [],
        monitoring_policies = [], login_automations = []\<rparr>,
      preferences = None, secrets = ss, skipped_machine_bound = [],
      tombstones = [\<lparr>tombstone_kind = Host, tombstone_id = 9\<rparr>],
      update_times = [\<lparr>time_kind = Secret, time_id = 3, update_time_unix_ms = 7\<rparr>],
      preference_update_times = []\<rparr>"

theorem canonical_form_witness:
  "\<exists>c. canonicalized sample_json (sample_bundle [sample_secret 5, sample_secret 3]) = Inr c \<and>
     canonicalized sample_json (sample_bundle [sample_secret 3, sample_secret 5]) = Inr c \<and>
     canonicalized sample_json c = Inr c"
proof -
  have "validate sample_json (sample_bundle [sample_secret 5, sample_secret 3]) = Inr ()" by code_simp
  moreover have "same_content (sample_bundle [sample_secret 5, sample_secret 3]) (sample_bundle [sample_secret 3, sample_secret 5])"
    by (simp add: same_content_def sample_bundle_def same_objects_def)
  ultimately show ?thesis using canonical_form by blast
qed

end
