(* ===== verification/SyncGraph.thy ===== *)
theory SyncGraph
  imports SyncValidate
begin

text \<open>
  The dependency graph of bundles in \<open>crates/ssh-profile-sync/src/merge.rs\<close>: the edges each bundle
  contributes, the graph they are collected in, the closure of a set of nodes by the worklist loop
  of \<open>expand_conflict_closure\<close>, and the check that no object is unreachable.
\<close>

section \<open>Edges\<close>

definition host_edges :: "PortableHost \<Rightarrow> (ObjectNode \<times> ObjectNode) list" where
  "host_edges h =
     map (Pair (Host, host_id h))
       ([(Route, host_route_id h), (AuthenticationPlan, host_authentication_plan_id h),
         (AlgorithmPolicy, host_algorithm_policy_id h), (HeartbeatPolicy, host_heartbeat_policy_id h),
         (MonitoringPolicy, host_monitoring_policy_id h)] @
        (case host_identity_id h of Some i \<Rightarrow> [(Identity, i)] | None \<Rightarrow> []) @
        (case host_login_automation_id h of Some i \<Rightarrow> [(LoginAutomation, i)] | None \<Rightarrow> []))"

definition desktop_edges :: "PortableDesktopProfile \<Rightarrow> (ObjectNode \<times> ObjectNode) list" where
  "desktop_edges d =
     map (Pair (DesktopProfile, desktop_id d))
       ((case desktop_host_id d of Some i \<Rightarrow> [(Host, i)] | None \<Rightarrow> []) @
        (case desktop_gateway_host_id d of Some i \<Rightarrow> [(Host, i)] | None \<Rightarrow> []) @
        (case desktop_credential_id d of Some i \<Rightarrow> [(Credential, i)] | None \<Rightarrow> []))"

definition identity_edges :: "PortableIdentity \<Rightarrow> (ObjectNode \<times> ObjectNode) list" where
  "identity_edges i = map (\<lambda>c. ((Identity, identity_id i), (Credential, c))) (identity_credential_ids i)"

definition plan_edges :: "PortableAuthenticationPlan \<Rightarrow> (ObjectNode \<times> ObjectNode) list" where
  "plan_edges p = map (\<lambda>c. ((AuthenticationPlan, plan_id p), (Credential, c))) (plan_credential_ids p)"

definition material_secret_ids :: "PortableCredentialMaterial \<Rightarrow> PortableObjectId list" where
  "material_secret_ids m =
     (case m of
        MaterialPassword s \<Rightarrow> [s]
      | MaterialPrivateKey _ _ k ph \<Rightarrow> [k] @ (case ph of Some p \<Rightarrow> [p] | None \<Rightarrow> [])
      | MaterialCertificate _ _ c k ph \<Rightarrow>
          [c] @ (case k of Some x \<Rightarrow> [x] | None \<Rightarrow> []) @ (case ph of Some p \<Rightarrow> [p] | None \<Rightarrow> [])
      | KeyboardInteractive _ \<Rightarrow> [])"

definition credential_edges :: "PortableCredential \<Rightarrow> (ObjectNode \<times> ObjectNode) list" where
  "credential_edges c =
     map (Pair (Credential, credential_id c))
       ((Identity, credential_identity_id c) # map (Pair Secret) (material_secret_ids (credential_material c)))"

definition route_edges :: "PortableRoute \<Rightarrow> (ObjectNode \<times> ObjectNode) list" where
  "route_edges r =
     map (Pair (Route, route_id r))
       (map (\<lambda>hop. (Host, hop_host_id hop)) (route_jump_hops r) @
        (case ingress_credential (route_ingress r) of Some i \<Rightarrow> [(Credential, i)] | None \<Rightarrow> []))"

definition step_secrets :: "LoginAutomationStep list \<Rightarrow> PortableObjectId list" where
  "step_secrets ss = concat (map (\<lambda>s. case s of SendSecret i _ _ _ \<Rightarrow> [i] | _ \<Rightarrow> []) ss)"

definition login_edges :: "PortableLoginAutomation \<Rightarrow> (ObjectNode \<times> ObjectNode) list" where
  "login_edges a = map (\<lambda>i. ((LoginAutomation, login_id a), (Secret, i))) (step_secrets (login_steps a))"

definition bundle_edges :: "'v PortableBundleV1 \<Rightarrow> (ObjectNode \<times> ObjectNode) list" where
  "bundle_edges b =
     (let os = objects b in
      concat (map host_edges (hosts os)) @ concat (map desktop_edges (desktop_profiles os)) @
      concat (map identity_edges (identities os)) @ concat (map plan_edges (authentication_plans os)) @
      concat (map credential_edges (credentials os)) @ concat (map route_edges (routes os)) @
      concat (map login_edges (login_automations os)))"

section \<open>The graph\<close>

type_synonym graph = "(ObjectNode \<times> ObjectNode list) list"

fun sorted_insert :: "'a::linorder \<Rightarrow> 'a list \<Rightarrow> 'a list" where
  "sorted_insert x [] = [x]"
| "sorted_insert x (y # ys) =
     (if x < y then x # y # ys else if x = y then y # ys else y # sorted_insert x ys)"

definition neighbours :: "graph \<Rightarrow> ObjectNode \<Rightarrow> ObjectNode list" where
  "neighbours g n = (case map_of g n of None \<Rightarrow> [] | Some ns \<Rightarrow> ns)"

definition add_arc :: "ObjectNode \<Rightarrow> ObjectNode \<Rightarrow> graph \<Rightarrow> graph" where
  "add_arc x y g = btree_insert x (sorted_insert y (neighbours g x)) g"

definition add_edge :: "ObjectNode \<times> ObjectNode \<Rightarrow> graph \<Rightarrow> graph" where
  "add_edge e g = (case e of (left, right) \<Rightarrow> add_arc right left (add_arc left right g))"

definition add_bundle_edges :: "'v PortableBundleV1 \<Rightarrow> graph \<Rightarrow> graph" where
  "add_bundle_edges b g = fold add_edge (bundle_edges b) g"

definition bundles_graph :: "'v PortableBundleV1 list \<Rightarrow> graph" where
  "bundles_graph bs = fold add_bundle_edges bs []"

section \<open>Closure\<close>

text \<open>The inner loop: neighbours that are new enter the closure and the queue.\<close>

fun visit :: "ObjectNode list \<Rightarrow> ObjectNode list \<Rightarrow> ObjectNode list \<Rightarrow> ObjectNode list \<times> ObjectNode list" where
  "visit [] closure queue = (closure, queue)"
| "visit (n # ns) closure queue =
     (if n \<in> set closure then visit ns closure queue
      else visit ns (sorted_insert n closure) (queue @ [n]))"

definition graph_nodes :: "graph \<Rightarrow> ObjectNode set" where
  "graph_nodes g = set (concat (map snd g))"

lemma set_sorted_insert [simp]: "set (sorted_insert x xs) = insert x (set xs)"
  by (induction xs) auto

lemma visit_spec:
  "visit ns closure queue = (closure', queue') \<Longrightarrow>
   set closure' = set closure \<union> set ns \<and>
   (\<exists>new. queue' = queue @ new \<and> set new = set ns - set closure \<and> distinct new)"
proof (induction ns closure queue rule: visit.induct)
  case (2 n ns closure queue)
  show ?case
  proof (cases "n \<in> set closure")
    case True
    with 2 show ?thesis by auto
  next
    case False
    with 2 obtain new where "set closure' = insert n (set closure) \<union> set ns"
      "queue' = queue @ n # new" "set new = set ns - insert n (set closure)" "distinct new" by auto
    with False show ?thesis by (intro conjI exI [of _ "n # new"]) auto
  qed
qed simp

lemma neighbours_nodes: "set (neighbours g n) \<subseteq> graph_nodes g"
proof (cases "map_of g n")
  case (Some ns)
  from map_of_SomeD [OF this] Some show ?thesis by (force simp: neighbours_def graph_nodes_def)
qed (simp add: neighbours_def)

function expand :: "graph \<Rightarrow> ObjectNode list \<Rightarrow> ObjectNode list \<Rightarrow> ObjectNode list" where
  "expand g closure [] = closure"
| "expand g closure (n # queue) =
     (case visit (neighbours g n) closure queue of (closure', queue') \<Rightarrow> expand g closure' queue')"
  by pat_completeness auto
termination
proof (relation "measure (\<lambda>(g, closure, queue). 2 * card (graph_nodes g - set closure) + length queue)")
  fix g closure n queue closure' queue'
  assume "(closure', queue') = visit (neighbours g n) closure queue"
  then obtain new where c: "set closure' = set closure \<union> set (neighbours g n)" and q: "queue' = queue @ new"
    "set new = set (neighbours g n) - set closure" "distinct new" using visit_spec by metis
  let ?U = "graph_nodes g"
  have fin: "finite ?U" by (simp add: graph_nodes_def)
  have sub: "set new \<subseteq> ?U - set closure" using q(2) neighbours_nodes by blast
  have "?U - set closure' = (?U - set closure) - set new" using c q(2) by blast
  then have "card (?U - set closure') = card (?U - set closure) - length new"
    using sub fin q(3) by (simp add: card_Diff_subset distinct_card)
  moreover have "length new \<le> card (?U - set closure)"
    using card_mono [OF _ sub] fin q(3) by (simp add: distinct_card)
  ultimately show "((g, closure', queue'), (g, closure, n # queue)) \<in>
      measure (\<lambda>(g, closure, queue). 2 * card (graph_nodes g - set closure) + length queue)"
    using q(1) by auto
qed simp

declare expand.simps(2) [simp del]

definition expand_conflict_closure :: "'v PortableBundleV1 list \<Rightarrow> ObjectNode list \<Rightarrow> ObjectNode list" where
  "expand_conflict_closure bs conflicts = expand (bundles_graph bs) conflicts conflicts"

section \<open>Reverse reachability\<close>

definition host_children :: "PortableObjects \<Rightarrow> ObjectNode set" where
  "host_children os =
     set (concat (map (\<lambda>h.
       [(Route, host_route_id h), (AuthenticationPlan, host_authentication_plan_id h),
        (AlgorithmPolicy, host_algorithm_policy_id h), (HeartbeatPolicy, host_heartbeat_policy_id h),
        (MonitoringPolicy, host_monitoring_policy_id h)] @
       (case host_login_automation_id h of Some i \<Rightarrow> [(LoginAutomation, i)] | None \<Rightarrow> [])) (hosts os)))"

definition referenced_credentials :: "PortableObjects \<Rightarrow> PortableObjectId set" where
  "referenced_credentials os =
     set (concat (map identity_credential_ids (identities os)) @
          concat (map plan_credential_ids (authentication_plans os)) @
          concat (map (\<lambda>r. case ingress_credential (route_ingress r) of Some i \<Rightarrow> [i] | None \<Rightarrow> []) (routes os)) @
          concat (map (\<lambda>d. case desktop_credential_id d of Some i \<Rightarrow> [i] | None \<Rightarrow> []) (desktop_profiles os)))"

definition referenced_secrets :: "PortableObjects \<Rightarrow> PortableObjectId set" where
  "referenced_secrets os =
     set (concat (map (\<lambda>c. material_secret_ids (credential_material c)) (credentials os)) @
          concat (map (\<lambda>a. step_secrets (login_steps a)) (login_automations os)))"

definition validate_reverse_reachability :: "'v PortableBundleV1 \<Rightarrow> SyncCodecError + unit" where
  "validate_reverse_reachability b =
     (let os = objects b in
      seq_checks
       [check_all (\<lambda>(kind, ids). fail_if (list_ex (\<lambda>i. (kind, i) \<notin> host_children os) ids) DanglingObjectReference)
          [(Route, map route_id (routes os)), (AuthenticationPlan, map plan_id (authentication_plans os)),
           (AlgorithmPolicy, map algorithm_id (algorithm_policies os)),
           (HeartbeatPolicy, map heartbeat_id (heartbeat_policies os)),
           (MonitoringPolicy, map monitoring_id (monitoring_policies os)),
           (LoginAutomation, map login_id (login_automations os))],
        fail_if (list_ex (\<lambda>c. credential_id c \<notin> referenced_credentials os) (credentials os)) DanglingObjectReference,
        fail_if (list_ex (\<lambda>s. secret_id s \<notin> referenced_secrets os) (secrets b)) DanglingObjectReference])"

section \<open>The graph holds exactly the edges, in both directions\<close>

lemma neighbours_add_arc:
  "btree_ok g \<Longrightarrow> set (neighbours (add_arc x y g) n) = (if n = x then insert y (set (neighbours g n)) else set (neighbours g n))"
  by (cases "n = x") (simp_all only: add_arc_def neighbours_def map_of_btree_insert fun_upd_apply
    simp_thms if_True if_False option.case set_sorted_insert)

lemma add_arc_ok: "btree_ok g \<Longrightarrow> btree_ok (add_arc x y g)"
  by (simp add: add_arc_def btree_insert_ok)

lemma add_edge_ok: "btree_ok g \<Longrightarrow> btree_ok (add_edge e g)"
  by (cases e) (simp add: add_edge_def add_arc_ok)

lemma neighbours_add_edge:
  "btree_ok g \<Longrightarrow> m \<in> set (neighbours (add_edge e g) n) \<longleftrightarrow>
     m \<in> set (neighbours g n) \<or> e = (n, m) \<or> e = (m, n)"
  by (cases e) (auto simp: add_edge_def neighbours_add_arc add_arc_ok split: if_splits)

lemma fold_add_edge:
  "btree_ok g \<Longrightarrow> btree_ok (fold add_edge es g) \<and>
     (m \<in> set (neighbours (fold add_edge es g) n) \<longleftrightarrow>
        m \<in> set (neighbours g n) \<or> (n, m) \<in> set es \<or> (m, n) \<in> set es)"
  by (induction es arbitrary: g) (auto simp: add_edge_ok neighbours_add_edge)

definition linked :: "'v PortableBundleV1 list \<Rightarrow> (ObjectNode \<times> ObjectNode) set" where
  "linked bs = {(n, m). \<exists>b \<in> set bs. (n, m) \<in> set (bundle_edges b) \<or> (m, n) \<in> set (bundle_edges b)}"

lemma bundles_graph_eq: "bundles_graph bs = fold add_edge (concat (map bundle_edges bs)) []"
proof -
  have "fold add_bundle_edges bs g = fold add_edge (concat (map bundle_edges bs)) g" for g
    by (induction bs arbitrary: g) (simp_all add: add_bundle_edges_def)
  then show ?thesis by (simp add: bundles_graph_def)
qed

lemma neighbours_bundles_graph: "m \<in> set (neighbours (bundles_graph bs) n) \<longleftrightarrow> (n, m) \<in> linked bs"
proof -
  have "btree_ok ([] :: graph)" by (simp add: btree_ok_def)
  from fold_add_edge [OF this, of "concat (map bundle_edges bs)" m n] show ?thesis
    by (auto simp: bundles_graph_eq linked_def neighbours_def)
qed

section \<open>The closure is reachability\<close>

text \<open>
  The worklist invariant: every node of the closure that is not queued has all its neighbours in
  the closure. It makes the result the least set that contains the start and is closed.
\<close>

lemma expand_reaches:
  assumes "set queue \<subseteq> set closure" "\<And>n. n \<in> set closure \<Longrightarrow> n \<notin> set queue \<Longrightarrow> set (neighbours g n) \<subseteq> set closure"
  shows "set (expand g closure queue) = {(n, m). m \<in> set (neighbours g n)}\<^sup>* `` set closure"
  using assms
proof (induction g closure queue rule: expand.induct)
  case (1 g closure)
  let ?R = "{(n, m). m \<in> set (neighbours g n)}"
  have "m \<in> set closure" if "(n, m) \<in> ?R\<^sup>*" "n \<in> set closure" for n m
    using that by (induction rule: rtrancl_induct) (use 1 in auto)
  then show ?case by auto
next
  case (2 g closure n queue)
  let ?R = "{(n, m). m \<in> set (neighbours g n)}"
  obtain closure' queue' where v: "visit (neighbours g n) closure queue = (closure', queue')" by force
  from visit_spec [OF v] obtain new where c: "set closure' = set closure \<union> set (neighbours g n)"
    and q: "queue' = queue @ new" "set new = set (neighbours g n) - set closure" by blast
  have "set (expand g closure' queue') = ?R\<^sup>* `` set closure'"
  proof (rule "2.IH" [OF v [symmetric]])
    show "set queue' \<subseteq> set closure'" using "2.prems"(1) c q by auto
    show "set (neighbours g m) \<subseteq> set closure'" if "m \<in> set closure'" "m \<notin> set queue'" for m
    proof (cases "m = n")
      case False
      from that c q have "m \<in> set closure" "m \<notin> set queue" by auto
      with "2.prems"(2) [of m] False c show ?thesis by auto
    qed (use c in simp)
  qed
  moreover have "?R\<^sup>* `` set closure' = ?R\<^sup>* `` set closure"
  proof -
    have "?R\<^sup>* `` set (neighbours g n) \<subseteq> ?R\<^sup>* `` set closure"
    proof
      fix m assume "m \<in> ?R\<^sup>* `` set (neighbours g n)"
      then obtain k where "k \<in> set (neighbours g n)" "(k, m) \<in> ?R\<^sup>*" by auto
      then have "(n, m) \<in> ?R\<^sup>*" by (auto intro: converse_rtrancl_into_rtrancl)
      then show "m \<in> ?R\<^sup>* `` set closure" using "2.prems"(1) by auto
    qed
    with c show ?thesis by (simp add: Image_Un) blast
  qed
  ultimately show ?case using v by (simp add: expand.simps(2))
qed

lemma expand_conflict_closure_reaches:
  "set (expand_conflict_closure bs conflicts) = (linked bs)\<^sup>* `` set conflicts"
proof -
  have "{(n, m). m \<in> set (neighbours (bundles_graph bs) n)} = linked bs"
    by (auto simp: neighbours_bundles_graph)
  with expand_reaches [of conflicts conflicts "bundles_graph bs"] show ?thesis
    by (simp add: expand_conflict_closure_def)
qed

lemma linked_sym: "sym (linked bs)"
  by (auto simp: linked_def sym_def)

section \<open>Edges of a valid bundle\<close>

definition live_nodes :: "'v PortableBundleV1 \<Rightarrow> ObjectNode set" where
  "live_nodes b = set (object_nodes (objects b)) \<union> Pair Secret ` secret_id ` set (secrets b)"

lemma collect_map_Some: "collect_map (map (\<lambda>x. (f x, g x)) xs) k = Some v \<Longrightarrow> \<exists>x \<in> set xs. f x = k \<and> g x = v"
  unfolding collect_map_def by (drule map_of_SomeD) auto

lemma material_refs_ids: "map fst (material_secret_refs m) = material_secret_ids m"
  by (cases m) (auto simp: material_secret_refs_def material_secret_ids_def split: option.splits)

lemma live_object_nodes:
  "h \<in> set (hosts (objects b)) \<Longrightarrow> (Host, host_id h) \<in> live_nodes b"
  "d \<in> set (desktop_profiles (objects b)) \<Longrightarrow> (DesktopProfile, desktop_id d) \<in> live_nodes b"
  "i \<in> set (identities (objects b)) \<Longrightarrow> (Identity, identity_id i) \<in> live_nodes b"
  "c \<in> set (credentials (objects b)) \<Longrightarrow> (Credential, credential_id c) \<in> live_nodes b"
  "r \<in> set (routes (objects b)) \<Longrightarrow> (Route, route_id r) \<in> live_nodes b"
  "p \<in> set (authentication_plans (objects b)) \<Longrightarrow> (AuthenticationPlan, plan_id p) \<in> live_nodes b"
  "al \<in> set (algorithm_policies (objects b)) \<Longrightarrow> (AlgorithmPolicy, algorithm_id al) \<in> live_nodes b"
  "hb \<in> set (heartbeat_policies (objects b)) \<Longrightarrow> (HeartbeatPolicy, heartbeat_id hb) \<in> live_nodes b"
  "mo \<in> set (monitoring_policies (objects b)) \<Longrightarrow> (MonitoringPolicy, monitoring_id mo) \<in> live_nodes b"
  "lo \<in> set (login_automations (objects b)) \<Longrightarrow> (LoginAutomation, login_id lo) \<in> live_nodes b"
  "s \<in> set (secrets b) \<Longrightarrow> (Secret, secret_id s) \<in> live_nodes b"
  by (simp_all add: live_nodes_def object_nodes_def)

lemma live_host_image: "i \<in> host_id ` set (hosts (objects b)) \<Longrightarrow> (Host, i) \<in> live_nodes b"
  by (auto intro: live_object_nodes)

lemmas reference_checks =
  validate_references_def Let_def seq_checks_ok check_all_ok fail_if_ok list.set ball_simps de_Morgan_disj not_not

lemma refs_host:
  assumes "validate_references b = Inr ()" "h \<in> set (hosts (objects b))"
  shows "set (host_edges h) \<subseteq> live_nodes b \<times> live_nodes b"
  using assms(2) assms(1) [unfolded reference_checks, THEN conjunct1, rule_format, OF assms(2)]
  by (auto simp: host_edges_def opt_in_def intro: live_object_nodes split: option.splits)

lemma refs_desktop:
  assumes "validate_references b = Inr ()" "d \<in> set (desktop_profiles (objects b))"
  shows "set (desktop_edges d) \<subseteq> live_nodes b \<times> live_nodes b"
  using assms(2) assms(1) [unfolded reference_checks, THEN conjunct2, THEN conjunct1, rule_format, OF assms(2)]
  by (auto simp: desktop_edges_def opt_in_def credential_ref_ok_def intro: live_object_nodes
      dest!: collect_map_Some split: option.splits)

lemma refs_identity:
  assumes "validate_references b = Inr ()" "i \<in> set (identities (objects b))"
  shows "set (identity_edges i) \<subseteq> live_nodes b \<times> live_nodes b"
  using assms(2) assms(1) [unfolded reference_checks, THEN conjunct2, THEN conjunct2, THEN conjunct1, rule_format, OF assms(2)]
  by (auto simp: identity_edges_def list_ex_iff intro: live_object_nodes)

lemma refs_credential:
  assumes "validate_references b = Inr ()" "c \<in> set (credentials (objects b))"
  shows "set (credential_edges c) \<subseteq> live_nodes b \<times> live_nodes b"
proof -
  from assms(1) [unfolded reference_checks, THEN conjunct2, THEN conjunct2, THEN conjunct2, THEN conjunct1, rule_format, OF assms(2)]
  have i: "credential_identity_id c \<in> identity_id ` set (identities (objects b))"
    and s: "\<forall>(s, expected) \<in> set (material_secret_refs (credential_material c)).
        collect_map (map (\<lambda>s. (secret_id s, secret_kind s)) (secrets b)) s = Some expected"
    by (auto simp: list_ex_iff)
  have "(Secret, x) \<in> live_nodes b" if "x \<in> set (material_secret_ids (credential_material c))" for x
    using that s unfolding material_refs_ids [symmetric]
    by (auto dest!: bspec collect_map_Some intro: live_object_nodes)
  with i assms(2) show ?thesis by (auto simp: credential_edges_def intro: live_object_nodes)
qed

lemma refs_route:
  assumes "validate_references b = Inr ()" "r \<in> set (routes (objects b))"
  shows "set (route_edges r) \<subseteq> live_nodes b \<times> live_nodes b"
  using assms(2) assms(1) [unfolded reference_checks, THEN conjunct2, THEN conjunct2, THEN conjunct2, THEN conjunct2, THEN conjunct1, rule_format, OF assms(2)]
  by (auto simp: route_edges_def list_ex_iff intro!: live_host_image intro: live_object_nodes
      dest!: collect_map_Some split: option.splits)

lemma refs_plan:
  assumes "validate_references b = Inr ()" "p \<in> set (authentication_plans (objects b))"
  shows "set (plan_edges p) \<subseteq> live_nodes b \<times> live_nodes b"
  using assms(2) assms(1) [unfolded reference_checks, THEN conjunct2, THEN conjunct2, THEN conjunct2, THEN conjunct2, THEN conjunct2, THEN conjunct1, rule_format, OF assms(2)]
  by (auto simp: plan_edges_def list_ex_iff intro: live_object_nodes)

lemma refs_login:
  assumes "validate_references b = Inr ()" "a \<in> set (login_automations (objects b))"
  shows "set (login_edges a) \<subseteq> live_nodes b \<times> live_nodes b"
  using assms(2) assms(1) [unfolded reference_checks, THEN conjunct2, THEN conjunct2, THEN conjunct2, THEN conjunct2, THEN conjunct2, THEN conjunct2, THEN conjunct1, rule_format, OF assms(2)]
  by (auto simp: login_edges_def step_secrets_def list_ex_iff intro: live_object_nodes
      dest!: bspec collect_map_Some split: LoginAutomationStep.splits)

lemma set_concat_map_subset: "(\<And>x. x \<in> set xs \<Longrightarrow> set (f x) \<subseteq> S) \<Longrightarrow> set (concat (map f xs)) \<subseteq> S"
  by auto

lemma valid_edges_live:
  assumes "validate_references b = Inr ()"
  shows "set (bundle_edges b) \<subseteq> live_nodes b \<times> live_nodes b"
  unfolding bundle_edges_def Let_def set_append Un_subset_iff
  by (intro conjI set_concat_map_subset refs_host [OF assms] refs_desktop [OF assms] refs_identity [OF assms]
      refs_credential [OF assms] refs_route [OF assms] refs_plan [OF assms] refs_login [OF assms])

definition held_by_reference :: "PortableObjectKind \<Rightarrow> bool" where
  "held_by_reference k \<longleftrightarrow> k \<notin> {Host, Identity, DesktopProfile}"

lemma edge_parts:
  "set (concat (map host_edges (hosts (objects b)))) \<subseteq> set (bundle_edges b)"
  "set (concat (map desktop_edges (desktop_profiles (objects b)))) \<subseteq> set (bundle_edges b)"
  "set (concat (map identity_edges (identities (objects b)))) \<subseteq> set (bundle_edges b)"
  "set (concat (map plan_edges (authentication_plans (objects b)))) \<subseteq> set (bundle_edges b)"
  "set (concat (map credential_edges (credentials (objects b)))) \<subseteq> set (bundle_edges b)"
  "set (concat (map route_edges (routes (objects b)))) \<subseteq> set (bundle_edges b)"
  "set (concat (map login_edges (login_automations (objects b)))) \<subseteq> set (bundle_edges b)"
  unfolding bundle_edges_def Let_def set_append by blast+

lemma host_children_edges: "host_children (objects b) \<subseteq> snd ` set (bundle_edges b)"
proof -
  have "host_children (objects b) \<subseteq> snd ` set (concat (map host_edges (hosts (objects b))))"
    by (force simp: host_children_def host_edges_def image_iff split: option.splits)
  then show ?thesis by (rule order_trans) (intro image_mono edge_parts)
qed

lemma credential_reference_edges:
  "c \<in> set (identity_credential_ids i) \<Longrightarrow> (Credential, c) \<in> snd ` set (identity_edges i)"
  "c \<in> set (plan_credential_ids p) \<Longrightarrow> (Credential, c) \<in> snd ` set (plan_edges p)"
  "ingress_credential (route_ingress r) = Some c \<Longrightarrow> (Credential, c) \<in> snd ` set (route_edges r)"
  "desktop_credential_id d = Some c \<Longrightarrow> (Credential, c) \<in> snd ` set (desktop_edges d)"
  "s \<in> set (material_secret_ids (credential_material cr)) \<Longrightarrow> (Secret, s) \<in> snd ` set (credential_edges cr)"
  "s \<in> set (step_secrets (login_steps a)) \<Longrightarrow> (Secret, s) \<in> snd ` set (login_edges a)"
  by (simp_all add: identity_edges_def plan_edges_def route_edges_def desktop_edges_def credential_edges_def
      login_edges_def image_image image_Un)

lemma edge_partI: "n \<in> snd ` set (f x) \<Longrightarrow> x \<in> set xs \<Longrightarrow> n \<in> snd ` set (concat (map f xs))"
  by auto

lemma edge_part_bundle:
  "n \<in> snd ` set (concat (map f xs)) \<Longrightarrow> set (concat (map f xs)) \<subseteq> set (bundle_edges b) \<Longrightarrow> n \<in> snd ` set (bundle_edges b)"
  by blast

lemma referenced_credential_edges:
  assumes "c \<in> referenced_credentials (objects b)"
  shows "(Credential, c) \<in> snd ` set (bundle_edges b)"
proof -
  from assms consider
      i where "i \<in> set (identities (objects b))" "c \<in> set (identity_credential_ids i)"
    | p where "p \<in> set (authentication_plans (objects b))" "c \<in> set (plan_credential_ids p)"
    | r where "r \<in> set (routes (objects b))" "ingress_credential (route_ingress r) = Some c"
    | d where "d \<in> set (desktop_profiles (objects b))" "desktop_credential_id d = Some c"
    by (auto simp: referenced_credentials_def split: option.splits)
  then show ?thesis
    by cases (rule edge_part_bundle [OF edge_partI [where f = identity_edges, OF credential_reference_edges(1)] edge_parts(3)], assumption+,
        rule edge_part_bundle [OF edge_partI [where f = plan_edges, OF credential_reference_edges(2)] edge_parts(4)], assumption+,
        rule edge_part_bundle [OF edge_partI [where f = route_edges, OF credential_reference_edges(3)] edge_parts(6)], assumption+,
        rule edge_part_bundle [OF edge_partI [where f = desktop_edges, OF credential_reference_edges(4)] edge_parts(2)], assumption+)
qed

lemma referenced_secret_edges:
  assumes "s \<in> referenced_secrets (objects b)"
  shows "(Secret, s) \<in> snd ` set (bundle_edges b)"
proof -
  from assms consider
      c where "c \<in> set (credentials (objects b))" "s \<in> set (material_secret_ids (credential_material c))"
    | a where "a \<in> set (login_automations (objects b))" "s \<in> set (step_secrets (login_steps a))"
    by (auto simp: referenced_secrets_def)
  then show ?thesis
    by cases (rule edge_part_bundle [OF edge_partI [where f = credential_edges, OF credential_reference_edges(5)] edge_parts(5)], assumption+,
        rule edge_part_bundle [OF edge_partI [where f = login_edges, OF credential_reference_edges(6)] edge_parts(7)], assumption+)
qed

lemma reachable_held:
  assumes "validate_reverse_reachability b = Inr ()" "(k, i) \<in> live_nodes b" "held_by_reference k"
  shows "(k, i) \<in> snd ` set (bundle_edges b)"
proof -
  from assms(1) have
    "\<forall>r \<in> set (routes (objects b)). (Route, route_id r) \<in> host_children (objects b)"
    "\<forall>p \<in> set (authentication_plans (objects b)). (AuthenticationPlan, plan_id p) \<in> host_children (objects b)"
    "\<forall>a \<in> set (algorithm_policies (objects b)). (AlgorithmPolicy, algorithm_id a) \<in> host_children (objects b)"
    "\<forall>h \<in> set (heartbeat_policies (objects b)). (HeartbeatPolicy, heartbeat_id h) \<in> host_children (objects b)"
    "\<forall>m \<in> set (monitoring_policies (objects b)). (MonitoringPolicy, monitoring_id m) \<in> host_children (objects b)"
    "\<forall>l \<in> set (login_automations (objects b)). (LoginAutomation, login_id l) \<in> host_children (objects b)"
    "\<forall>c \<in> set (credentials (objects b)). credential_id c \<in> referenced_credentials (objects b)"
    "\<forall>s \<in> set (secrets b). secret_id s \<in> referenced_secrets (objects b)"
    by (simp_all add: validate_reverse_reachability_def Let_def result_simps list_ex_iff)
  then have "(k, i) \<in> host_children (objects b) \<or> (k = Credential \<and> i \<in> referenced_credentials (objects b)) \<or>
      (k = Secret \<and> i \<in> referenced_secrets (objects b))"
    using assms(2,3) by (auto simp: live_nodes_def object_nodes_def held_by_reference_def)
  then show ?thesis using host_children_edges referenced_credential_edges referenced_secret_edges by blast
qed

text \<open>
  (C32) The worklist loop of \<open>expand_conflict_closure\<close> always ends, and its result is the least set
  that contains the conflicts and, with a node, every node that refers to it or that it refers to in
  one of the bundles. Expanding a second time adds nothing.
\<close>

theorem conflict_closure_least:
  "set (expand_conflict_closure bs conflicts) = \<Inter>{S. set conflicts \<subseteq> S \<and> linked bs `` S \<subseteq> S} \<and>
   set (expand_conflict_closure bs (expand_conflict_closure bs conflicts)) = set (expand_conflict_closure bs conflicts)"
proof -
  have "(linked bs)\<^sup>* `` set conflicts \<subseteq> S" if "set conflicts \<subseteq> S" "linked bs `` S \<subseteq> S" for S
    using that Image_closed_trancl [OF that(2)] by blast
  moreover have "linked bs `` (linked bs)\<^sup>* `` set conflicts \<subseteq> (linked bs)\<^sup>* `` set conflicts"
    by (auto intro: rtrancl_into_rtrancl)
  ultimately have "(linked bs)\<^sup>* `` set conflicts = \<Inter>{S. set conflicts \<subseteq> S \<and> linked bs `` S \<subseteq> S}"
    by (intro equalityI Inter_greatest Inter_lower) auto
  moreover have "(linked bs)\<^sup>* `` (linked bs)\<^sup>* `` set conflicts = (linked bs)\<^sup>* `` set conflicts"
    by (simp flip: relcomp_Image)
  ultimately show ?thesis by (simp only: expand_conflict_closure_reaches simp_thms)
qed

end
