(* ===== verification/SyncMerge.thy ===== *)
theory SyncMerge
  imports SyncGraph
begin

text \<open>
  The three-way merge of portable bundles, \<open>crates/ssh-profile-sync/src/merge.rs\<close>: conflict
  detection, conflict resolution by side or by time, the merge of each kind of object, of
  preferences and of update times, and the composition of all of them. The wall clock is an
  argument. \<open>unreachable!\<close>, \<open>expect\<close> and an index into a map are \<open>None\<close> in the helpers and the
  fault \<open>Panic\<close> in the result.
\<close>

section \<open>Choosing a side\<close>

datatype BundleConflictResolution = KeepLocal | UseRemote | Newest

datatype 'v BundleMergeOutcome = Merged "'v PortableBundleV1" | Conflicts u32

definition MAX_FUTURE_CLOCK_SKEW_MS :: int where "MAX_FUTURE_CLOCK_SKEW_MS = 5 * 60 * 1000"

definition saturating_add_i64 :: "int \<Rightarrow> int \<Rightarrow> int" where
  "saturating_add_i64 a b = max (- (2 ^ 63)) (min (2 ^ 63 - 1) (a + b))"

definition newest_side :: "int option \<Rightarrow> int option \<Rightarrow> int \<Rightarrow> BundleConflictResolution option" where
  "newest_side local remote now =
     (case (local, remote) of
        (Some l, Some r) \<Rightarrow>
          if l \<le> 0 \<or> r \<le> 0 \<or> l > saturating_add_i64 now MAX_FUTURE_CLOCK_SKEW_MS \<or>
             r > saturating_add_i64 now MAX_FUTURE_CLOCK_SKEW_MS then None
          else if l > r then Some KeepLocal else if l < r then Some UseRemote else None
      | _ \<Rightarrow> None)"

definition item_time :: "'v PortableBundleV1 \<Rightarrow> ObjectNode \<Rightarrow> int option" where
  "item_time b node =
     map_option update_time_unix_ms (List.find (\<lambda>t. (time_kind t, time_id t) = node) (update_times b))"

definition has_tombstone :: "'v PortableBundleV1 \<Rightarrow> ObjectNode \<Rightarrow> bool" where
  "has_tombstone b node = list_ex (\<lambda>t. (tombstone_kind t, tombstone_id t) = node) (tombstones b)"

definition member_side ::
    "'v PortableBundleV1 \<Rightarrow> 'v PortableBundleV1 \<Rightarrow> BundleConflictResolution option \<Rightarrow>
     BundleConflictResolution option \<Rightarrow> int \<Rightarrow> ObjectNode \<Rightarrow> BundleConflictResolution option" where
  "member_side local remote conflict_resolution deletion_resolution now m =
     (let newest = newest_side (item_time local m) (item_time remote m) now;
          chosen_is_deletion =
            (case newest of
               Some KeepLocal \<Rightarrow> has_tombstone local m
             | Some UseRemote \<Rightarrow> has_tombstone remote m
             | _ \<Rightarrow> False);
          policy = (if chosen_is_deletion then deletion_resolution else conflict_resolution) in
      case policy of Some Newest \<Rightarrow> newest | _ \<Rightarrow> policy)"

fun component_side ::
    "(ObjectNode \<Rightarrow> BundleConflictResolution option) \<Rightarrow> ObjectNode list \<Rightarrow>
     BundleConflictResolution option \<Rightarrow> bool \<Rightarrow> BundleConflictResolution option \<times> bool" where
  "component_side side [] chosen consistent = (chosen, consistent)"
| "component_side side (m # ms) chosen consistent =
     component_side side ms
       (case side m of Some s \<Rightarrow> Some s | None \<Rightarrow> chosen)
       (consistent \<and> \<not> (side m = None \<or> (chosen \<noteq> None \<and> chosen \<noteq> side m)))"

type_synonym ResolvedSides = "ObjectNode \<rightharpoonup> BundleConflictResolution"

definition assign :: "ObjectNode list \<Rightarrow> BundleConflictResolution \<Rightarrow> ResolvedSides \<Rightarrow> ResolvedSides" where
  "assign ns side sides = (\<lambda>n. if n \<in> set ns then Some side else sides n)"

text \<open>
  The loop over the remaining conflicts. The first of them belongs to its own component, so that
  removing the component removes it: the rest of the list is filtered.
\<close>

function resolve_loop ::
    "(ObjectNode \<Rightarrow> ObjectNode list) \<Rightarrow> (ObjectNode \<Rightarrow> BundleConflictResolution option) \<Rightarrow>
     ObjectNode list \<Rightarrow> ResolvedSides \<Rightarrow> nat \<Rightarrow> (ResolvedSides \<times> nat) option" where
  "resolve_loop component side [] sides unresolved = Some (sides, unresolved)"
| "resolve_loop component side (n # rest) sides unresolved =
     (let ms = component n; remaining = filter (\<lambda>x. x \<notin> set ms) rest in
      case component_side side ms None True of (chosen, consistent) \<Rightarrow>
        if consistent then
          (case chosen of
             None \<Rightarrow> None
           | Some s \<Rightarrow> resolve_loop component side remaining (assign ms s sides) unresolved)
        else resolve_loop component side remaining sides (unresolved + length ms))"
  by pat_completeness auto
termination
  by (relation "measure (\<lambda>(_, _, ns, _, _). length ns)") (auto simp: le_imp_less_Suc)

declare resolve_loop.simps(2) [simp del]

definition conflict_component :: "'v PortableBundleV1 list \<Rightarrow> ObjectNode list \<Rightarrow> ObjectNode \<Rightarrow> ObjectNode list" where
  "conflict_component bs conflicts n = filter (\<lambda>x. x \<in> set (expand_conflict_closure bs [n])) conflicts"

definition resolve_conflicts ::
    "'v PortableBundleV1 list \<Rightarrow> ObjectNode list \<Rightarrow> 'v PortableBundleV1 \<Rightarrow> 'v PortableBundleV1 \<Rightarrow>
     BundleConflictResolution option \<Rightarrow> BundleConflictResolution option \<Rightarrow> int \<Rightarrow> (ResolvedSides \<times> nat) option" where
  "resolve_conflicts bs conflicts local remote conflict_resolution deletion_resolution now =
     (if conflicts = [] then Some (Map.empty, 0)
      else if conflict_resolution = None \<and> deletion_resolution = None then Some (Map.empty, length conflicts)
      else if conflict_resolution \<in> {Some KeepLocal, Some UseRemote} \<and> conflict_resolution = deletion_resolution then
        (let selected = (if list_all (\<lambda>b. schema b \<in> {V5, V6_bundle}) bs then conflicts
                         else expand_conflict_closure bs conflicts) in
         Some (assign selected (the conflict_resolution) Map.empty, 0))
      else resolve_loop (conflict_component bs conflicts)
             (member_side local remote conflict_resolution deletion_resolution now) conflicts Map.empty 0)"

section \<open>Edits of one object\<close>

datatype 'a Edit = NoOpinion | Value 'a | Omit | Delete

record 'a Applied =
  app_value :: "'a option"
  app_tombstone :: bool

definition edit_for :: "bool \<Rightarrow> 'a option \<Rightarrow> bool \<Rightarrow> 'a Edit" where
  "edit_for base_present v deleted =
     (case (v, deleted, base_present) of
        (Some x, False, _) \<Rightarrow> Value x
      | (None, True, _) \<Rightarrow> Delete
      | (None, False, True) \<Rightarrow> Omit
      | _ \<Rightarrow> NoOpinion)"

definition apply_edit :: "'a option \<Rightarrow> 'a Edit \<Rightarrow> 'a Applied" where
  "apply_edit base e =
     (case e of
        NoOpinion \<Rightarrow> \<lparr>app_value = base, app_tombstone = False\<rparr>
      | Value v \<Rightarrow> \<lparr>app_value = Some v, app_tombstone = False\<rparr>
      | Omit \<Rightarrow> \<lparr>app_value = None, app_tombstone = False\<rparr>
      | Delete \<Rightarrow> \<lparr>app_value = None, app_tombstone = True\<rparr>)"

definition changed :: "'a option \<Rightarrow> bool \<Rightarrow> 'a Edit \<Rightarrow> 'a Applied \<Rightarrow> bool" where
  "changed base base_deleted e r \<longleftrightarrow>
     (case e of NoOpinion \<Rightarrow> False | _ \<Rightarrow> app_value r \<noteq> base \<or> app_tombstone r \<noteq> base_deleted)"

section \<open>One kind of object\<close>

definition btree_set :: "'a::linorder list \<Rightarrow> 'a list" where
  "btree_set xs = sort (remdups xs)"

definition tombstone_set :: "'v PortableBundleV1 \<Rightarrow> ObjectNode list" where
  "tombstone_set b = btree_set (map (\<lambda>t. (tombstone_kind t, tombstone_id t)) (tombstones b))"

definition value_map :: "('a \<Rightarrow> PortableObjectId) \<Rightarrow> 'a list \<Rightarrow> PortableObjectId \<Rightarrow> 'a option" where
  "value_map idf xs = collect_map (map (\<lambda>x. (idf x, x)) xs)"

definition kind_ids :: "PortableObjectKind \<Rightarrow> ObjectNode list \<Rightarrow> PortableObjectId list" where
  "kind_ids kind ns = map snd (filter (\<lambda>(k, _). k = kind) ns)"

record 'a kind_view =
  kind_of :: PortableObjectKind
  id_of :: "'a \<Rightarrow> PortableObjectId"
  v_base :: "'a list"
  v_local :: "'a list"
  v_remote :: "'a list"
  t_base :: "ObjectNode list"
  t_local :: "ObjectNode list"
  t_remote :: "ObjectNode list"

definition view_ids :: "'a kind_view \<Rightarrow> PortableObjectId list" where
  "view_ids w =
     btree_set (map (id_of w) (v_base w) @ map (id_of w) (v_local w) @ map (id_of w) (v_remote w) @
                kind_ids (kind_of w) (t_base w) @ kind_ids (kind_of w) (t_local w) @ kind_ids (kind_of w) (t_remote w))"

definition base_value :: "'a kind_view \<Rightarrow> PortableObjectId \<Rightarrow> 'a option" where
  "base_value w i = value_map (id_of w) (v_base w) i"

definition base_deleted :: "'a kind_view \<Rightarrow> PortableObjectId \<Rightarrow> bool" where
  "base_deleted w i \<longleftrightarrow> (kind_of w, i) \<in> set (t_base w)"

definition local_edit :: "'a kind_view \<Rightarrow> PortableObjectId \<Rightarrow> 'a Edit" where
  "local_edit w i =
     edit_for (base_value w i \<noteq> None) (value_map (id_of w) (v_local w) i) ((kind_of w, i) \<in> set (t_local w))"

definition remote_edit :: "'a kind_view \<Rightarrow> PortableObjectId \<Rightarrow> 'a Edit" where
  "remote_edit w i =
     edit_for (base_value w i \<noteq> None) (value_map (id_of w) (v_remote w) i) ((kind_of w, i) \<in> set (t_remote w))"

definition conflict_ids :: "'a kind_view \<Rightarrow> ObjectNode list" where
  "conflict_ids w =
     map (Pair (kind_of w))
       (filter (\<lambda>i.
          let l = apply_edit (base_value w i) (local_edit w i); r = apply_edit (base_value w i) (remote_edit w i) in
          changed (base_value w i) (base_deleted w i) (local_edit w i) l \<and>
          changed (base_value w i) (base_deleted w i) (remote_edit w i) r \<and>
          (app_value l \<noteq> app_value r \<or> app_tombstone l \<noteq> app_tombstone r))
        (view_ids w))"

definition merge_entry :: "'a kind_view \<Rightarrow> ResolvedSides \<Rightarrow> PortableObjectId \<Rightarrow> 'a Applied option" where
  "merge_entry w sides i =
     (let base = base_value w i;
          l = apply_edit base (local_edit w i);
          r = apply_edit base (remote_edit w i);
          local_changed = changed base (base_deleted w i) (local_edit w i) l;
          remote_changed = changed base (base_deleted w i) (remote_edit w i) r in
      case sides (kind_of w, i) of
        Some KeepLocal \<Rightarrow> Some l
      | Some UseRemote \<Rightarrow> Some r
      | Some Newest \<Rightarrow> None
      | None \<Rightarrow>
          if \<not> local_changed \<and> \<not> remote_changed then
            Some \<lparr>app_value = base, app_tombstone = base_deleted w i\<rparr>
          else if \<not> remote_changed then Some l
          else if \<not> local_changed then Some r
          else if app_value l = app_value r then
            Some \<lparr>app_value = app_value l, app_tombstone = app_tombstone l \<or> app_tombstone r\<rparr>
          else None)"

fun merge_entries ::
    "(PortableObjectId \<Rightarrow> 'a Applied option) \<Rightarrow> PortableObjectId list \<Rightarrow> ('a list \<times> PortableObjectId list) option" where
  "merge_entries entry [] = Some ([], [])"
| "merge_entries entry (i # is) =
     (case entry i of
        None \<Rightarrow> None
      | Some a \<Rightarrow>
          (case merge_entries entry is of
             None \<Rightarrow> None
           | Some (vs, ds) \<Rightarrow>
               Some (case app_value a of
                       Some v \<Rightarrow> (v # vs, ds)
                     | None \<Rightarrow> if app_tombstone a then (vs, i # ds) else (vs, ds))))"

definition merge_values :: "'a kind_view \<Rightarrow> ResolvedSides \<Rightarrow> ('a list \<times> PortableObjectId list) option" where
  "merge_values w sides = merge_entries (merge_entry w sides) (view_ids w)"

text \<open>The values of a kind, and the tombstones after its deletions and revivals.\<close>

definition merge_kind ::
    "'a kind_view \<Rightarrow> ResolvedSides \<Rightarrow> ObjectNode set \<Rightarrow> ('a list \<times> ObjectNode set) option" where
  "merge_kind w sides output_tombstones =
     (case merge_values w sides of
        None \<Rightarrow> None
      | Some (vs, ds) \<Rightarrow>
          Some (vs, (output_tombstones \<union> Pair (kind_of w) ` set ds) - (\<lambda>v. (kind_of w, id_of w v)) ` set vs))"

section \<open>All kinds\<close>

definition view ::
    "PortableObjectKind \<Rightarrow> ('a \<Rightarrow> PortableObjectId) \<Rightarrow> ('v PortableBundleV1 \<Rightarrow> 'a list) \<Rightarrow>
     'v PortableBundleV1 \<Rightarrow> 'v PortableBundleV1 \<Rightarrow> 'v PortableBundleV1 \<Rightarrow> 'a kind_view" where
  "view kind idf field base local remote =
     \<lparr>kind_of = kind, id_of = idf, v_base = field base, v_local = field local, v_remote = field remote,
      t_base = tombstone_set base, t_local = tombstone_set local, t_remote = tombstone_set remote\<rparr>"

definition collect_conflict_nodes ::
    "'v PortableBundleV1 \<Rightarrow> 'v PortableBundleV1 \<Rightarrow> 'v PortableBundleV1 \<Rightarrow> ObjectNode list" where
  "collect_conflict_nodes base local remote =
     btree_set
     (conflict_ids (view Host host_id (\<lambda>b. hosts (objects b)) base local remote) @
      conflict_ids (view DesktopProfile desktop_id (\<lambda>b. desktop_profiles (objects b)) base local remote) @
      conflict_ids (view Identity identity_id (\<lambda>b. identities (objects b)) base local remote) @
      conflict_ids (view Credential credential_id (\<lambda>b. credentials (objects b)) base local remote) @
      conflict_ids (view Route route_id (\<lambda>b. routes (objects b)) base local remote) @
      conflict_ids (view AuthenticationPlan plan_id (\<lambda>b. authentication_plans (objects b)) base local remote) @
      conflict_ids (view AlgorithmPolicy algorithm_id (\<lambda>b. algorithm_policies (objects b)) base local remote) @
      conflict_ids (view HeartbeatPolicy heartbeat_id (\<lambda>b. heartbeat_policies (objects b)) base local remote) @
      conflict_ids (view MonitoringPolicy monitoring_id (\<lambda>b. monitoring_policies (objects b)) base local remote) @
      conflict_ids (view LoginAutomation login_id (\<lambda>b. login_automations (objects b)) base local remote) @
      conflict_ids (view Secret secret_id secrets base local remote))"

text \<open>The eleven \<open>merge_kind!\<close> steps, in their order, threading the tombstones.\<close>

definition merge_objects ::
    "'v PortableBundleV1 \<Rightarrow> 'v PortableBundleV1 \<Rightarrow> 'v PortableBundleV1 \<Rightarrow> ResolvedSides \<Rightarrow>
     (PortableObjects \<times> PortableSecret list \<times> ObjectNode set) option" where
  "merge_objects base local remote sides =
     (let t0 = set (tombstone_set base) in
      Option.bind (merge_kind (view Host host_id (\<lambda>b. hosts (objects b)) base local remote) sides t0) (\<lambda>(x0, t1).
      Option.bind (merge_kind (view DesktopProfile desktop_id (\<lambda>b. desktop_profiles (objects b)) base local remote) sides t1) (\<lambda>(x1, t2).
      Option.bind (merge_kind (view Identity identity_id (\<lambda>b. identities (objects b)) base local remote) sides t2) (\<lambda>(x2, t3).
      Option.bind (merge_kind (view Credential credential_id (\<lambda>b. credentials (objects b)) base local remote) sides t3) (\<lambda>(x3, t4).
      Option.bind (merge_kind (view Route route_id (\<lambda>b. routes (objects b)) base local remote) sides t4) (\<lambda>(x4, t5).
      Option.bind (merge_kind (view AuthenticationPlan plan_id (\<lambda>b. authentication_plans (objects b)) base local remote) sides t5) (\<lambda>(x5, t6).
      Option.bind (merge_kind (view AlgorithmPolicy algorithm_id (\<lambda>b. algorithm_policies (objects b)) base local remote) sides t6) (\<lambda>(x6, t7).
      Option.bind (merge_kind (view HeartbeatPolicy heartbeat_id (\<lambda>b. heartbeat_policies (objects b)) base local remote) sides t7) (\<lambda>(x7, t8).
      Option.bind (merge_kind (view MonitoringPolicy monitoring_id (\<lambda>b. monitoring_policies (objects b)) base local remote) sides t8) (\<lambda>(x8, t9).
      Option.bind (merge_kind (view LoginAutomation login_id (\<lambda>b. login_automations (objects b)) base local remote) sides t9) (\<lambda>(x9, t10).
      Option.bind (merge_kind (view Secret secret_id secrets base local remote) sides t10) (\<lambda>(x10, t11).
      Some (\<lparr>hosts = x0, desktop_profiles = x1, identities = x2, credentials = x3, routes = x4, authentication_plans = x5, algorithm_policies = x6, heartbeat_policies = x7, monitoring_policies = x8, login_automations = x9\<rparr>, x10, t11)))))))))))))"

section \<open>Update times\<close>

definition btree_entry :: "('v \<Rightarrow> 'v \<Rightarrow> 'v) \<Rightarrow> 'k::linorder \<Rightarrow> 'v \<Rightarrow> ('k \<times> 'v) list \<Rightarrow> ('k \<times> 'v) list" where
  "btree_entry f k v m = btree_insert k (case map_of m k of None \<Rightarrow> v | Some old \<Rightarrow> f old v) m"

definition kind_times ::
    "PortableObjectKind \<Rightarrow> ('a \<Rightarrow> PortableObjectId) \<Rightarrow> ('v PortableBundleV1 \<Rightarrow> 'a list) \<Rightarrow> 'a list \<Rightarrow>
     'v PortableBundleV1 list \<Rightarrow> (ObjectNode \<times> int) list" where
  "kind_times kind idf field values bs =
     concat (map (\<lambda>x. concat (map (\<lambda>b.
        if x \<in> set (field b)
        then (case item_time b (kind, idf x) of Some t \<Rightarrow> [((kind, idf x), t)] | None \<Rightarrow> [])
        else []) bs)) values)"

definition tombstone_times ::
    "PortableTombstone list \<Rightarrow> 'v PortableBundleV1 list \<Rightarrow> (ObjectNode \<times> int) list" where
  "tombstone_times ts bs =
     concat (map (\<lambda>t. concat (map (\<lambda>b.
        let node = (tombstone_kind t, tombstone_id t) in
        if t \<in> set (tombstones b)
        then (case item_time b node of Some x \<Rightarrow> [(node, x)] | None \<Rightarrow> [])
        else []) bs)) ts)"

definition time_candidates ::
    "PortableObjects \<Rightarrow> PortableSecret list \<Rightarrow> PortableTombstone list \<Rightarrow> 'v PortableBundleV1 list \<Rightarrow>
     (ObjectNode \<times> int) list" where
  "time_candidates os ss ts bs =
     (kind_times Host host_id (\<lambda>b. hosts (objects b)) (hosts os) bs @
      kind_times DesktopProfile desktop_id (\<lambda>b. desktop_profiles (objects b)) (desktop_profiles os) bs @
      kind_times Identity identity_id (\<lambda>b. identities (objects b)) (identities os) bs @
      kind_times Credential credential_id (\<lambda>b. credentials (objects b)) (credentials os) bs @
      kind_times Route route_id (\<lambda>b. routes (objects b)) (routes os) bs @
      kind_times AuthenticationPlan plan_id (\<lambda>b. authentication_plans (objects b)) (authentication_plans os) bs @
      kind_times AlgorithmPolicy algorithm_id (\<lambda>b. algorithm_policies (objects b)) (algorithm_policies os) bs @
      kind_times HeartbeatPolicy heartbeat_id (\<lambda>b. heartbeat_policies (objects b)) (heartbeat_policies os) bs @
      kind_times MonitoringPolicy monitoring_id (\<lambda>b. monitoring_policies (objects b)) (monitoring_policies os) bs @
      kind_times LoginAutomation login_id (\<lambda>b. login_automations (objects b)) (login_automations os) bs @
      kind_times Secret secret_id secrets ss bs @ tombstone_times ts bs)"

definition merge_update_times ::
    "PortableObjects \<Rightarrow> PortableSecret list \<Rightarrow> PortableTombstone list \<Rightarrow>
     'v PortableBundleV1 \<Rightarrow> 'v PortableBundleV1 \<Rightarrow> 'v PortableBundleV1 \<Rightarrow> PortableItemUpdateTime list" where
  "merge_update_times os ss ts base local remote =
     map (\<lambda>((k, i), t). \<lparr>time_kind = k, time_id = i, update_time_unix_ms = t\<rparr>)
       (fold (\<lambda>(n, t). btree_entry max n t) (time_candidates os ss ts [base, local, remote]) [])"

section \<open>Preferences\<close>

definition group_of :: "'v PortableBundleV1 \<Rightarrow> ustring \<Rightarrow> 'v option" where
  "group_of b g = Option.bind (preferences b) (\<lambda>p. map_of (groups p) g)"

text \<open>The value chosen for a group, and whether choosing it counts as a conflict.\<close>

definition choose_group ::
    "'v option \<Rightarrow> 'v \<Rightarrow> 'v \<Rightarrow> BundleConflictResolution option \<Rightarrow> BundleConflictResolution option \<Rightarrow> 'v \<times> nat" where
  "choose_group base_v local_v remote_v resolution newest =
     (if local_v = remote_v \<or> base_v = Some remote_v then (local_v, 0)
      else if base_v = Some local_v then (remote_v, 0)
      else (case resolution of
              Some UseRemote \<Rightarrow> (remote_v, 0)
            | Some Newest \<Rightarrow>
                (case newest of
                   Some UseRemote \<Rightarrow> (remote_v, 0)
                 | Some KeepLocal \<Rightarrow> (local_v, 0)
                 | _ \<Rightarrow> (local_v, 1))
            | Some KeepLocal \<Rightarrow> (local_v, 0)
            | None \<Rightarrow> (local_v, 1)))"

fun merge_groups ::
    "(ustring \<Rightarrow> 'v option) \<Rightarrow> (ustring \<Rightarrow> 'v \<Rightarrow> 'v \<Rightarrow> 'v \<times> nat) \<Rightarrow> (ustring \<times> 'v) list \<Rightarrow>
     (ustring \<times> 'v) list \<Rightarrow> nat \<Rightarrow> ((ustring \<times> 'v) list \<times> nat) option" where
  "merge_groups remote_of pick [] merged conflicts = Some (merged, conflicts)"
| "merge_groups remote_of pick ((g, local_v) # rest) merged conflicts =
     (case remote_of g of
        None \<Rightarrow> None
      | Some remote_v \<Rightarrow>
          (case pick g local_v remote_v of (chosen, n) \<Rightarrow>
             merge_groups remote_of pick rest (btree_insert g chosen merged) (conflicts + n)))"

definition merge_preferences ::
    "'v PortableBundleV1 \<Rightarrow> 'v PortableBundleV1 \<Rightarrow> 'v PortableBundleV1 \<Rightarrow> BundleConflictResolution option \<Rightarrow>
     int \<Rightarrow> ('v PortablePreferencesV1 option \<times> nat) option" where
  "merge_preferences base local remote resolution now =
     (case (preferences local, preferences remote) of
        (Some lp, Some rp) \<Rightarrow>
          (case merge_groups (map_of (groups rp))
                  (\<lambda>g l r. choose_group (group_of base g) l r resolution
                     (newest_side (map_of (preference_update_times local) g)
                        (map_of (preference_update_times remote) g) now))
                  (groups lp) (groups lp) 0 of
             None \<Rightarrow> None
           | Some (gs, n) \<Rightarrow> Some (Some (lp\<lparr>groups := gs\<rparr>), n))
      | (Some lp, None) \<Rightarrow> Some (Some lp, 0)
      | (None, rp) \<Rightarrow> Some (rp, 0))"

definition merge_preference_times ::
    "'v PortablePreferencesV1 option \<Rightarrow> 'v PortableBundleV1 \<Rightarrow> 'v PortableBundleV1 \<Rightarrow> 'v PortableBundleV1 \<Rightarrow>
     (ustring \<times> int) list" where
  "merge_preference_times prefs base local remote =
     (case prefs of
        None \<Rightarrow> []
      | Some p \<Rightarrow>
          fold (\<lambda>(g, t). btree_entry max g t)
            (concat (map (\<lambda>(g, selected). concat (map (\<lambda>b.
               if group_of b g = Some selected
               then (case map_of (preference_update_times b) g of Some t \<Rightarrow> [(g, t)] | None \<Rightarrow> [])
               else []) [base, local, remote])) (groups p))) [])"

section \<open>The merge\<close>

definition normalized_scope :: "'v PortableBundleV1 \<Rightarrow> PortableDataCategory list" where
  "normalized_scope b =
     (case selected_categories b of Some s \<Rightarrow> s | None \<Rightarrow> [Hosts, Credentials, DesktopProfiles])"

definition conflict_count :: "nat \<Rightarrow> u32" where
  "conflict_count n = word_of_nat (min (2 ^ 32 - 1) n)"

definition assemble ::
    "'v PortableBundleV1 \<Rightarrow> 'v PortableBundleV1 \<Rightarrow> 'v PortableBundleV1 \<Rightarrow> u64 \<Rightarrow> bool \<Rightarrow>
     'v PortablePreferencesV1 option \<Rightarrow> PortableObjects \<Rightarrow> PortableSecret list \<Rightarrow> ObjectNode set \<Rightarrow>
     'v PortableBundleV1" where
  "assemble base local remote new_revision all_v6 prefs os ss output_tombstones =
     (let ts = map (\<lambda>(k, i). \<lparr>tombstone_kind = k, tombstone_id = i\<rparr>) (sorted_list_of_set output_tombstones);
          scope = normalized_scope base in
      \<lparr>schema = (if all_v6 then V6_bundle else if prefs \<noteq> None then V5 else V3),
       selected_categories = (if all_v6 \<and> length scope \<noteq> 3 then Some scope else None),
       revision = new_revision, objects = os, preferences = prefs, secrets = ss,
       skipped_machine_bound = skipped_machine_bound local, tombstones = ts,
       update_times = merge_update_times os ss ts base local remote,
       preference_update_times = merge_preference_times prefs base local remote\<rparr>)"

definition merge_bundles_three_way_with_policies ::
    "'v json_api \<Rightarrow> int \<Rightarrow> 'v PortableBundleV1 \<Rightarrow> 'v PortableBundleV1 \<Rightarrow> 'v PortableBundleV1 \<Rightarrow> u64 \<Rightarrow>
     BundleConflictResolution option \<Rightarrow> BundleConflictResolution option \<Rightarrow>
     SyncCodecError fault + 'v BundleMergeOutcome" where
  "merge_bundles_three_way_with_policies J now base local remote new_revision conflict_resolution deletion_resolution =
     (let all_v6 = list_all (\<lambda>b. schema b = V6_bundle) [base, local, remote] in
      case seq_checks
        [validate J base, validate J local, validate J remote,
         fail_if (\<not> all_v6 \<and> list_ex (\<lambda>b. schema b = V6_bundle) [base, local, remote])
           (InvalidBundle ''mixed bundle v6 merge requires projection''),
         fail_if (all_v6 \<and> (normalized_scope local \<noteq> normalized_scope base \<or>
                             normalized_scope remote \<noteq> normalized_scope base))
           (InvalidBundle ''bundle category scopes differ'')] of
        Inl e \<Rightarrow> Inl (Err e)
      | Inr _ \<Rightarrow>
          (case (resolve_conflicts [base, local, remote] (collect_conflict_nodes base local remote) local remote
                   conflict_resolution deletion_resolution now,
                 if all_v6 then Some (None, 0) else merge_preferences base local remote conflict_resolution now) of
             (Some (sides, object_conflicts), Some (prefs, preference_conflicts)) \<Rightarrow>
               if object_conflicts > 0 \<or> preference_conflicts > 0
               then Inr (Conflicts (conflict_count (object_conflicts + preference_conflicts)))
               else (case merge_objects base local remote sides of
                  None \<Rightarrow> Inl Panic
                | Some (os, ss, ts) \<Rightarrow>
                    let merged = assemble base local remote new_revision all_v6 prefs os ss ts in
                    if (conflict_resolution \<noteq> None \<or> deletion_resolution \<noteq> None) \<and>
                       (validate J merged \<noteq> Inr () \<or> validate_reverse_reachability merged \<noteq> Inr ())
                    then Inr (Conflicts 1)
                    else (case seq_checks [validate J merged, validate_reverse_reachability merged] of
                       Inl e \<Rightarrow> Inl (Err e)
                     | Inr _ \<Rightarrow> Inr (Merged merged)))
           | _ \<Rightarrow> Inl Panic))"

definition merge_bundles_three_way_with_resolution ::
    "'v json_api \<Rightarrow> int \<Rightarrow> 'v PortableBundleV1 \<Rightarrow> 'v PortableBundleV1 \<Rightarrow> 'v PortableBundleV1 \<Rightarrow> u64 \<Rightarrow>
     BundleConflictResolution option \<Rightarrow> SyncCodecError fault + 'v BundleMergeOutcome" where
  "merge_bundles_three_way_with_resolution J now base local remote new_revision resolution =
     merge_bundles_three_way_with_policies J now base local remote new_revision resolution resolution"

definition merge_bundles_three_way ::
    "'v json_api \<Rightarrow> int \<Rightarrow> 'v PortableBundleV1 \<Rightarrow> 'v PortableBundleV1 \<Rightarrow> 'v PortableBundleV1 \<Rightarrow> u64 \<Rightarrow>
     SyncCodecError fault + 'v BundleMergeOutcome" where
  "merge_bundles_three_way J now base local remote new_revision =
     merge_bundles_three_way_with_resolution J now base local remote new_revision None"

section \<open>A component has a side when its members agree\<close>

definition agreed :: "('n \<Rightarrow> BundleConflictResolution option) \<Rightarrow> 'n list \<Rightarrow> bool" where
  "agreed side ms \<longleftrightarrow> (\<exists>s. \<forall>m \<in> set ms. side m = Some s)"

lemma component_side_inconsistent: "snd (component_side side ms chosen False) = False"
  by (induction ms arbitrary: chosen) simp_all

lemma component_side_chosen:
  "snd (component_side side ms (Some s) True) \<longleftrightarrow> (\<forall>m \<in> set ms. side m = Some s)"
proof (induction ms)
  case (Cons m ms)
  then show ?case by (cases "side m = Some s") (auto simp: component_side_inconsistent split: option.splits)
qed simp

lemma component_side_value:
  "(\<forall>m \<in> set ms. side m = Some s) \<Longrightarrow> component_side side ms (Some s) True = (Some s, True)"
  by (induction ms) auto

lemma component_side_spec:
  assumes "ms \<noteq> []"
  shows "snd (component_side side ms None True) \<longleftrightarrow> agreed side ms"
    and "agreed side ms \<Longrightarrow> component_side side ms None True = (side (hd ms), True)"
    and "agreed side ms \<Longrightarrow> m \<in> set ms \<Longrightarrow> side m = side (hd ms)"
    and "agreed side ms \<Longrightarrow> side (hd ms) \<noteq> None"
proof -
  obtain n ns where ms: "ms = n # ns" using assms by (cases ms) auto
  show "snd (component_side side ms None True) \<longleftrightarrow> agreed side ms"
    unfolding ms agreed_def
    by (cases "side n") (auto simp: component_side_inconsistent component_side_chosen)
  show "agreed side ms \<Longrightarrow> component_side side ms None True = (side (hd ms), True)"
    unfolding ms agreed_def by (auto simp: component_side_value)
  show "agreed side ms \<Longrightarrow> m \<in> set ms \<Longrightarrow> side m = side (hd ms)" "agreed side ms \<Longrightarrow> side (hd ms) \<noteq> None"
    unfolding ms agreed_def by auto
qed

lemma count_by_block:
  assumes "distinct (n # ns)" "set cs \<subseteq> set (n # ns)" "n \<in> set cs" "distinct cs" "\<And>x. x \<in> set cs \<Longrightarrow> P x = P n"
  shows "length (filter P (n # ns)) = (if P n then length cs else 0) + length (filter P (filter (\<lambda>x. x \<notin> set cs) ns))"
proof -
  have split: "length (filter P xs) =
      length (filter (\<lambda>x. x \<in> set cs \<and> P x) xs) + length (filter P (filter (\<lambda>x. x \<notin> set cs) xs))" for xs
    by (induction xs) auto
  have block: "filter (\<lambda>x. x \<in> set cs \<and> P x) xs = (if P n then filter (\<lambda>x. x \<in> set cs) xs else [])" for xs
    using assms(5) by (induction xs) auto
  have "set (filter (\<lambda>x. x \<in> set cs) (n # ns)) = set cs" using assms(2) by auto
  then have "length (filter (\<lambda>x. x \<in> set cs) (n # ns)) = length cs"
    using assms(1,4) by (metis distinct_card distinct_filter)
  with split [of "n # ns"] block [of "n # ns"] assms(3) show ?thesis by (auto split: if_splits)
qed

text \<open>The sides the loop assigns: each component whose members agree gets the side they agree on.\<close>

definition settled_sides ::
    "(ObjectNode \<Rightarrow> ObjectNode list) \<Rightarrow> (ObjectNode \<Rightarrow> BundleConflictResolution option) \<Rightarrow> ObjectNode list \<Rightarrow>
     ResolvedSides \<Rightarrow> ResolvedSides" where
  "settled_sides component side ns sides = (\<lambda>n. if n \<in> set ns \<and> agreed side (component n) then side n else sides n)"

section \<open>Components partition the conflicts\<close>

text \<open>
  The contract the resolution loop relies on: the component of a conflict holds it, and a member of
  a component has the same component.
\<close>

locale components =
  fixes component :: "ObjectNode \<Rightarrow> ObjectNode list" and universe :: "ObjectNode list"
  assumes component_self: "n \<in> set universe \<Longrightarrow> n \<in> set (component n)"
    and component_universe: "set (component n) \<subseteq> set universe"
    and component_eq: "n \<in> set universe \<Longrightarrow> m \<in> set (component n) \<Longrightarrow> component m = component n"
    and component_distinct: "distinct universe \<Longrightarrow> distinct (component n)"
begin

text \<open>What remains after a component is removed is again a union of components.\<close>

definition saturated :: "ObjectNode list \<Rightarrow> bool" where
  "saturated ns \<longleftrightarrow> distinct ns \<and> set ns \<subseteq> set universe \<and> (\<forall>n \<in> set ns. set (component n) \<subseteq> set ns)"

lemma saturated_rest:
  assumes "saturated (n # ns)"
  shows "saturated (filter (\<lambda>x. x \<notin> set (component n)) ns)"
proof -
  have n: "n \<in> set universe" and sub: "set ns \<subseteq> set universe" using assms by (auto simp: saturated_def)
  note self = component_self [OF n]
  have "set (component m) \<subseteq> set ns - set (component n)" if m: "m \<in> set ns" "m \<notin> set (component n)" for m
  proof
    fix x assume x: "x \<in> set (component m)"
    have mu: "m \<in> set universe" using m sub by blast
    have cx: "component x = component m" using component_eq [OF mu x] .
    have "x \<notin> set (component n)"
    proof
      assume "x \<in> set (component n)"
      with component_eq [OF n] cx have "component m = component n" by simp
      with component_self [OF mu] m show False by simp
    qed
    moreover have "x \<in> set (n # ns)" using assms m x by (auto simp: saturated_def)
    ultimately show "x \<in> set ns - set (component n)" using self by auto
  qed
  with assms show ?thesis by (auto simp: saturated_def)
qed

lemma unresolved_count:
  assumes "saturated (n # ns)" "distinct universe"
  shows "length (filter (\<lambda>x. \<not> agreed side (component x)) (n # ns)) =
     (if \<not> agreed side (component n) then length (component n) else 0) +
     length (filter (\<lambda>x. \<not> agreed side (component x)) (filter (\<lambda>x. x \<notin> set (component n)) ns))"
proof -
  have n: "n \<in> set universe" using assms(1) by (simp add: saturated_def)
  have "agreed side (component x) = agreed side (component n)" if "x \<in> set (component n)" for x
    using component_eq [OF n that] by simp
  then have same: "(\<not> agreed side (component x)) = (\<not> agreed side (component n))" if "x \<in> set (component n)" for x
    using that by blast
  have d: "distinct (n # ns)" and sub: "set (component n) \<subseteq> set (n # ns)"
    using assms(1) unfolding saturated_def by (blast, simp)
  show ?thesis
    by (rule count_by_block [OF d sub component_self [OF n] component_distinct [OF assms(2)]]) (rule same)
qed

lemma settled_step:
  assumes "saturated (n # ns)" "agreed side (component n)" "side (hd (component n)) = Some s"
  shows "settled_sides component side (filter (\<lambda>x. x \<notin> set (component n)) ns) (assign (component n) s sides) = settled_sides component side (n # ns) sides"
proof
  fix x
  have n: "n \<in> set universe" and sub: "set (component n) \<subseteq> set (n # ns)" using assms by (auto simp: saturated_def)
  have ne: "component n \<noteq> []" using component_self [OF n] by auto
  show "settled_sides component side (filter (\<lambda>x. x \<notin> set (component n)) ns) (assign (component n) s sides) x = settled_sides component side (n # ns) sides x"
  proof (cases "x \<in> set (component n)")
    case True
    from component_side_spec(3) [OF ne assms(2) True] component_eq [OF n True] True sub assms(2,3) show ?thesis
      by (auto simp: settled_sides_def assign_def)
  next
    case False
    with component_self [OF n] show ?thesis by (auto simp: settled_sides_def assign_def)
  qed
qed

lemma settled_skip:
  assumes "saturated (n # ns)" "\<not> agreed side (component n)"
  shows "settled_sides component side (filter (\<lambda>x. x \<notin> set (component n)) ns) sides = settled_sides component side (n # ns) sides"
proof
  fix x
  have n: "n \<in> set universe" using assms by (auto simp: saturated_def)
  from component_eq [OF n, of x] component_self [OF n] assms(2)
  show "settled_sides component side (filter (\<lambda>x. x \<notin> set (component n)) ns) sides x = settled_sides component side (n # ns) sides x"
    by (cases "x \<in> set (component n)") (auto simp: settled_sides_def)
qed

lemma resolve_loop_saturated:
  assumes "distinct universe" "saturated ns"
  shows "resolve_loop component side ns sides unresolved =
    Some (settled_sides component side ns sides, unresolved + length (filter (\<lambda>x. \<not> agreed side (component x)) ns))"
  using assms(2)
proof (induction "length ns" arbitrary: ns sides unresolved rule: less_induct)
  case less
  show ?case
  proof (cases ns)
    case Nil
    then show ?thesis by (simp add: settled_sides_def)
  next
    case (Cons n rest)
    let ?rest = "filter (\<lambda>x. x \<notin> set (component n)) rest"
    have sat: "saturated (n # rest)" using less.prems Cons by simp
    have n: "n \<in> set universe" using sat by (simp add: saturated_def)
    have ne: "component n \<noteq> []" using component_self [OF n] by auto
    have IH: "resolve_loop component side ?rest sides' u =
        Some (settled_sides component side ?rest sides', u + length (filter (\<lambda>x. \<not> agreed side (component x)) ?rest))" for sides' u
      using less.hyps [OF _ saturated_rest [OF sat]] Cons by (simp add: le_imp_less_Suc)
    note count = unresolved_count [OF sat assms(1), of side]
    show ?thesis
    proof (cases "agreed side (component n)")
      case True
      then obtain s where s: "side (hd (component n)) = Some s" using component_side_spec(4) [OF ne] by blast
      have "resolve_loop component side ns sides unresolved =
          resolve_loop component side ?rest (assign (component n) s sides) unresolved"
        using component_side_spec(2) [OF ne True] s by (simp add: Cons resolve_loop.simps(2) Let_def)
      with IH count True settled_step [OF sat True s] show ?thesis by (simp only: Cons) simp
    next
      case False
      obtain c k where ck: "component_side side (component n) None True = (c, k)" by force
      have "\<not> k" using component_side_spec(1) [OF ne, of side] False ck by simp
      then have "resolve_loop component side ns sides unresolved =
          resolve_loop component side ?rest sides (unresolved + length (component n))"
        using ck by (simp add: Cons resolve_loop.simps(2) Let_def)
      with IH count False settled_skip [OF sat False] show ?thesis by (simp only: Cons) simp
    qed
  qed
qed

lemma resolve_loop_universe:
  assumes "distinct universe"
  shows "resolve_loop component side universe sides unresolved =
    Some (settled_sides component side universe sides,
      unresolved + length (filter (\<lambda>x. \<not> agreed side (component x)) universe))"
  using component_universe assms by (intro resolve_loop_saturated) (auto simp: saturated_def)

end

interpretation conflict: components "conflict_component bs conflicts" conflicts
proof
  fix n m
  show "n \<in> set conflicts \<Longrightarrow> n \<in> set (conflict_component bs conflicts n)"
    by (simp add: conflict_component_def expand_conflict_closure_reaches)
  show "set (conflict_component bs conflicts n) \<subseteq> set conflicts" by (simp add: conflict_component_def)
  show "distinct conflicts \<Longrightarrow> distinct (conflict_component bs conflicts n)" by (simp add: conflict_component_def)
  assume "m \<in> set (conflict_component bs conflicts n)"
  then have "(n, m) \<in> (linked bs)\<^sup>*" by (simp add: conflict_component_def expand_conflict_closure_reaches)
  moreover then have "(m, n) \<in> (linked bs)\<^sup>*" using sym_rtrancl [OF linked_sym] by (metis symD)
  ultimately have "(linked bs)\<^sup>* `` {m} = (linked bs)\<^sup>* `` {n}" by (auto intro: rtrancl_trans)
  then show "conflict_component bs conflicts m = conflict_component bs conflicts n"
    by (simp add: conflict_component_def expand_conflict_closure_reaches)
qed

section \<open>Resolution\<close>

lemma newest_side_never_newest: "newest_side l r now \<noteq> Some Newest"
  by (simp add: newest_side_def split: option.splits)

lemma member_side_never_newest: "member_side local remote cr dr now m \<noteq> Some Newest"
  using newest_side_never_newest
  by (auto simp: member_side_def Let_def split: option.splits BundleConflictResolution.splits)

definition side_ok :: "ObjectNode list \<Rightarrow> ResolvedSides \<Rightarrow> nat \<Rightarrow> bool" where
  "side_ok conflicts sides unresolved \<longleftrightarrow>
     (\<forall>n. sides n \<noteq> Some Newest) \<and> (unresolved = 0 \<longrightarrow> (\<forall>n \<in> set conflicts. sides n \<noteq> None))"

lemma agreed_side: "agreed side ms \<Longrightarrow> m \<in> set ms \<Longrightarrow> side m \<noteq> None"
  by (auto simp: agreed_def)

lemma outcome_ok:
  assumes "\<And>n. side n \<noteq> Some Newest" "distinct conflicts"
  shows "side_ok conflicts (settled_sides (conflict_component bs conflicts) side conflicts Map.empty)
     (length (filter (\<lambda>x. \<not> agreed side (conflict_component bs conflicts x)) conflicts))"
proof -
  have "side n \<noteq> None" if "n \<in> set conflicts" "agreed side (conflict_component bs conflicts n)" for n
    using agreed_side [OF that(2) conflict.component_self [OF that(1)]] .
  with assms(1) show ?thesis
    by (auto simp: side_ok_def settled_sides_def filter_empty_conv simp del: split_paired_All split_paired_Ex)
qed

lemma resolve_conflicts_ok:
  assumes "distinct conflicts"
  shows "\<exists>sides u. resolve_conflicts bs conflicts local remote cr dr now = Some (sides, u) \<and> side_ok conflicts sides u"
proof -
  let ?r = "resolve_conflicts bs conflicts local remote cr dr now"
  consider "conflicts = []" | "conflicts \<noteq> []" "cr = None" "dr = None"
    | "conflicts \<noteq> []" "cr \<in> {Some KeepLocal, Some UseRemote}" "cr = dr"
    | "conflicts \<noteq> []" "\<not> (cr = None \<and> dr = None)" "\<not> (cr \<in> {Some KeepLocal, Some UseRemote} \<and> cr = dr)" by blast
  then show ?thesis
  proof cases
    case 1
    then show ?thesis by (simp add: resolve_conflicts_def side_ok_def)
  next
    case 2
    then show ?thesis by (simp add: resolve_conflicts_def side_ok_def)
  next
    case 3
    have sub: "set conflicts \<subseteq> set (expand_conflict_closure bs conflicts)"
      by (auto simp: expand_conflict_closure_reaches)
    from 3 have "side_ok conflicts (assign ns (the cr) Map.empty) 0" if "set conflicts \<subseteq> set ns" for ns
      using that by (auto simp: side_ok_def assign_def)
    with 3 sub show ?thesis by (auto simp: resolve_conflicts_def Let_def)
  next
    case 4
    then have "?r = resolve_loop (conflict_component bs conflicts) (member_side local remote cr dr now) conflicts Map.empty 0"
      by (simp only: resolve_conflicts_def if_False simp_thms)
    also have "\<dots> = Some (settled_sides (conflict_component bs conflicts) (member_side local remote cr dr now) conflicts Map.empty,
        length (filter (\<lambda>x. \<not> agreed (member_side local remote cr dr now) (conflict_component bs conflicts x)) conflicts))"
      by (simp only: conflict.resolve_loop_universe [OF assms] add_0)
    finally show ?thesis
      using outcome_ok [of "member_side local remote cr dr now" conflicts bs, OF member_side_never_newest assms] by blast
  qed
qed

definition settles ::
    "'v PortableBundleV1 list \<Rightarrow> ObjectNode list \<Rightarrow> (ObjectNode \<Rightarrow> BundleConflictResolution option) \<Rightarrow> ObjectNode \<Rightarrow> bool" where
  "settles bs conflicts side n \<longleftrightarrow> (\<exists>s. \<forall>m \<in> set conflicts. (n, m) \<in> (linked bs)\<^sup>* \<longrightarrow> side m = Some s)"

lemma settles_iff: "settles bs conflicts side n \<longleftrightarrow> agreed side (conflict_component bs conflicts n)"
  by (simp add: settles_def agreed_def conflict_component_def expand_conflict_closure_reaches del: split_paired_All) blast

text \<open>
  (C23) Where the policies decide conflict by conflict, the loop settles exactly the conflicts whose
  whole component of dependent conflicts is decided for one side, gives each the side its own
  policy picked, and counts all the others as unresolved. It always ends with such a result.
\<close>

theorem conflicts_settled_by_component:
  assumes "distinct conflicts" "\<not> (cr = None \<and> dr = None)" "\<not> (cr \<in> {Some KeepLocal, Some UseRemote} \<and> cr = dr)"
  shows "resolve_conflicts bs conflicts local remote cr dr now =
    Some (\<lambda>n. if n \<in> set conflicts \<and> settles bs conflicts (member_side local remote cr dr now) n
               then member_side local remote cr dr now n else None,
          length (filter (\<lambda>n. \<not> settles bs conflicts (member_side local remote cr dr now) n) conflicts))"
  using assms(2,3)
  by (cases "conflicts = []")
    (simp_all only: resolve_conflicts_def if_False if_True simp_thms conflict.resolve_loop_universe [OF assms(1)]
      settles_iff settled_sides_def add_0 list.set empty_iff filter.simps list.size)

theorem conflicts_settled_by_component_witness:
  "resolve_conflicts [sample_bundle []] [(Host, 1), (Host, 2)] (sample_bundle []) (sample_bundle []) (Some Newest) (Some KeepLocal) 0 =
     Some (\<lambda>n. if n \<in> set [(Host, 1), (Host, 2)] \<and> settles [sample_bundle []] [(Host, 1), (Host, 2)]
                    (member_side (sample_bundle []) (sample_bundle []) (Some Newest) (Some KeepLocal) 0) n
                then member_side (sample_bundle []) (sample_bundle []) (Some Newest) (Some KeepLocal) 0 n else None,
           length (filter (\<lambda>n. \<not> settles [sample_bundle []] [(Host, 1), (Host, 2)]
                    (member_side (sample_bundle []) (sample_bundle []) (Some Newest) (Some KeepLocal) 0) n) [(Host, 1), (Host, 2)]))"
  by (rule conflicts_settled_by_component) simp_all

end
