(* ===== verification/SyncThreeWay.thy ===== *)
theory SyncThreeWay
  imports SyncMerge
begin

text \<open>
  The specification of the three-way merge and the proof that \<open>SyncMerge\<close> implements it. An object
  is absent, live or deleted in a bundle; the specification merges these states one object at a
  time, and the refinement shows that the merge of whole bundles does that for all kinds at once.
\<close>

section \<open>The specification: a three-way merge of item states\<close>

text \<open>
  An object is absent, live with a value, or deleted by a tombstone. A side that has nothing to say
  about an object that is not live in the base is taken to agree with the base.
\<close>

datatype 'a item_state = Absent | Live 'a | Deleted

definition state_of :: "'a option \<Rightarrow> bool \<Rightarrow> 'a item_state" where
  "state_of v deleted = (case v of Some x \<Rightarrow> Live x | None \<Rightarrow> if deleted then Deleted else Absent)"

definition observed :: "'a item_state \<Rightarrow> 'a item_state \<Rightarrow> 'a item_state" where
  "observed base side = (case (base, side) of (Live _, _) \<Rightarrow> side | (_, Absent) \<Rightarrow> base | _ \<Rightarrow> side)"

definition diff3 :: "'a item_state \<Rightarrow> 'a item_state \<Rightarrow> 'a item_state \<Rightarrow> 'a item_state option" where
  "diff3 base l r =
     (if r = base then Some l else if l = base then Some r else if l = r then Some l else None)"

definition merged_state ::
    "BundleConflictResolution option \<Rightarrow> 'a item_state \<Rightarrow> 'a item_state \<Rightarrow> 'a item_state \<Rightarrow> 'a item_state option" where
  "merged_state side base l r =
     (case side of
        Some KeepLocal \<Rightarrow> Some (observed base l)
      | Some UseRemote \<Rightarrow> Some (observed base r)
      | _ \<Rightarrow> diff3 base (observed base l) (observed base r))"

section \<open>Entries refine the specification\<close>

lemma state_of_inject:
  "\<not> (v \<noteq> None \<and> d) \<Longrightarrow> \<not> (v' \<noteq> None \<and> d') \<Longrightarrow> state_of v d = state_of v' d' \<longleftrightarrow> v = v' \<and> d = d'"
  by (auto simp: state_of_def split: option.splits if_splits)

lemma edit_state:
  fixes bv v :: "'a option"
  assumes "\<not> (bv \<noteq> None \<and> bd)" "\<not> (v \<noteq> None \<and> d)"
  defines "e \<equiv> edit_for (bv \<noteq> None) v d" and "s \<equiv> observed (state_of bv bd) (state_of v d)"
  shows "app_value (apply_edit bv e) = v"
    and "app_tombstone (apply_edit bv e) = d"
    and "changed bv bd e (apply_edit bv e) \<longleftrightarrow> s \<noteq> state_of bv bd"
    and "s \<noteq> state_of bv bd \<Longrightarrow> s = state_of v d"
    and "s = state_of v (d \<or> bd)"
  using assms(1,2) unfolding e_def s_def
  by (cases v; cases d; cases bv; cases bd;
      simp add: edit_for_def apply_edit_def changed_def observed_def state_of_def)+

definition b_state :: "'a kind_view \<Rightarrow> PortableObjectId \<Rightarrow> 'a item_state" where
  "b_state w i = state_of (base_value w i) (base_deleted w i)"

definition l_state :: "'a kind_view \<Rightarrow> PortableObjectId \<Rightarrow> 'a item_state" where
  "l_state w i = state_of (value_map (id_of w) (v_local w) i) ((kind_of w, i) \<in> set (t_local w))"

definition r_state :: "'a kind_view \<Rightarrow> PortableObjectId \<Rightarrow> 'a item_state" where
  "r_state w i = state_of (value_map (id_of w) (v_remote w) i) ((kind_of w, i) \<in> set (t_remote w))"

text \<open>In a valid bundle a live object has no tombstone.\<close>

definition valid_view :: "'a kind_view \<Rightarrow> bool" where
  "valid_view w \<longleftrightarrow>
     (\<forall>i. \<not> (base_value w i \<noteq> None \<and> base_deleted w i) \<and>
          \<not> (value_map (id_of w) (v_local w) i \<noteq> None \<and> (kind_of w, i) \<in> set (t_local w)) \<and>
          \<not> (value_map (id_of w) (v_remote w) i \<noteq> None \<and> (kind_of w, i) \<in> set (t_remote w)))"

lemma conflict_iff:
  assumes "valid_view w"
  shows "(k, i) \<in> set (conflict_ids w) \<longleftrightarrow> k = kind_of w \<and> i \<in> set (view_ids w) \<and>
    diff3 (b_state w i) (observed (b_state w i) (l_state w i)) (observed (b_state w i) (r_state w i)) = None"
proof -
  let ?bv = "base_value w i" and ?bd = "base_deleted w i" and ?lv = "value_map (id_of w) (v_local w) i"
    and ?rv = "value_map (id_of w) (v_remote w) i" and ?ld = "(kind_of w, i) \<in> set (t_local w)"
    and ?rd = "(kind_of w, i) \<in> set (t_remote w)"
  have v: "\<not> (?bv \<noteq> None \<and> ?bd)" "\<not> (?lv \<noteq> None \<and> ?ld)" "\<not> (?rv \<noteq> None \<and> ?rd)"
    using assms unfolding valid_view_def by blast+
  note l = edit_state [OF v(1,2)] and r = edit_state [OF v(1,3)]
  have "(k, i) \<in> set (conflict_ids w) \<longleftrightarrow> k = kind_of w \<and> i \<in> set (view_ids w) \<and>
      observed (b_state w i) (l_state w i) \<noteq> b_state w i \<and> observed (b_state w i) (r_state w i) \<noteq> b_state w i \<and>
      (?lv \<noteq> ?rv \<or> ?ld \<noteq> ?rd)"
    using l(1-3) r(1-3)
    by (auto simp: conflict_ids_def Let_def local_edit_def remote_edit_def b_state_def l_state_def r_state_def)
  moreover have "observed (b_state w i) (l_state w i) \<noteq> b_state w i \<Longrightarrow> observed (b_state w i) (r_state w i) \<noteq> b_state w i \<Longrightarrow>
      observed (b_state w i) (l_state w i) = observed (b_state w i) (r_state w i) \<longleftrightarrow> ?lv = ?rv \<and> ?ld = ?rd"
    using l(4) r(4) state_of_inject [OF v(2,3)] by (simp add: b_state_def l_state_def r_state_def)
  ultimately show ?thesis by (auto simp: diff3_def)
qed

lemma merge_entry_state:
  assumes "valid_view w" "sides (kind_of w, i) \<noteq> Some Newest"
    and "merged_state (sides (kind_of w, i)) (b_state w i) (l_state w i) (r_state w i) = Some s"
  shows "\<exists>a. merge_entry w sides i = Some a \<and> state_of (app_value a) (app_tombstone a \<or> base_deleted w i) = s \<and>
    app_value a \<in> {base_value w i, value_map (id_of w) (v_local w) i, value_map (id_of w) (v_remote w) i}"
proof -
  let ?bv = "base_value w i" and ?bd = "base_deleted w i" and ?lv = "value_map (id_of w) (v_local w) i"
    and ?rv = "value_map (id_of w) (v_remote w) i" and ?ld = "(kind_of w, i) \<in> set (t_local w)"
    and ?rd = "(kind_of w, i) \<in> set (t_remote w)"
  have v: "\<not> (?bv \<noteq> None \<and> ?bd)" "\<not> (?lv \<noteq> None \<and> ?ld)" "\<not> (?rv \<noteq> None \<and> ?rd)"
    using assms(1) unfolding valid_view_def by blast+
  note l = edit_state [OF v(1,2), folded local_edit_def] and r = edit_state [OF v(1,3), folded remote_edit_def]
  let ?B = "b_state w i" and ?L = "observed (b_state w i) (l_state w i)" and ?R = "observed (b_state w i) (r_state w i)"
  have L: "?L = state_of ?lv (?ld \<or> ?bd)" and R: "?R = state_of ?rv (?rd \<or> ?bd)"
    unfolding b_state_def l_state_def r_state_def by (rule l(5), rule r(5))
  have same: "?lv = ?rv \<and> ?ld = ?rd" if "?L \<noteq> ?B" "?R \<noteq> ?B" "?L = ?R"
  proof -
    have "?L = state_of ?lv ?ld" using that(1) unfolding b_state_def l_state_def by (rule l(4))
    moreover have "?R = state_of ?rv ?rd" using that(2) unfolding b_state_def r_state_def by (rule r(4))
    ultimately have "state_of ?lv ?ld = state_of ?rv ?rd" by (rule box_equals [OF that(3)])
    then show ?thesis using state_of_inject [OF v(2,3)] by blast
  qed
  have ch: "changed ?bv ?bd (local_edit w i) (apply_edit ?bv (local_edit w i)) \<longleftrightarrow> ?L \<noteq> ?B"
    "changed ?bv ?bd (remote_edit w i) (apply_edit ?bv (remote_edit w i)) \<longleftrightarrow> ?R \<noteq> ?B"
    unfolding b_state_def l_state_def r_state_def by (rule l(3), rule r(3))
  have B: "?B = state_of ?bv (?bd \<or> ?bd)" by (simp add: b_state_def)
  note entry = merge_entry_def Let_def ch l(1,2) r(1,2)
  consider "sides (kind_of w, i) = Some KeepLocal" | "sides (kind_of w, i) = Some UseRemote" | "sides (kind_of w, i) = None"
    using assms(2) by (metis BundleConflictResolution.exhaust option.exhaust)
  then show ?thesis
  proof cases
    case 1
    then show ?thesis using assms(3) L l(1,2) by (simp add: merge_entry_def Let_def merged_state_def)
  next
    case 2
    then show ?thesis using assms(3) R r(1,2) by (simp add: merge_entry_def Let_def merged_state_def)
  next
    case 3
    then have d: "diff3 ?B ?L ?R = Some s" using assms(3) by (simp add: merged_state_def)
    consider "?L = ?B" "?R = ?B" | "?L \<noteq> ?B" "?R = ?B" | "?L = ?B" "?R \<noteq> ?B" | "?L \<noteq> ?B" "?R \<noteq> ?B" by blast
    then show ?thesis
    proof cases
      case a: 1
      with 3 ch d B show ?thesis by (simp add: merge_entry_def Let_def diff3_def)
    next
      case a: 2
      with 3 ch d L l(1,2) show ?thesis by (simp add: merge_entry_def Let_def diff3_def)
    next
      case a: 3
      with 3 ch d R r(1,2) show ?thesis by (simp add: merge_entry_def Let_def diff3_def)
    next
      case a: 4
      with d have e: "?L = ?R" "s = ?L" by (auto simp: diff3_def split: if_splits)
      from same [OF a e(1)] 3 ch a e L l(1,2) r(1,2) show ?thesis by (simp add: merge_entry_def Let_def)
    qed
  qed
qed

section \<open>One kind refines the specification\<close>

lemma value_map_SomeD: "value_map idf xs i = Some v \<Longrightarrow> v \<in> set xs \<and> idf v = i"
  unfolding value_map_def by (drule collect_map_Some) auto

lemma value_map_Some:
  assumes "distinct (map idf xs)"
  shows "value_map idf xs i = Some v \<longleftrightarrow> v \<in> set xs \<and> idf v = i"
proof -
  have "distinct (map fst (rev (map (\<lambda>x. (idf x, x)) xs)))" using assms by (simp add: rev_map [symmetric] comp_def)
  from map_of_eq_Some_iff [OF this] show ?thesis by (auto simp: value_map_def collect_map_def)
qed

lemma value_map_None: "value_map idf xs i = None \<longleftrightarrow> i \<notin> idf ` set xs"
  by (auto simp: value_map_def collect_map_def map_of_eq_None_iff image_image)

lemma merge_entries_Some:
  assumes "\<forall>i \<in> set is. entry i \<noteq> None \<and> (\<forall>v. app_value (the (entry i)) = Some v \<longrightarrow> idf v = i)"
  shows "\<exists>vs ds. merge_entries entry is = Some (vs, ds) \<and>
    map idf vs = filter (\<lambda>i. app_value (the (entry i)) \<noteq> None) is \<and>
    (\<forall>v. v \<in> set vs \<longleftrightarrow> (\<exists>i \<in> set is. app_value (the (entry i)) = Some v)) \<and>
    (\<forall>i. i \<in> set ds \<longleftrightarrow> i \<in> set is \<and> app_value (the (entry i)) = None \<and> app_tombstone (the (entry i)))"
  using assms
proof (induction "is")
  case (Cons i "is")
  obtain a where a: "entry i = Some a" using Cons.prems by auto
  from Cons.prems have "\<forall>i \<in> set is. entry i \<noteq> None \<and> (\<forall>v. app_value (the (entry i)) = Some v \<longrightarrow> idf v = i)" by simp
  from Cons.IH [OF this] obtain vs ds where IH: "merge_entries entry is = Some (vs, ds)"
    "map idf vs = filter (\<lambda>i. app_value (the (entry i)) \<noteq> None) is"
    "\<forall>v. v \<in> set vs \<longleftrightarrow> (\<exists>i \<in> set is. app_value (the (entry i)) = Some v)"
    "\<forall>i. i \<in> set ds \<longleftrightarrow> i \<in> set is \<and> app_value (the (entry i)) = None \<and> app_tombstone (the (entry i))"
    by blast
  show ?case
  proof (cases "app_value a")
    case None
    with a IH show ?thesis by (cases "app_tombstone a") auto
  next
    case (Some v)
    with a IH Cons.prems show ?thesis by auto
  qed
qed simp

lemma view_ids_props: "distinct (view_ids w)" "sorted (view_ids w)"
  by (simp_all add: view_ids_def btree_set_def)

lemma view_ids_absent:
  assumes "i \<notin> set (view_ids w)"
  shows "b_state w i = Absent" "l_state w i = Absent" "r_state w i = Absent" "\<not> base_deleted w i"
proof -
  have "i \<notin> id_of w ` set (v_base w)" "i \<notin> id_of w ` set (v_local w)" "i \<notin> id_of w ` set (v_remote w)"
    "(kind_of w, i) \<notin> set (t_base w)" "(kind_of w, i) \<notin> set (t_local w)" "(kind_of w, i) \<notin> set (t_remote w)"
    using assms by (auto simp: view_ids_def btree_set_def kind_ids_def image_iff)
  then show "b_state w i = Absent" "l_state w i = Absent" "r_state w i = Absent" "\<not> base_deleted w i"
    by (simp_all add: b_state_def l_state_def r_state_def base_value_def base_deleted_def state_of_def
        value_map_None [THEN iffD2])
qed

definition sides_ok :: "'a kind_view \<Rightarrow> ResolvedSides \<Rightarrow> bool" where
  "sides_ok w sides \<longleftrightarrow> (\<forall>n. sides n \<noteq> Some Newest) \<and> (\<forall>n \<in> set (conflict_ids w). sides n \<noteq> None)"

lemma merged_state_defined:
  assumes "valid_view w" "sides_ok w sides"
  shows "\<exists>s. merged_state (sides (kind_of w, i)) (b_state w i) (l_state w i) (r_state w i) = Some s"
proof (cases "i \<in> set (view_ids w)")
  case True
  show ?thesis
  proof (cases "sides (kind_of w, i)")
    case None
    with assms(2) have "(kind_of w, i) \<notin> set (conflict_ids w)" by (auto simp: sides_ok_def)
    with conflict_iff [OF assms(1), of "kind_of w" i] True None show ?thesis by (auto simp: merged_state_def)
  next
    case (Some x)
    with assms(2) show ?thesis by (cases x) (auto simp: sides_ok_def merged_state_def)
  qed
next
  case False
  with view_ids_absent [OF this] show ?thesis
    by (auto simp: merged_state_def observed_def diff3_def split: option.splits BundleConflictResolution.splits)
qed

lemma merge_values_state:
  assumes "valid_view w" "sides_ok w sides"
  shows "\<exists>vs ds. merge_values w sides = Some (vs, ds) \<and> sorted (map (id_of w) vs) \<and> distinct (map (id_of w) vs) \<and>
    (\<forall>i. merged_state (sides (kind_of w, i)) (b_state w i) (l_state w i) (r_state w i) =
       Some (state_of (value_map (id_of w) vs i) (i \<in> set ds \<or> base_deleted w i)))"
proof -
  let ?e = "merge_entry w sides"
  have never: "sides (kind_of w, i) \<noteq> Some Newest" for i using assms(2) by (simp add: sides_ok_def)
  have entry: "\<exists>a. ?e i = Some a \<and>
      merged_state (sides (kind_of w, i)) (b_state w i) (l_state w i) (r_state w i) =
        Some (state_of (app_value a) (app_tombstone a \<or> base_deleted w i)) \<and>
      app_value a \<in> {base_value w i, value_map (id_of w) (v_local w) i, value_map (id_of w) (v_remote w) i}" for i
  proof -
    obtain s where s: "merged_state (sides (kind_of w, i)) (b_state w i) (l_state w i) (r_state w i) = Some s"
      using merged_state_defined [OF assms, of i] by blast
    with merge_entry_state [of w sides i s, OF assms(1) never s] show ?thesis by auto
  qed
  have idv: "id_of w v = i" if "?e i = Some a" "app_value a = Some v" for i a v
  proof -
    have "Some v \<in> {base_value w i, value_map (id_of w) (v_local w) i, value_map (id_of w) (v_remote w) i}"
      using entry [of i] that by auto
    then show ?thesis by (auto simp: base_value_def dest: value_map_SomeD [OF sym])
  qed
  have "\<forall>i \<in> set (view_ids w). ?e i \<noteq> None \<and> (\<forall>v. app_value (the (?e i)) = Some v \<longrightarrow> id_of w v = i)"
  proof (intro ballI conjI allI impI)
    fix i v assume "app_value (the (?e i)) = Some v"
    moreover obtain a where "?e i = Some a" using entry [of i] by blast
    ultimately show "id_of w v = i" using idv [of i a v] by simp
  qed (use entry in blast)
  from merge_entries_Some [OF this] obtain vs ds where m: "merge_entries ?e (view_ids w) = Some (vs, ds)"
    "map (id_of w) vs = filter (\<lambda>i. app_value (the (?e i)) \<noteq> None) (view_ids w)"
    "\<forall>v. v \<in> set vs \<longleftrightarrow> (\<exists>i \<in> set (view_ids w). app_value (the (?e i)) = Some v)"
    "\<forall>i. i \<in> set ds \<longleftrightarrow> i \<in> set (view_ids w) \<and> app_value (the (?e i)) = None \<and> app_tombstone (the (?e i))"
    by blast
  have d: "distinct (map (id_of w) vs)" and so: "sorted (map (id_of w) vs)"
    unfolding m(2) using view_ids_props [of w] by (simp_all add: sorted_filter [of id, simplified])
  have "merged_state (sides (kind_of w, i)) (b_state w i) (l_state w i) (r_state w i) =
      Some (state_of (value_map (id_of w) vs i) (i \<in> set ds \<or> base_deleted w i))" for i
  proof -
    from entry [of i] obtain a where a: "?e i = Some a"
      "merged_state (sides (kind_of w, i)) (b_state w i) (l_state w i) (r_state w i) =
        Some (state_of (app_value a) (app_tombstone a \<or> base_deleted w i))" by blast
    show ?thesis
    proof (cases "i \<in> set (view_ids w)")
      case True
      have "value_map (id_of w) vs i = app_value a"
      proof (cases "app_value a")
        case None
        then have "i \<notin> set (map (id_of w) vs)" unfolding m(2) using a(1) by simp
        with None show ?thesis by (simp add: value_map_None)
      next
        case (Some v)
        then have "v \<in> set vs" using m(3) True a(1) by force
        with Some idv [OF a(1) Some] d show ?thesis by (simp add: value_map_Some)
      qed
      moreover have "i \<in> set ds \<longleftrightarrow> app_value a = None \<and> app_tombstone a" using m(4) True a(1) by simp
      ultimately show ?thesis using a(2) by (auto simp: state_of_def split: option.splits)
    next
      case False
      have "value_map (id_of w) vs i = None"
      proof -
        have "i \<notin> set (map (id_of w) vs)" unfolding m(2) using False by simp
        then show ?thesis by (simp add: value_map_None)
      qed
      moreover have "i \<notin> set ds" using m(4) False by simp
      ultimately show ?thesis using view_ids_absent [OF False]
        by (simp add: merged_state_def observed_def diff3_def state_of_def split: option.splits BundleConflictResolution.splits)
    qed
  qed
  with m(1) d so show ?thesis by (auto simp: merge_values_def)
qed

section \<open>All kinds refine the specification\<close>

text \<open>The object a node names, whatever its kind, and its state in a bundle.\<close>

datatype portable_object =
    HostObject PortableHost
  | DesktopObject PortableDesktopProfile
  | IdentityObject PortableIdentity
  | CredentialObject PortableCredential
  | RouteObject PortableRoute
  | PlanObject PortableAuthenticationPlan
  | AlgorithmObject PortableAlgorithmPolicy
  | HeartbeatObject PortableHeartbeatPolicy
  | MonitoringObject PortableMonitoringPolicy
  | LoginObject PortableLoginAutomation
  | SecretObject PortableSecret

definition lookup_object :: "PortableObjects \<Rightarrow> PortableSecret list \<Rightarrow> ObjectNode \<Rightarrow> portable_object option" where
  "lookup_object os ss n =
     (case n of (k, i) \<Rightarrow>
        (case k of
           Host \<Rightarrow> map_option HostObject (value_map host_id (hosts os) i)
         | DesktopProfile \<Rightarrow> map_option DesktopObject (value_map desktop_id (desktop_profiles os) i)
         | Identity \<Rightarrow> map_option IdentityObject (value_map identity_id (identities os) i)
         | Credential \<Rightarrow> map_option CredentialObject (value_map credential_id (credentials os) i)
         | Route \<Rightarrow> map_option RouteObject (value_map route_id (routes os) i)
         | AuthenticationPlan \<Rightarrow> map_option PlanObject (value_map plan_id (authentication_plans os) i)
         | AlgorithmPolicy \<Rightarrow> map_option AlgorithmObject (value_map algorithm_id (algorithm_policies os) i)
         | HeartbeatPolicy \<Rightarrow> map_option HeartbeatObject (value_map heartbeat_id (heartbeat_policies os) i)
         | MonitoringPolicy \<Rightarrow> map_option MonitoringObject (value_map monitoring_id (monitoring_policies os) i)
         | LoginAutomation \<Rightarrow> map_option LoginObject (value_map login_id (login_automations os) i)
         | Secret \<Rightarrow> map_option SecretObject (value_map secret_id ss i)))"

definition item_state :: "'v PortableBundleV1 \<Rightarrow> ObjectNode \<Rightarrow> portable_object item_state" where
  "item_state b n = state_of (lookup_object (objects b) (secrets b) n) (has_tombstone b n)"

lemma tombstone_set_iff: "n \<in> set (tombstone_set b) \<longleftrightarrow> has_tombstone b n"
  by (auto simp: tombstone_set_def btree_set_def has_tombstone_def list_ex_iff simp del: split_paired_All split_paired_Ex)

text \<open>Distinct IDs: no live object has a tombstone.\<close>

lemma live_not_tombstoned:
  assumes "distinct (all_ids b)"
  shows
    "host_id ` set (hosts (objects b)) \<inter> tombstone_id ` set (tombstones b) = {}"
    "desktop_id ` set (desktop_profiles (objects b)) \<inter> tombstone_id ` set (tombstones b) = {}"
    "identity_id ` set (identities (objects b)) \<inter> tombstone_id ` set (tombstones b) = {}"
    "credential_id ` set (credentials (objects b)) \<inter> tombstone_id ` set (tombstones b) = {}"
    "route_id ` set (routes (objects b)) \<inter> tombstone_id ` set (tombstones b) = {}"
    "plan_id ` set (authentication_plans (objects b)) \<inter> tombstone_id ` set (tombstones b) = {}"
    "algorithm_id ` set (algorithm_policies (objects b)) \<inter> tombstone_id ` set (tombstones b) = {}"
    "heartbeat_id ` set (heartbeat_policies (objects b)) \<inter> tombstone_id ` set (tombstones b) = {}"
    "monitoring_id ` set (monitoring_policies (objects b)) \<inter> tombstone_id ` set (tombstones b) = {}"
    "login_id ` set (login_automations (objects b)) \<inter> tombstone_id ` set (tombstones b) = {}"
    "secret_id ` set (secrets b) \<inter> tombstone_id ` set (tombstones b) = {}"
  using assms
  by (simp_all only: all_ids_def object_ids_def distinct_append set_append set_map Int_Un_distrib Int_Un_distrib2 Un_empty simp_thms)

lemma valid_viewI:
  assumes "\<And>b. b \<in> {base, local, remote} \<Longrightarrow> idf ` set (field b) \<inter> tombstone_id ` set (tombstones b) = {}"
  shows "valid_view (view k idf field base local remote)"
proof -
  have "\<not> (value_map idf (field b) i \<noteq> None \<and> (k, i) \<in> set (tombstone_set b))" if "b \<in> {base, local, remote}" for b i
  proof
    assume a: "value_map idf (field b) i \<noteq> None \<and> (k, i) \<in> set (tombstone_set b)"
    then have "i \<in> idf ` set (field b)" using value_map_None by metis
    moreover have "i \<in> tombstone_id ` set (tombstones b)" using a by (auto simp: tombstone_set_def btree_set_def)
    ultimately show False using assms [OF that] by blast
  qed
  then show ?thesis by (simp add: valid_view_def view_def base_value_def base_deleted_def)
qed

definition valid_ids :: "'v PortableBundleV1 list \<Rightarrow> bool" where
  "valid_ids bs \<longleftrightarrow> (\<forall>b \<in> set bs. distinct (all_ids b))"

lemma valid_views:
  assumes "valid_ids [base, local, remote]"
  shows
    "valid_view (view Host host_id (\<lambda>b. hosts (objects b)) base local remote)"
    "valid_view (view DesktopProfile desktop_id (\<lambda>b. desktop_profiles (objects b)) base local remote)"
    "valid_view (view Identity identity_id (\<lambda>b. identities (objects b)) base local remote)"
    "valid_view (view Credential credential_id (\<lambda>b. credentials (objects b)) base local remote)"
    "valid_view (view Route route_id (\<lambda>b. routes (objects b)) base local remote)"
    "valid_view (view AuthenticationPlan plan_id (\<lambda>b. authentication_plans (objects b)) base local remote)"
    "valid_view (view AlgorithmPolicy algorithm_id (\<lambda>b. algorithm_policies (objects b)) base local remote)"
    "valid_view (view HeartbeatPolicy heartbeat_id (\<lambda>b. heartbeat_policies (objects b)) base local remote)"
    "valid_view (view MonitoringPolicy monitoring_id (\<lambda>b. monitoring_policies (objects b)) base local remote)"
    "valid_view (view LoginAutomation login_id (\<lambda>b. login_automations (objects b)) base local remote)"
    "valid_view (view Secret secret_id secrets base local remote)"
proof -
  have d: "distinct (all_ids b)" if "b \<in> {base, local, remote}" for b using assms that by (auto simp: valid_ids_def)
  show
    "valid_view (view Host host_id (\<lambda>b. hosts (objects b)) base local remote)"
    "valid_view (view DesktopProfile desktop_id (\<lambda>b. desktop_profiles (objects b)) base local remote)"
    "valid_view (view Identity identity_id (\<lambda>b. identities (objects b)) base local remote)"
    "valid_view (view Credential credential_id (\<lambda>b. credentials (objects b)) base local remote)"
    "valid_view (view Route route_id (\<lambda>b. routes (objects b)) base local remote)"
    "valid_view (view AuthenticationPlan plan_id (\<lambda>b. authentication_plans (objects b)) base local remote)"
    "valid_view (view AlgorithmPolicy algorithm_id (\<lambda>b. algorithm_policies (objects b)) base local remote)"
    "valid_view (view HeartbeatPolicy heartbeat_id (\<lambda>b. heartbeat_policies (objects b)) base local remote)"
    "valid_view (view MonitoringPolicy monitoring_id (\<lambda>b. monitoring_policies (objects b)) base local remote)"
    "valid_view (view LoginAutomation login_id (\<lambda>b. login_automations (objects b)) base local remote)"
    "valid_view (view Secret secret_id secrets base local remote)"
    by (rule valid_viewI, rule live_not_tombstoned [OF d], assumption)+
qed

definition resolved :: "ObjectNode list \<Rightarrow> ResolvedSides \<Rightarrow> bool" where
  "resolved conflicts sides \<longleftrightarrow> (\<forall>n. sides n \<noteq> Some Newest) \<and> (\<forall>n \<in> set conflicts. sides n \<noteq> None)"

lemma views_sides_ok:
  assumes "resolved (collect_conflict_nodes base local remote) sides"
  shows
    "sides_ok (view Host host_id (\<lambda>b. hosts (objects b)) base local remote) sides"
    "sides_ok (view DesktopProfile desktop_id (\<lambda>b. desktop_profiles (objects b)) base local remote) sides"
    "sides_ok (view Identity identity_id (\<lambda>b. identities (objects b)) base local remote) sides"
    "sides_ok (view Credential credential_id (\<lambda>b. credentials (objects b)) base local remote) sides"
    "sides_ok (view Route route_id (\<lambda>b. routes (objects b)) base local remote) sides"
    "sides_ok (view AuthenticationPlan plan_id (\<lambda>b. authentication_plans (objects b)) base local remote) sides"
    "sides_ok (view AlgorithmPolicy algorithm_id (\<lambda>b. algorithm_policies (objects b)) base local remote) sides"
    "sides_ok (view HeartbeatPolicy heartbeat_id (\<lambda>b. heartbeat_policies (objects b)) base local remote) sides"
    "sides_ok (view MonitoringPolicy monitoring_id (\<lambda>b. monitoring_policies (objects b)) base local remote) sides"
    "sides_ok (view LoginAutomation login_id (\<lambda>b. login_automations (objects b)) base local remote) sides"
    "sides_ok (view Secret secret_id secrets base local remote) sides"
  using assms unfolding resolved_def sides_ok_def collect_conflict_nodes_def btree_set_def
  by (simp_all del: split_paired_All)

lemma observed_map: "observed (map_item_state f b) (map_item_state f s) = map_item_state f (observed b s)"
  by (cases b; cases s) (simp_all add: observed_def)

lemma merged_state_map:
  assumes "inj f"
  shows "merged_state side (map_item_state f b) (map_item_state f l) (map_item_state f r) =
    map_option (map_item_state f) (merged_state side b l r)"
  using item_state.inj_map [OF assms]
  by (auto simp: merged_state_def diff3_def observed_map inj_eq split: option.splits BundleConflictResolution.splits)

lemma state_of_map: "state_of (map_option f v) d = map_item_state f (state_of v d)"
  by (cases v) (simp_all add: state_of_def)

text \<open>A kind's refinement, carried over to nodes of that kind.\<close>

lemma kind_lift:
  assumes "inj C"
    and "\<forall>i. merged_state (sides (k, i)) (b_state (view k idf field base local remote) i)
        (l_state (view k idf field base local remote) i) (r_state (view k idf field base local remote) i) =
       Some (state_of (value_map idf vs i) (i \<in> set ds \<or> base_deleted (view k idf field base local remote) i))"
    and "(k, i) \<in> ts \<longleftrightarrow> (i \<in> set ds \<or> has_tombstone base (k, i)) \<and> i \<notin> idf ` set vs"
  shows "merged_state (sides (k, i)) (state_of (map_option C (value_map idf (field base) i)) (has_tombstone base (k, i)))
      (state_of (map_option C (value_map idf (field local) i)) (has_tombstone local (k, i)))
      (state_of (map_option C (value_map idf (field remote) i)) (has_tombstone remote (k, i))) =
    Some (state_of (map_option C (value_map idf vs i)) ((k, i) \<in> ts))"
proof -
  have "state_of (value_map idf vs i) ((k, i) \<in> ts) = state_of (value_map idf vs i) (i \<in> set ds \<or> has_tombstone base (k, i))"
    using assms(3) value_map_None [of idf vs i] by (auto simp: state_of_def split: option.splits)
  with assms(2) show ?thesis
    by (simp add: state_of_map merged_state_map [OF assms(1)] b_state_def l_state_def r_state_def view_def
        base_value_def base_deleted_def tombstone_set_iff)
qed

definition kind_tombstones ::
    "PortableObjectKind \<Rightarrow> ('a \<Rightarrow> PortableObjectId) \<Rightarrow> 'a list \<Rightarrow> PortableObjectId list \<Rightarrow> ObjectNode set \<Rightarrow> ObjectNode set" where
  "kind_tombstones k idf vs ds ts = (ts \<union> Pair k ` set ds) - (\<lambda>v. (k, idf v)) ` set vs"

lemma kind_tombstones_iff:
  "(k', i) \<in> kind_tombstones k idf vs ds ts \<longleftrightarrow>
     (if k' = k then (i \<in> set ds \<or> (k, i) \<in> ts) \<and> i \<notin> idf ` set vs else (k', i) \<in> ts)"
  by (auto simp: kind_tombstones_def)

lemma merge_kind_view:
  assumes "merge_values (view k idf field base local remote) sides = Some (vs, ds)"
  shows "merge_kind (view k idf field base local remote) sides ts = Some (vs, kind_tombstones k idf vs ds ts)"
  using assms by (simp add: merge_kind_def kind_tombstones_def) (simp add: view_def)

definition node_refines ::
    "ResolvedSides \<Rightarrow> 'v PortableBundleV1 \<Rightarrow> 'v PortableBundleV1 \<Rightarrow> 'v PortableBundleV1 \<Rightarrow>
     portable_object item_state \<Rightarrow> ObjectNode \<Rightarrow> bool" where
  "node_refines sides base local remote s n \<longleftrightarrow>
     merged_state (sides n) (item_state base n) (item_state local n) (item_state remote n) = Some s"

lemma merge_view_state:
  fixes base :: "'v PortableBundleV1"
  assumes "valid_view (view k idf field base local remote)" "sides_ok (view k idf field base local remote) sides"
    and "inj C" and lookup: "\<And>b i. lookup_object (objects b) (secrets b) (k, i) = map_option C (value_map idf (field (b :: 'v PortableBundleV1)) i)"
  shows "\<exists>vs ds. merge_values (view k idf field base local remote) sides = Some (vs, ds) \<and>
    (sorted (map idf vs) \<and> distinct (map idf vs)) \<and>
    (\<forall>ts i. ((k, i) \<in> ts \<longleftrightarrow> (i \<in> set ds \<or> has_tombstone base (k, i)) \<and> i \<notin> idf ` set vs) \<longrightarrow>
       node_refines sides base local remote (state_of (map_option C (value_map idf vs i)) ((k, i) \<in> ts)) (k, i))"
proof -
  have kv: "kind_of (view k idf field base local remote) = k" "id_of (view k idf field base local remote) = idf"
    by (simp_all add: view_def)
  obtain vs ds where m: "merge_values (view k idf field base local remote) sides = Some (vs, ds)"
    "sorted (map idf vs)" "distinct (map idf vs)"
    "\<forall>i. merged_state (sides (k, i)) (b_state (view k idf field base local remote) i)
        (l_state (view k idf field base local remote) i) (r_state (view k idf field base local remote) i) =
       Some (state_of (value_map idf vs i) (i \<in> set ds \<or> base_deleted (view k idf field base local remote) i))"
    using merge_values_state [OF assms(1,2)] unfolding kv by blast
  from kind_lift [OF assms(3) m(4)] m(1,2,3) show ?thesis
    unfolding node_refines_def item_state_def lookup by blast
qed

lemma merge_objects_state:
  fixes base :: "'v PortableBundleV1"
  assumes "valid_ids [base, local, remote]" "resolved (collect_conflict_nodes base local remote) sides"
  shows "\<exists>os ss ts. merge_objects base local remote sides = Some (os, ss, ts) \<and> finite ts \<and>
    (\<forall>n. node_refines sides base local remote (state_of (lookup_object os ss n) (n \<in> ts)) n)"
proof -
  note v = valid_views [OF assms(1)] and s = views_sides_ok [OF assms(2)]
  obtain x0 d0 where m0: "merge_values (view Host host_id (\<lambda>b. hosts (objects b)) base local remote) sides = Some (x0, d0)"
    and r0: "\<forall>ts i. ((Host, i) \<in> ts \<longleftrightarrow> (i \<in> set d0 \<or> has_tombstone base (Host, i)) \<and> i \<notin> host_id ` set x0) \<longrightarrow>
       node_refines sides base local remote (state_of (map_option HostObject (value_map host_id x0 i)) ((Host, i) \<in> ts)) (Host, i)"
    using merge_view_state [OF v(1) s(1), of HostObject] by (auto simp: inj_def lookup_object_def)
  obtain x1 d1 where m1: "merge_values (view DesktopProfile desktop_id (\<lambda>b. desktop_profiles (objects b)) base local remote) sides = Some (x1, d1)"
    and r1: "\<forall>ts i. ((DesktopProfile, i) \<in> ts \<longleftrightarrow> (i \<in> set d1 \<or> has_tombstone base (DesktopProfile, i)) \<and> i \<notin> desktop_id ` set x1) \<longrightarrow>
       node_refines sides base local remote (state_of (map_option DesktopObject (value_map desktop_id x1 i)) ((DesktopProfile, i) \<in> ts)) (DesktopProfile, i)"
    using merge_view_state [OF v(2) s(2), of DesktopObject] by (auto simp: inj_def lookup_object_def)
  obtain x2 d2 where m2: "merge_values (view Identity identity_id (\<lambda>b. identities (objects b)) base local remote) sides = Some (x2, d2)"
    and r2: "\<forall>ts i. ((Identity, i) \<in> ts \<longleftrightarrow> (i \<in> set d2 \<or> has_tombstone base (Identity, i)) \<and> i \<notin> identity_id ` set x2) \<longrightarrow>
       node_refines sides base local remote (state_of (map_option IdentityObject (value_map identity_id x2 i)) ((Identity, i) \<in> ts)) (Identity, i)"
    using merge_view_state [OF v(3) s(3), of IdentityObject] by (auto simp: inj_def lookup_object_def)
  obtain x3 d3 where m3: "merge_values (view Credential credential_id (\<lambda>b. credentials (objects b)) base local remote) sides = Some (x3, d3)"
    and r3: "\<forall>ts i. ((Credential, i) \<in> ts \<longleftrightarrow> (i \<in> set d3 \<or> has_tombstone base (Credential, i)) \<and> i \<notin> credential_id ` set x3) \<longrightarrow>
       node_refines sides base local remote (state_of (map_option CredentialObject (value_map credential_id x3 i)) ((Credential, i) \<in> ts)) (Credential, i)"
    using merge_view_state [OF v(4) s(4), of CredentialObject] by (auto simp: inj_def lookup_object_def)
  obtain x4 d4 where m4: "merge_values (view Route route_id (\<lambda>b. routes (objects b)) base local remote) sides = Some (x4, d4)"
    and r4: "\<forall>ts i. ((Route, i) \<in> ts \<longleftrightarrow> (i \<in> set d4 \<or> has_tombstone base (Route, i)) \<and> i \<notin> route_id ` set x4) \<longrightarrow>
       node_refines sides base local remote (state_of (map_option RouteObject (value_map route_id x4 i)) ((Route, i) \<in> ts)) (Route, i)"
    using merge_view_state [OF v(5) s(5), of RouteObject] by (auto simp: inj_def lookup_object_def)
  obtain x5 d5 where m5: "merge_values (view AuthenticationPlan plan_id (\<lambda>b. authentication_plans (objects b)) base local remote) sides = Some (x5, d5)"
    and r5: "\<forall>ts i. ((AuthenticationPlan, i) \<in> ts \<longleftrightarrow> (i \<in> set d5 \<or> has_tombstone base (AuthenticationPlan, i)) \<and> i \<notin> plan_id ` set x5) \<longrightarrow>
       node_refines sides base local remote (state_of (map_option PlanObject (value_map plan_id x5 i)) ((AuthenticationPlan, i) \<in> ts)) (AuthenticationPlan, i)"
    using merge_view_state [OF v(6) s(6), of PlanObject] by (auto simp: inj_def lookup_object_def)
  obtain x6 d6 where m6: "merge_values (view AlgorithmPolicy algorithm_id (\<lambda>b. algorithm_policies (objects b)) base local remote) sides = Some (x6, d6)"
    and r6: "\<forall>ts i. ((AlgorithmPolicy, i) \<in> ts \<longleftrightarrow> (i \<in> set d6 \<or> has_tombstone base (AlgorithmPolicy, i)) \<and> i \<notin> algorithm_id ` set x6) \<longrightarrow>
       node_refines sides base local remote (state_of (map_option AlgorithmObject (value_map algorithm_id x6 i)) ((AlgorithmPolicy, i) \<in> ts)) (AlgorithmPolicy, i)"
    using merge_view_state [OF v(7) s(7), of AlgorithmObject] by (auto simp: inj_def lookup_object_def)
  obtain x7 d7 where m7: "merge_values (view HeartbeatPolicy heartbeat_id (\<lambda>b. heartbeat_policies (objects b)) base local remote) sides = Some (x7, d7)"
    and r7: "\<forall>ts i. ((HeartbeatPolicy, i) \<in> ts \<longleftrightarrow> (i \<in> set d7 \<or> has_tombstone base (HeartbeatPolicy, i)) \<and> i \<notin> heartbeat_id ` set x7) \<longrightarrow>
       node_refines sides base local remote (state_of (map_option HeartbeatObject (value_map heartbeat_id x7 i)) ((HeartbeatPolicy, i) \<in> ts)) (HeartbeatPolicy, i)"
    using merge_view_state [OF v(8) s(8), of HeartbeatObject] by (auto simp: inj_def lookup_object_def)
  obtain x8 d8 where m8: "merge_values (view MonitoringPolicy monitoring_id (\<lambda>b. monitoring_policies (objects b)) base local remote) sides = Some (x8, d8)"
    and r8: "\<forall>ts i. ((MonitoringPolicy, i) \<in> ts \<longleftrightarrow> (i \<in> set d8 \<or> has_tombstone base (MonitoringPolicy, i)) \<and> i \<notin> monitoring_id ` set x8) \<longrightarrow>
       node_refines sides base local remote (state_of (map_option MonitoringObject (value_map monitoring_id x8 i)) ((MonitoringPolicy, i) \<in> ts)) (MonitoringPolicy, i)"
    using merge_view_state [OF v(9) s(9), of MonitoringObject] by (auto simp: inj_def lookup_object_def)
  obtain x9 d9 where m9: "merge_values (view LoginAutomation login_id (\<lambda>b. login_automations (objects b)) base local remote) sides = Some (x9, d9)"
    and r9: "\<forall>ts i. ((LoginAutomation, i) \<in> ts \<longleftrightarrow> (i \<in> set d9 \<or> has_tombstone base (LoginAutomation, i)) \<and> i \<notin> login_id ` set x9) \<longrightarrow>
       node_refines sides base local remote (state_of (map_option LoginObject (value_map login_id x9 i)) ((LoginAutomation, i) \<in> ts)) (LoginAutomation, i)"
    using merge_view_state [OF v(10) s(10), of LoginObject] by (auto simp: inj_def lookup_object_def)
  obtain x10 d10 where m10: "merge_values (view Secret secret_id secrets base local remote) sides = Some (x10, d10)"
    and r10: "\<forall>ts i. ((Secret, i) \<in> ts \<longleftrightarrow> (i \<in> set d10 \<or> has_tombstone base (Secret, i)) \<and> i \<notin> secret_id ` set x10) \<longrightarrow>
       node_refines sides base local remote (state_of (map_option SecretObject (value_map secret_id x10 i)) ((Secret, i) \<in> ts)) (Secret, i)"
    using merge_view_state [OF v(11) s(11), of SecretObject] by (auto simp: inj_def lookup_object_def)
  define ts where "ts = kind_tombstones Secret secret_id x10 d10 (kind_tombstones LoginAutomation login_id x9 d9 (kind_tombstones MonitoringPolicy monitoring_id x8 d8 (kind_tombstones HeartbeatPolicy heartbeat_id x7 d7 (kind_tombstones AlgorithmPolicy algorithm_id x6 d6 (kind_tombstones AuthenticationPlan plan_id x5 d5 (kind_tombstones Route route_id x4 d4 (kind_tombstones Credential credential_id x3 d3 (kind_tombstones Identity identity_id x2 d2 (kind_tombstones DesktopProfile desktop_id x1 d1 (kind_tombstones Host host_id x0 d0 (set (tombstone_set base))))))))))))"
  let ?os = "\<lparr>hosts = x0, desktop_profiles = x1, identities = x2, credentials = x3, routes = x4, authentication_plans = x5, algorithm_policies = x6, heartbeat_policies = x7, monitoring_policies = x8, login_automations = x9\<rparr>"
  have "merge_objects base local remote sides = Some (?os, x10, ts)"
    unfolding merge_objects_def Let_def merge_kind_view [OF m0] merge_kind_view [OF m1] merge_kind_view [OF m2] merge_kind_view [OF m3] merge_kind_view [OF m4] merge_kind_view [OF m5] merge_kind_view [OF m6] merge_kind_view [OF m7] merge_kind_view [OF m8] merge_kind_view [OF m9] merge_kind_view [OF m10] ts_def
    by (simp only: Option.bind.simps prod.case)
  moreover have "finite ts" by (simp add: ts_def kind_tombstones_def)
  moreover have "node_refines sides base local remote (state_of (lookup_object ?os x10 n) (n \<in> ts)) n" for n
  proof -
    obtain k i where n: "n = (k, i)" by (cases n)
    have t: "(k', i) \<in> ts \<longleftrightarrow> (i \<in> set (case k' of Host \<Rightarrow> d0 | DesktopProfile \<Rightarrow> d1 | Identity \<Rightarrow> d2 | Credential \<Rightarrow> d3 | Route \<Rightarrow> d4 | AuthenticationPlan \<Rightarrow> d5 | AlgorithmPolicy \<Rightarrow> d6 | HeartbeatPolicy \<Rightarrow> d7 | MonitoringPolicy \<Rightarrow> d8 | LoginAutomation \<Rightarrow> d9 | Secret \<Rightarrow> d10) \<or> has_tombstone base (k', i)) \<and>
        i \<notin> (case k' of Host \<Rightarrow> host_id ` set x0 | DesktopProfile \<Rightarrow> desktop_id ` set x1 | Identity \<Rightarrow> identity_id ` set x2 | Credential \<Rightarrow> credential_id ` set x3 | Route \<Rightarrow> route_id ` set x4 | AuthenticationPlan \<Rightarrow> plan_id ` set x5 | AlgorithmPolicy \<Rightarrow> algorithm_id ` set x6 | HeartbeatPolicy \<Rightarrow> heartbeat_id ` set x7 | MonitoringPolicy \<Rightarrow> monitoring_id ` set x8 | LoginAutomation \<Rightarrow> login_id ` set x9 | Secret \<Rightarrow> secret_id ` set x10)" for k'
      by (cases k') (simp_all add: ts_def kind_tombstones_iff tombstone_set_iff)
    show ?thesis
      unfolding n
    proof (cases k)
      case Host
      with r0 [rule_format, of i ts] t [of Host] show "node_refines sides base local remote (state_of (lookup_object ?os x10 (k, i)) ((k, i) \<in> ts)) (k, i)"
        by (simp add: lookup_object_def)
    next
      case DesktopProfile
      with r1 [rule_format, of i ts] t [of DesktopProfile] show "node_refines sides base local remote (state_of (lookup_object ?os x10 (k, i)) ((k, i) \<in> ts)) (k, i)"
        by (simp add: lookup_object_def)
    next
      case Identity
      with r2 [rule_format, of i ts] t [of Identity] show "node_refines sides base local remote (state_of (lookup_object ?os x10 (k, i)) ((k, i) \<in> ts)) (k, i)"
        by (simp add: lookup_object_def)
    next
      case Credential
      with r3 [rule_format, of i ts] t [of Credential] show "node_refines sides base local remote (state_of (lookup_object ?os x10 (k, i)) ((k, i) \<in> ts)) (k, i)"
        by (simp add: lookup_object_def)
    next
      case Route
      with r4 [rule_format, of i ts] t [of Route] show "node_refines sides base local remote (state_of (lookup_object ?os x10 (k, i)) ((k, i) \<in> ts)) (k, i)"
        by (simp add: lookup_object_def)
    next
      case AuthenticationPlan
      with r5 [rule_format, of i ts] t [of AuthenticationPlan] show "node_refines sides base local remote (state_of (lookup_object ?os x10 (k, i)) ((k, i) \<in> ts)) (k, i)"
        by (simp add: lookup_object_def)
    next
      case AlgorithmPolicy
      with r6 [rule_format, of i ts] t [of AlgorithmPolicy] show "node_refines sides base local remote (state_of (lookup_object ?os x10 (k, i)) ((k, i) \<in> ts)) (k, i)"
        by (simp add: lookup_object_def)
    next
      case HeartbeatPolicy
      with r7 [rule_format, of i ts] t [of HeartbeatPolicy] show "node_refines sides base local remote (state_of (lookup_object ?os x10 (k, i)) ((k, i) \<in> ts)) (k, i)"
        by (simp add: lookup_object_def)
    next
      case MonitoringPolicy
      with r8 [rule_format, of i ts] t [of MonitoringPolicy] show "node_refines sides base local remote (state_of (lookup_object ?os x10 (k, i)) ((k, i) \<in> ts)) (k, i)"
        by (simp add: lookup_object_def)
    next
      case LoginAutomation
      with r9 [rule_format, of i ts] t [of LoginAutomation] show "node_refines sides base local remote (state_of (lookup_object ?os x10 (k, i)) ((k, i) \<in> ts)) (k, i)"
        by (simp add: lookup_object_def)
    next
      case Secret
      with r10 [rule_format, of i ts] t [of Secret] show "node_refines sides base local remote (state_of (lookup_object ?os x10 (k, i)) ((k, i) \<in> ts)) (k, i)"
        by (simp add: lookup_object_def)
    qed
  qed
  ultimately show ?thesis by blast
qed

section \<open>Preferences\<close>

lemma validated_groups:
  assumes "preferences_check J b = Inr ()" "preferences b = Some p"
  shows "fst ` set (groups p) = fst ` set GROUPS"
proof -
  have v: "validate_preferences J p = Inr ()"
    using assms by (cases "schema b") (simp_all add: preferences_check_def)
  then have len: "length (groups p) = length GROUPS" and g: "\<forall>g \<in> set GROUPS. validate_group J p g = Inr ()"
    by (auto simp: validate_preferences_def result_simps)
  have "fst g \<in> fst ` set (groups p)" if "g \<in> set GROUPS" for g
  proof -
    obtain name ks where [simp]: "g = (name, ks)" by force
    have "map_of (groups p) name \<noteq> None"
      using g [rule_format, OF that] by (cases "map_of (groups p) name") (simp_all add: validate_group_def)
    then show ?thesis by (simp add: map_of_eq_None_iff)
  qed
  then have sub: "fst ` set GROUPS \<subseteq> fst ` set (groups p)" by auto
  have "distinct (map fst GROUPS)" by code_simp
  then have "card (fst ` set GROUPS) = length GROUPS" by (metis distinct_card length_map list.set_map)
  moreover have "card (fst ` set (groups p)) \<le> length (groups p)"
    using card_length [of "map fst (groups p)"] by simp
  ultimately show ?thesis using card_seteq [OF _ sub] len by simp
qed

lemma merge_groups_total:
  "fst ` set ls \<subseteq> {g. remote_of g \<noteq> None} \<Longrightarrow> merge_groups remote_of pick ls merged n \<noteq> None"
  by (induction ls arbitrary: merged n) (auto split: prod.splits)

lemma merge_preferences_total:
  assumes "preferences_check J local = Inr ()" "preferences_check J remote = Inr ()"
  shows "merge_preferences base local remote cr now \<noteq> None"
proof -
  have "merge_groups (map_of (groups rp)) pick (groups lp) (groups lp) 0 \<noteq> None"
    if "preferences local = Some lp" "preferences remote = Some rp" for lp rp pick
    using validated_groups [OF assms(1) that(1)] validated_groups [OF assms(2) that(2)]
    by (intro merge_groups_total) (auto simp: map_of_eq_None_iff)
  then show ?thesis
    by (cases "preferences local"; cases "preferences remote"; simp add: merge_preferences_def split: option.split)
qed

section \<open>The whole merge\<close>

lemma collect_conflicts_distinct: "distinct (collect_conflict_nodes base local remote)"
  by (simp add: collect_conflict_nodes_def btree_set_def)

lemma side_ok_resolved: "side_ok conflicts sides 0 \<longleftrightarrow> resolved conflicts sides"
  by (simp add: side_ok_def resolved_def del: split_paired_All)

definition merge_inputs_ok :: "'v json_api \<Rightarrow> 'v PortableBundleV1 \<Rightarrow> 'v PortableBundleV1 \<Rightarrow> 'v PortableBundleV1 \<Rightarrow> bool" where
  "merge_inputs_ok J base local remote \<longleftrightarrow>
     validate J base = Inr () \<and> validate J local = Inr () \<and> validate J remote = Inr () \<and>
     (if list_all (\<lambda>b. schema b = V6_bundle) [base, local, remote]
      then normalized_scope local = normalized_scope base \<and> normalized_scope remote = normalized_scope base
      else \<not> list_ex (\<lambda>b. schema b = V6_bundle) [base, local, remote])"

lemma inputs_valid_ids: "merge_inputs_ok J base local remote \<Longrightarrow> valid_ids [base, local, remote]"
  by (simp add: merge_inputs_ok_def valid_ids_def validate_iff)

text \<open>What the merge computes once its inputs are accepted.\<close>

definition merge_result ::
    "'v json_api \<Rightarrow> 'v PortableBundleV1 \<Rightarrow> 'v PortableBundleV1 \<Rightarrow> 'v PortableBundleV1 \<Rightarrow> u64 \<Rightarrow> bool \<Rightarrow>
     'v PortablePreferencesV1 option \<Rightarrow> PortableObjects \<Rightarrow> PortableSecret list \<Rightarrow> ObjectNode set \<Rightarrow> bool \<Rightarrow>
     SyncCodecError fault + 'v BundleMergeOutcome" where
  "merge_result J base local remote new_revision all_v6 prefs os ss ts policy =
     (let merged = assemble base local remote new_revision all_v6 prefs os ss ts in
      case seq_checks [validate J merged, validate_reverse_reachability merged] of
        Inr _ \<Rightarrow> Inr (Merged merged)
      | Inl e \<Rightarrow> if policy then Inr (Conflicts 1) else Inl (Err e))"

lemma policy_outcome:
  "(if policy \<and> (a \<noteq> Inr () \<or> b \<noteq> Inr ()) then Inr (Conflicts 1)
    else (case seq_checks [a, b] of Inl e \<Rightarrow> Inl (Err e) | Inr _ \<Rightarrow> Inr (Merged m))) =
   (case seq_checks [a, b] of Inr _ \<Rightarrow> Inr (Merged m) | Inl e \<Rightarrow> if policy then Inr (Conflicts 1) else Inl (Err e))"
proof (cases "seq_checks [a, b]")
  case (Inl e)
  then have "a \<noteq> Inr () \<or> b \<noteq> Inr ()" using seq_checks_ok [of "[a, b]" "()"] by auto
  with Inl show ?thesis by simp
next
  case (Inr u)
  then have "a = Inr () \<and> b = Inr ()" using seq_checks_ok [of "[a, b]" u] by simp
  with Inr show ?thesis by simp
qed

lemma merge_cases:
  assumes "merge_inputs_ok J base local remote"
  obtains sides u prefs p all_v6 where
    "resolve_conflicts [base, local, remote] (collect_conflict_nodes base local remote) local remote cr dr now = Some (sides, u)"
    "side_ok (collect_conflict_nodes base local remote) sides u"
    "(if all_v6 then Some (None, 0) else merge_preferences base local remote cr now) = Some (prefs, p)"
    "all_v6 \<longleftrightarrow> list_all (\<lambda>b. schema b = V6_bundle) [base, local, remote]"
    "u + p > 0 \<longrightarrow> merge_bundles_three_way_with_policies J now base local remote rv cr dr = Inr (Conflicts (conflict_count (u + p)))"
    "u + p = 0 \<longrightarrow> (\<exists>os ss ts. merge_objects base local remote sides = Some (os, ss, ts) \<and> finite ts \<and>
       (\<forall>n. node_refines sides base local remote (state_of (lookup_object os ss n) (n \<in> ts)) n) \<and>
       merge_bundles_three_way_with_policies J now base local remote rv cr dr =
         merge_result J base local remote rv all_v6 prefs os ss ts (cr \<noteq> None \<or> dr \<noteq> None))"
proof -
  define all_v6 where "all_v6 = list_all (\<lambda>b. schema b = V6_bundle) [base, local, remote]"
  obtain sides u where r: "resolve_conflicts [base, local, remote] (collect_conflict_nodes base local remote) local remote cr dr now = Some (sides, u)"
    and so: "side_ok (collect_conflict_nodes base local remote) sides u"
    using resolve_conflicts_ok [OF collect_conflicts_distinct] by blast
  have "merge_preferences base local remote cr now \<noteq> None"
    using assms by (intro merge_preferences_total [of J]) (simp_all add: merge_inputs_ok_def validate_iff)
  then obtain prefs p where pr: "(if all_v6 then Some (None, 0) else merge_preferences base local remote cr now) = Some (prefs, p)"
    by (cases all_v6) auto
  have checks: "seq_checks
        [validate J base, validate J local, validate J remote,
         fail_if (\<not> all_v6 \<and> list_ex (\<lambda>b. schema b = V6_bundle) [base, local, remote])
           (InvalidBundle ''mixed bundle v6 merge requires projection''),
         fail_if (all_v6 \<and> (normalized_scope local \<noteq> normalized_scope base \<or>
                             normalized_scope remote \<noteq> normalized_scope base))
           (InvalidBundle ''bundle category scopes differ'')] = Inr ()"
    using assms unfolding merge_inputs_ok_def all_v6_def [symmetric]
    by (auto simp: seq_checks_ok fail_if_ok split: if_splits)
  have outcome: "merge_bundles_three_way_with_policies J now base local remote rv cr dr =
      (if u > 0 \<or> p > 0 then Inr (Conflicts (conflict_count (u + p)))
       else (case merge_objects base local remote sides of
          None \<Rightarrow> Inl Panic
        | Some (os, ss, ts) \<Rightarrow> merge_result J base local remote rv all_v6 prefs os ss ts (cr \<noteq> None \<or> dr \<noteq> None)))"
    unfolding merge_bundles_three_way_with_policies_def Let_def all_v6_def [symmetric] checks r pr sum.case
      policy_outcome merge_result_def option.case prod.case ..
  have "\<exists>os ss ts. merge_objects base local remote sides = Some (os, ss, ts) \<and> finite ts \<and>
      (\<forall>n. node_refines sides base local remote (state_of (lookup_object os ss n) (n \<in> ts)) n)" if "u = 0"
    using merge_objects_state [OF inputs_valid_ids [OF assms]] so that side_ok_resolved by blast
  with that [OF r so pr all_v6_def] outcome show ?thesis by fastforce
qed

lemma merge_rejects:
  assumes "\<not> merge_inputs_ok J base local remote"
  shows "\<exists>e. merge_bundles_three_way_with_policies J now base local remote rv cr dr = Inl (Err e)"
proof -
  let ?all = "list_all (\<lambda>b. schema b = V6_bundle) [base, local, remote]"
  let ?checks = "[validate J base, validate J local, validate J remote,
         fail_if (\<not> ?all \<and> list_ex (\<lambda>b. schema b = V6_bundle) [base, local, remote])
           (InvalidBundle ''mixed bundle v6 merge requires projection''),
         fail_if (?all \<and> (normalized_scope local \<noteq> normalized_scope base \<or>
                             normalized_scope remote \<noteq> normalized_scope base))
           (InvalidBundle ''bundle category scopes differ'')]"
  have "seq_checks ?checks \<noteq> Inr ()"
    using assms
    by (cases ?all; simp only: seq_checks_ok fail_if_ok merge_inputs_ok_def list.set ball_simps if_True if_False simp_thms; blast)
  then obtain e where "seq_checks ?checks = Inl e" by (cases "seq_checks ?checks") auto
  then show ?thesis unfolding merge_bundles_three_way_with_policies_def Let_def by (simp only: sum.case) blast
qed

lemma has_tombstone_assemble:
  "finite ts \<Longrightarrow> has_tombstone (assemble base local remote rv v6 prefs os ss ts) n \<longleftrightarrow> n \<in> ts"
  by (cases n) (force simp: has_tombstone_def assemble_def Let_def list_ex_iff)

lemma item_state_assemble:
  "finite ts \<Longrightarrow> item_state (assemble base local remote rv v6 prefs os ss ts) n = state_of (lookup_object os ss n) (n \<in> ts)"
  by (simp add: item_state_def has_tombstone_assemble) (simp add: assemble_def Let_def)

lemma merge_result_Merged:
  assumes "merge_result J base local remote rv v6 prefs os ss ts policy = Inr (Merged m)"
  shows "m = assemble base local remote rv v6 prefs os ss ts" "validate J m = Inr ()" "validate_reverse_reachability m = Inr ()"
proof -
  let ?m = "assemble base local remote rv v6 prefs os ss ts"
  obtain u where u: "seq_checks [validate J ?m, validate_reverse_reachability ?m] = Inr u"
    using assms by (auto simp: merge_result_def Let_def split: sum.splits if_splits)
  with assms have "m = ?m" by (simp add: merge_result_def)
  with u show "m = ?m" "validate J m = Inr ()" "validate_reverse_reachability m = Inr ()"
    by (simp_all add: seq_checks_ok)
qed

lemma merge_result_outcome:
  "merge_result J base local remote rv v6 prefs os ss ts policy \<noteq> Inl Panic"
  "merge_result J base local remote rv v6 prefs os ss ts policy = Inr (Conflicts c) \<Longrightarrow> policy"
  by (auto simp: merge_result_def Let_def split: sum.splits if_splits)

text \<open>Everything known of a successful merge.\<close>

lemma merged_facts:
  assumes "merge_bundles_three_way_with_policies J now base local remote rv cr dr = Inr (Merged m)"
  obtains sides prefs os ss ts where
    "merge_inputs_ok J base local remote"
    "resolve_conflicts [base, local, remote] (collect_conflict_nodes base local remote) local remote cr dr now = Some (sides, 0)"
    "resolved (collect_conflict_nodes base local remote) sides"
    "m = assemble base local remote rv (list_all (\<lambda>b. schema b = V6_bundle) [base, local, remote]) prefs os ss ts"
    "validate J m = Inr ()" "validate_reverse_reachability m = Inr ()"
    "\<And>n. node_refines sides base local remote (item_state m n) n"
proof -
  have ok: "merge_inputs_ok J base local remote" 
  proof (rule ccontr)
    assume "\<not> merge_inputs_ok J base local remote"
    from merge_rejects [OF this, of now rv cr dr] assms show False by simp
  qed
  obtain sides u prefs p all_v6 where c:
    "resolve_conflicts [base, local, remote] (collect_conflict_nodes base local remote) local remote cr dr now = Some (sides, u)"
    "side_ok (collect_conflict_nodes base local remote) sides u"
    "(if all_v6 then Some (None, 0) else merge_preferences base local remote cr now) = Some (prefs, p)"
    "all_v6 \<longleftrightarrow> list_all (\<lambda>b. schema b = V6_bundle) [base, local, remote]"
    "u + p > 0 \<longrightarrow> merge_bundles_three_way_with_policies J now base local remote rv cr dr = Inr (Conflicts (conflict_count (u + p)))"
    "u + p = 0 \<longrightarrow> (\<exists>os ss ts. merge_objects base local remote sides = Some (os, ss, ts) \<and> finite ts \<and>
       (\<forall>n. node_refines sides base local remote (state_of (lookup_object os ss n) (n \<in> ts)) n) \<and>
       merge_bundles_three_way_with_policies J now base local remote rv cr dr =
         merge_result J base local remote rv all_v6 prefs os ss ts (cr \<noteq> None \<or> dr \<noteq> None))"
    by (rule merge_cases [OF ok, of cr dr now rv])
  have u: "u + p = 0" using c(5) assms by (cases "u + p = 0") simp_all
  then obtain os ss ts where f: "finite ts" "\<forall>n. node_refines sides base local remote (state_of (lookup_object os ss n) (n \<in> ts)) n"
    "merge_result J base local remote rv all_v6 prefs os ss ts (cr \<noteq> None \<or> dr \<noteq> None) = Inr (Merged m)"
    using c(6) assms by auto
  note m = merge_result_Merged [OF f(3)]
  have "node_refines sides base local remote (item_state m n) n" for n
    using f(2) [rule_format, of n] unfolding m(1) item_state_assemble [OF f(1)] .
  moreover have "resolved (collect_conflict_nodes base local remote) sides"
    using c(2) u by (simp add: side_ok_resolved [symmetric])
  ultimately show ?thesis using that [OF ok] c(1) u m unfolding c(4) by simp
qed

text \<open>
  (C16) The merge of valid bundles never reaches an \<open>unreachable!\<close>, \<open>expect\<close> or missing map entry: it
  returns an error value, a conflict count or a merged bundle, for every clock, policy and input.
\<close>

theorem merge_never_panics:
  "merge_bundles_three_way_with_policies J now base local remote new_revision conflict_resolution deletion_resolution \<noteq> Inl Panic"
proof (cases "merge_inputs_ok J base local remote")
  case True
  show ?thesis
  proof (rule merge_cases [OF True, of conflict_resolution deletion_resolution now new_revision], goal_cases)
    case (1 sides u prefs p all_v6)
    show ?thesis
    proof (cases "u + p = 0")
      case True
      from 1(6) [rule_format, OF True] merge_result_outcome(1) show ?thesis by metis
    qed (use 1(5) in simp)
  qed
next
  case False
  from merge_rejects [OF this, of now new_revision conflict_resolution deletion_resolution] show ?thesis by auto
qed

text \<open>
  (C1) The merge implements the three-way merge of item states. A merged bundle gives every object
  of every kind the state the specification gives it from its states in the three inputs: the side
  that changed it if only one did, the common state if both made the same change, and the side the
  policies settled on for the conflicts and what was drawn in with them.
\<close>

theorem merge_refines_three_way:
  assumes "merge_bundles_three_way_with_policies J now base local remote rv cr dr = Inr (Merged m)"
  shows "\<exists>sides.
    resolve_conflicts [base, local, remote] (collect_conflict_nodes base local remote) local remote cr dr now = Some (sides, 0) \<and>
    (\<forall>n. merged_state (sides n) (item_state base n) (item_state local n) (item_state remote n) = Some (item_state m n))"
  by (rule merged_facts [OF assms]) (auto simp: node_refines_def simp del: split_paired_All)

text \<open>
  (C10) A merged bundle is closed: its identifiers are unique and not nil, both ends of every
  reference between its objects are live, and every object of a kind that exists only for others
  is referred to by a live object.
\<close>

theorem merged_bundle_closed:
  assumes "merge_bundles_three_way_with_policies J now base local remote rv cr dr = Inr (Merged m)"
  shows "distinct (all_ids m) \<and> 0 \<notin> set (all_ids m) \<and> set (bundle_edges m) \<subseteq> live_nodes m \<times> live_nodes m \<and>
    {(k, i) \<in> live_nodes m. held_by_reference k} \<subseteq> snd ` set (bundle_edges m) \<and> revision m = rv"
proof (rule merged_facts [OF assms])
  fix prefs os ss ts
  assume v: "validate J m = Inr ()" "validate_reverse_reachability m = Inr ()"
    and m: "m = assemble base local remote rv (list_all (\<lambda>b. schema b = V6_bundle) [base, local, remote]) prefs os ss ts"
  from v(1) have "distinct (all_ids m)" "0 \<notin> set (all_ids m)" and r: "validate_references m = Inr ()"
    by (simp_all add: validate_iff)
  moreover have "revision m = rv" by (simp add: m assemble_def Let_def)
  ultimately show ?thesis using valid_edges_live [OF r] reachable_held [OF v(2)] by auto
qed

section \<open>Conflicts\<close>

definition divergent :: "'v PortableBundleV1 \<Rightarrow> 'v PortableBundleV1 \<Rightarrow> 'v PortableBundleV1 \<Rightarrow> ObjectNode \<Rightarrow> bool" where
  "divergent base local remote n \<longleftrightarrow>
     diff3 (item_state base n) (observed (item_state base n) (item_state local n))
       (observed (item_state base n) (item_state remote n)) = None"

lemma diff3_map_None:
  "inj f \<Longrightarrow> diff3 (map_item_state f b) (map_item_state f l) (map_item_state f r) = None \<longleftrightarrow> diff3 b l r = None"
  using item_state.inj_map [of f] by (simp add: diff3_def inj_eq)

lemma conflict_ids_view:
  fixes base :: "'v PortableBundleV1"
  assumes "valid_view (view k idf field base local remote)" "inj C"
    and lookup: "\<And>b i. lookup_object (objects b) (secrets b) (k, i) = map_option C (value_map idf (field (b :: 'v PortableBundleV1)) i)"
  shows "(k', i) \<in> set (conflict_ids (view k idf field base local remote)) \<longleftrightarrow> k' = k \<and> divergent base local remote (k, i)"
proof -
  let ?w = "view k idf field base local remote"
  have st: "item_state base (k, i) = map_item_state C (b_state ?w i)" "item_state local (k, i) = map_item_state C (l_state ?w i)"
    "item_state remote (k, i) = map_item_state C (r_state ?w i)"
    by (simp_all add: item_state_def lookup state_of_map b_state_def l_state_def r_state_def base_value_def base_deleted_def
        tombstone_set_iff view_def)
  have "divergent base local remote (k, i) \<longleftrightarrow>
      diff3 (b_state ?w i) (observed (b_state ?w i) (l_state ?w i)) (observed (b_state ?w i) (r_state ?w i)) = None"
    unfolding divergent_def st observed_map diff3_map_None [OF assms(2)] ..
  moreover have "diff3 (b_state ?w i) (observed (b_state ?w i) (l_state ?w i)) (observed (b_state ?w i) (r_state ?w i)) \<noteq> None"
    if "i \<notin> set (view_ids ?w)"
    using view_ids_absent [OF that] by (simp add: observed_def diff3_def)
  moreover have "kind_of ?w = k" by (simp add: view_def)
  ultimately show ?thesis using conflict_iff [OF assms(1), of k' i] by auto
qed

lemma collect_conflicts_divergent:
  assumes "valid_ids [base, local, remote]"
  shows "n \<in> set (collect_conflict_nodes base local remote) \<longleftrightarrow> divergent base local remote n"
proof -
  obtain k i where n: "n = (k, i)" by (cases n)
  note v = valid_views [OF assms]
  have c: "\<And>k' i. (k', i) \<in> set (conflict_ids (view Host host_id (\<lambda>b. hosts (objects b)) base local remote)) \<longleftrightarrow>
        k' = Host \<and> divergent base local remote (Host, i)"
    "\<And>k' i. (k', i) \<in> set (conflict_ids (view DesktopProfile desktop_id (\<lambda>b. desktop_profiles (objects b)) base local remote)) \<longleftrightarrow>
        k' = DesktopProfile \<and> divergent base local remote (DesktopProfile, i)"
    "\<And>k' i. (k', i) \<in> set (conflict_ids (view Identity identity_id (\<lambda>b. identities (objects b)) base local remote)) \<longleftrightarrow>
        k' = Identity \<and> divergent base local remote (Identity, i)"
    "\<And>k' i. (k', i) \<in> set (conflict_ids (view Credential credential_id (\<lambda>b. credentials (objects b)) base local remote)) \<longleftrightarrow>
        k' = Credential \<and> divergent base local remote (Credential, i)"
    "\<And>k' i. (k', i) \<in> set (conflict_ids (view Route route_id (\<lambda>b. routes (objects b)) base local remote)) \<longleftrightarrow>
        k' = Route \<and> divergent base local remote (Route, i)"
    "\<And>k' i. (k', i) \<in> set (conflict_ids (view AuthenticationPlan plan_id (\<lambda>b. authentication_plans (objects b)) base local remote)) \<longleftrightarrow>
        k' = AuthenticationPlan \<and> divergent base local remote (AuthenticationPlan, i)"
    "\<And>k' i. (k', i) \<in> set (conflict_ids (view AlgorithmPolicy algorithm_id (\<lambda>b. algorithm_policies (objects b)) base local remote)) \<longleftrightarrow>
        k' = AlgorithmPolicy \<and> divergent base local remote (AlgorithmPolicy, i)"
    "\<And>k' i. (k', i) \<in> set (conflict_ids (view HeartbeatPolicy heartbeat_id (\<lambda>b. heartbeat_policies (objects b)) base local remote)) \<longleftrightarrow>
        k' = HeartbeatPolicy \<and> divergent base local remote (HeartbeatPolicy, i)"
    "\<And>k' i. (k', i) \<in> set (conflict_ids (view MonitoringPolicy monitoring_id (\<lambda>b. monitoring_policies (objects b)) base local remote)) \<longleftrightarrow>
        k' = MonitoringPolicy \<and> divergent base local remote (MonitoringPolicy, i)"
    "\<And>k' i. (k', i) \<in> set (conflict_ids (view LoginAutomation login_id (\<lambda>b. login_automations (objects b)) base local remote)) \<longleftrightarrow>
        k' = LoginAutomation \<and> divergent base local remote (LoginAutomation, i)"
    "\<And>k' i. (k', i) \<in> set (conflict_ids (view Secret secret_id secrets base local remote)) \<longleftrightarrow>
        k' = Secret \<and> divergent base local remote (Secret, i)"
    by (rule conflict_ids_view [OF v(1), of HostObject], simp add: inj_def, simp add: lookup_object_def,
        rule conflict_ids_view [OF v(2), of DesktopObject], simp add: inj_def, simp add: lookup_object_def,
        rule conflict_ids_view [OF v(3), of IdentityObject], simp add: inj_def, simp add: lookup_object_def,
        rule conflict_ids_view [OF v(4), of CredentialObject], simp add: inj_def, simp add: lookup_object_def,
        rule conflict_ids_view [OF v(5), of RouteObject], simp add: inj_def, simp add: lookup_object_def,
        rule conflict_ids_view [OF v(6), of PlanObject], simp add: inj_def, simp add: lookup_object_def,
        rule conflict_ids_view [OF v(7), of AlgorithmObject], simp add: inj_def, simp add: lookup_object_def,
        rule conflict_ids_view [OF v(8), of HeartbeatObject], simp add: inj_def, simp add: lookup_object_def,
        rule conflict_ids_view [OF v(9), of MonitoringObject], simp add: inj_def, simp add: lookup_object_def,
        rule conflict_ids_view [OF v(10), of LoginObject], simp add: inj_def, simp add: lookup_object_def,
        rule conflict_ids_view [OF v(11), of SecretObject], simp add: inj_def, simp add: lookup_object_def)
  show ?thesis
    unfolding n collect_conflict_nodes_def btree_set_def set_sort set_remdups set_append Un_iff c
    by (cases k) simp_all
qed

lemma divergent_sym: "divergent base remote local n \<longleftrightarrow> divergent base local remote n"
  by (auto simp: divergent_def diff3_def)

lemma collect_conflicts_sym:
  assumes "valid_ids [base, local, remote]"
  shows "collect_conflict_nodes base remote local = collect_conflict_nodes base local remote"
proof (rule sorted_distinct_set_unique)
  have "valid_ids [base, remote, local]" using assms by (simp add: valid_ids_def)
  then show "set (collect_conflict_nodes base remote local) = set (collect_conflict_nodes base local remote)"
    using collect_conflicts_divergent [OF assms] collect_conflicts_divergent [of base remote local] divergent_sym by blast
qed (simp_all add: collect_conflict_nodes_def btree_set_def)

text \<open>
  (C9) The conflicts of valid bundles are exactly the objects whose states diverge: both sides
  changed them from the base, and not to the same state. They do not depend on which side is
  called local.
\<close>

theorem conflicts_are_divergences:
  assumes "validate J base = Inr ()" "validate J local = Inr ()" "validate J remote = Inr ()"
  shows "set (collect_conflict_nodes base local remote) =
      {n. diff3 (item_state base n) (observed (item_state base n) (item_state local n))
            (observed (item_state base n) (item_state remote n)) = None} \<and>
    collect_conflict_nodes base remote local = collect_conflict_nodes base local remote"
proof -
  have v: "valid_ids [base, local, remote]" using assms by (simp add: valid_ids_def validate_iff)
  show ?thesis
    using collect_conflicts_divergent [OF v] collect_conflicts_sym [OF v] unfolding divergent_def by blast
qed

section \<open>A side that did not change\<close>

lemma groups_distinct:
  assumes "preferences_check J b = Inr ()" "preferences b = Some p"
  shows "distinct (map fst (groups p))"
proof -
  have "length (groups p) = length GROUPS"
    using assms by (cases "schema b") (auto simp: preferences_check_def validate_preferences_def result_simps)
  moreover have "distinct (map fst GROUPS)" by code_simp
  then have "card (fst ` set GROUPS) = length GROUPS" by (metis distinct_card length_map list.set_map)
  ultimately show ?thesis
    using validated_groups [OF assms] by (metis card_distinct length_map list.set_map)
qed

lemma merge_groups_unchanged:
  assumes "\<And>g l r. (g, l) \<in> set ls \<Longrightarrow> snd (pick g l r) = 0"
    and "merge_groups remote_of pick ls merged n = Some (gs, n')"
  shows "n' = n"
  using assms
proof (induction ls arbitrary: merged n)
  case (Cons x ls)
  obtain g l where x: "x = (g, l)" by force
  obtain r where r: "remote_of g = Some r" using Cons.prems(2) x by (auto split: option.splits)
  have "snd (pick g l r) = 0" using Cons.prems(1) [of g l r] x by simp
  then obtain c where c: "pick g l r = (c, 0)" by (cases "pick g l r") simp
  have "merge_groups remote_of pick ls (btree_insert g c merged) n = Some (gs, n')" using Cons.prems(2) x r c by simp
  from Cons.IH [OF _ this] Cons.prems(1) show ?case by simp
qed simp

lemma merge_preferences_unchanged:
  assumes "preferences_check J base = Inr ()" "merge_preferences base base remote cr now = Some (prefs, p)"
  shows "p = 0"
proof -
  have "n = 0" if "preferences base = Some lp"
    "merge_groups remote_of (\<lambda>g l r. choose_group (group_of base g) l r cr (newest g)) (groups lp) (groups lp) 0 = Some (gs, n)"
    for lp gs n remote_of newest
  proof (rule merge_groups_unchanged [OF _ that(2)])
    fix g l r assume "(g, l) \<in> set (groups lp)"
    then have "group_of base g = Some l"
      using groups_distinct [OF assms(1) that(1)] that(1) by (simp add: group_of_def)
    then show "snd (choose_group (group_of base g) l r cr (newest g)) = 0" by (simp add: choose_group_def)
  qed
  with assms(2) show ?thesis
    by (cases "preferences base"; cases "preferences remote") (auto simp: merge_preferences_def split: option.splits)
qed

lemma unchanged_no_conflicts:
  assumes "valid_ids [base, base, remote]"
  shows "collect_conflict_nodes base base remote = []"
proof -
  have "observed s s = s" for s :: "portable_object item_state" by (cases s) (simp_all add: observed_def)
  then have "\<not> divergent base base remote n" for n by (simp add: divergent_def diff3_def)
  then have none: "n \<notin> set (collect_conflict_nodes base base remote)" for n
    unfolding collect_conflicts_divergent [OF assms] .
  show ?thesis
  proof (cases "collect_conflict_nodes base base remote")
    case (Cons n ns)
    then show ?thesis using none [of n] by simp
  qed
qed

text \<open>
  (C33) Fast-forward: when the local side is the base itself, the merge never reports a conflict, and
  a merged bundle has every object in the state of the remote side. Objects the remote side does
  not mention keep the deletion the base recorded.
\<close>

theorem merge_fast_forward:
  assumes "merge_bundles_three_way J now base base remote rv = Inr r"
  shows "\<exists>m. r = Merged m \<and> (\<forall>n. item_state m n = observed (item_state base n) (item_state remote n))"
proof -
  let ?merge = "merge_bundles_three_way_with_policies J now base base remote rv None None"
  have eq: "?merge = Inr r"
    using assms by (simp add: merge_bundles_three_way_def merge_bundles_three_way_with_resolution_def)
  have ok: "merge_inputs_ok J base base remote"
    using eq merge_rejects [of J base base remote now rv None None] by (cases "merge_inputs_ok J base base remote") auto
  note c = unchanged_no_conflicts [OF inputs_valid_ids [OF ok]]
  have pc: "preferences_check J base = Inr ()" using ok by (simp add: merge_inputs_ok_def validate_iff)
  have nc: "?merge \<noteq> Inr (Conflicts k)" for k
  proof (rule merge_cases [OF ok, of None None now rv], goal_cases)
    case (1 sides u prefs p all_v6)
    have "u = 0" using 1(1) by (simp add: c resolve_conflicts_def)
    moreover have "p = 0" using 1(3) merge_preferences_unchanged [OF pc, of remote None now] by (cases all_v6) auto
    ultimately show ?case using 1(6) merge_result_outcome(2) by fastforce
  qed
  then obtain m where m: "r = Merged m" using eq by (cases r) auto
  show ?thesis
  proof (rule merged_facts [OF eq [unfolded m]], goal_cases)
    case (1 sides prefs os ss ts)
    have "sides = Map.empty" using 1(2) by (simp add: c resolve_conflicts_def)
    moreover have "observed s s = s" for s :: "portable_object item_state" by (cases s) (simp_all add: observed_def)
    ultimately have "item_state m n = observed (item_state base n) (item_state remote n)" for n
      using 1(7) [of n] by (auto simp: node_refines_def merged_state_def diff3_def split: if_splits)
    with m show ?thesis by blast
  qed
qed

section \<open>Update times\<close>

lemma btree_entry_with: "btree_entry f k v = btree.entry_with f k v"
  by (rule ext) (simp add: btree_entry_def btree.entry_with_def)

lemma max_fold_lookup:
  fixes cs :: "('k::linorder \<times> int) list"
  shows "map_of (fold (\<lambda>(k, v). btree_entry max k v) cs []) k =
    (if {v. (k, v) \<in> set cs} = {} then None else Some (Max {v. (k, v) \<in> set cs}))"
proof -
  let ?m = "fold (\<lambda>(k, v). btree.entry_with max k v) cs ([] :: ('k \<times> int) list)" and ?V = "{v. (k, v) \<in> set cs}"
  have fin: "finite ?V" by (rule finite_subset [of _ "snd ` set cs"]) force+
  have m: "fold (\<lambda>(k, v). btree_entry max k v) cs [] = ?m" by (simp only: btree_entry_with)
  have up: "\<exists>w. map_of ?m k = Some w \<and> v \<le> w" if "v \<in> ?V" for v
    using btree.upper_entry_fold [of "(\<le>)" max "[]" k v cs] that btree.invar_empty by force
  have val: "w \<in> ?V" if "map_of ?m k = Some w" for w
    using btree.value_entry_fold [of max "[]" cs k w] that btree.invar_empty by (force simp: max_def)
  show ?thesis
  proof (cases "?V = {}")
    case True
    then have "map_of ?m k = None" using val by (cases "map_of ?m k") auto
    with True m show ?thesis by simp
  next
    case False
    then obtain w where w: "map_of ?m k = Some w" using up by blast
    have "Max ?V = w" using up val [OF w] w by (intro Max_eqI fin) auto
    with False m w show ?thesis by simp
  qed
qed

lemma find_time:
  "map_option update_time_unix_ms (List.find (\<lambda>t. (time_kind t, time_id t) = n)
     (map (\<lambda>((k, i), t). \<lparr>time_kind = k, time_id = i, update_time_unix_ms = t\<rparr>) T)) = map_of T n"
  by (induction T) auto

lemma kind_times_iff:
  assumes "distinct (map idf vs)" "\<forall>b \<in> set bs. distinct (map idf (field b))"
  shows "((k', i), t) \<in> set (kind_times k idf field vs bs) \<longleftrightarrow>
    k' = k \<and> (\<exists>b \<in> set bs. \<exists>x. value_map idf vs i = Some x \<and> value_map idf (field b) i = Some x \<and> item_time b (k, i) = Some t)"
  using assms by (force simp: kind_times_def value_map_Some split: option.splits if_splits)

lemma has_tombstone_iff: "has_tombstone b (k, i) \<longleftrightarrow> \<lparr>tombstone_kind = k, tombstone_id = i\<rparr> \<in> set (tombstones b)"
proof -
  have eq: "(tombstone_kind t, tombstone_id t) = (k, i) \<longleftrightarrow> t = \<lparr>tombstone_kind = k, tombstone_id = i\<rparr>" for t :: PortableTombstone
    by (cases t) auto
  show ?thesis unfolding has_tombstone_def list_ex_iff eq by simp
qed

lemma tombstone_times_iff:
  "((k, i), t) \<in> set (tombstone_times (tombstones m) bs) \<longleftrightarrow>
     (\<exists>b \<in> set bs. has_tombstone m (k, i) \<and> has_tombstone b (k, i) \<and> item_time b (k, i) = Some t)"
proof
  assume "((k, i), t) \<in> set (tombstone_times (tombstones m) bs)"
  then obtain x b where x: "x \<in> set (tombstones m)" "x \<in> set (tombstones b)" "b \<in> set bs"
    "(tombstone_kind x, tombstone_id x) = (k, i)" "item_time b (k, i) = Some t"
    by (auto simp: tombstone_times_def Let_def split: option.splits if_splits)
  then show "\<exists>b \<in> set bs. has_tombstone m (k, i) \<and> has_tombstone b (k, i) \<and> item_time b (k, i) = Some t"
    by (auto simp: has_tombstone_def list_ex_iff)
next
  assume "\<exists>b \<in> set bs. has_tombstone m (k, i) \<and> has_tombstone b (k, i) \<and> item_time b (k, i) = Some t"
  then obtain b where "b \<in> set bs" "\<lparr>tombstone_kind = k, tombstone_id = i\<rparr> \<in> set (tombstones m)"
    "\<lparr>tombstone_kind = k, tombstone_id = i\<rparr> \<in> set (tombstones b)" "item_time b (k, i) = Some t"
    by (auto simp: has_tombstone_iff)
  then show "((k, i), t) \<in> set (tombstone_times (tombstones m) bs)"
    by (auto simp: tombstone_times_def Let_def intro!: bexI [of _ b] bexI [of _ "\<lparr>tombstone_kind = k, tombstone_id = i\<rparr>"])
qed

lemma time_candidates_iff:
  fixes m :: "'v PortableBundleV1"
  assumes "distinct (all_ids m)" "\<forall>b \<in> set bs. distinct (all_ids b)"
  shows "((k, i), t) \<in> set (time_candidates (objects m) (secrets m) (tombstones m) bs) \<longleftrightarrow>
    (\<exists>b \<in> set bs. item_time b (k, i) = Some t \<and>
       ((\<exists>x. lookup_object (objects m) (secrets m) (k, i) = Some x \<and> lookup_object (objects b) (secrets b) (k, i) = Some x) \<or>
        has_tombstone m (k, i) \<and> has_tombstone b (k, i)))"
proof -
  note d = distinct_all_ids [OF assms(1)]
  have a: "distinct (all_ids b)" if "b \<in> set bs" for b using assms(2) that by blast
  have db:
    "\<forall>b \<in> set bs. distinct (map host_id (hosts (objects b)))"
    "\<forall>b \<in> set bs. distinct (map desktop_id (desktop_profiles (objects b)))"
    "\<forall>b \<in> set bs. distinct (map identity_id (identities (objects b)))"
    "\<forall>b \<in> set bs. distinct (map credential_id (credentials (objects b)))"
    "\<forall>b \<in> set bs. distinct (map route_id (routes (objects b)))"
    "\<forall>b \<in> set bs. distinct (map plan_id (authentication_plans (objects b)))"
    "\<forall>b \<in> set bs. distinct (map algorithm_id (algorithm_policies (objects b)))"
    "\<forall>b \<in> set bs. distinct (map heartbeat_id (heartbeat_policies (objects b)))"
    "\<forall>b \<in> set bs. distinct (map monitoring_id (monitoring_policies (objects b)))"
    "\<forall>b \<in> set bs. distinct (map login_id (login_automations (objects b)))"
    "\<forall>b \<in> set bs. distinct (map secret_id (secrets b))"
    using distinct_all_ids [OF a] by simp_all
  note kt =
    kind_times_iff [OF d(1) db(1)]
    kind_times_iff [OF d(2) db(2)]
    kind_times_iff [OF d(3) db(3)]
    kind_times_iff [OF d(4) db(4)]
    kind_times_iff [OF d(5) db(5)]
    kind_times_iff [OF d(6) db(6)]
    kind_times_iff [OF d(7) db(7)]
    kind_times_iff [OF d(8) db(8)]
    kind_times_iff [OF d(9) db(9)]
    kind_times_iff [OF d(10) db(10)]
    kind_times_iff [OF d(11) db(11)]
  show ?thesis
    unfolding time_candidates_def set_append Un_iff kt tombstone_times_iff
    by (cases k; simp add: lookup_object_def; blast)
qed

lemma live_untombstoned:
  assumes "distinct (all_ids b)" "lookup_object (objects b) (secrets b) n = Some x"
  shows "\<not> has_tombstone b n"
proof -
  obtain k i where n: "n = (k, i)" by (cases n)
  have "i \<in> set (object_ids (objects b)) \<or> i \<in> secret_id ` set (secrets b)"
    using assms(2) by (cases k) (auto simp: n lookup_object_def object_ids_def dest!: value_map_SomeD)
  moreover have "i \<in> tombstone_id ` set (tombstones b)" if "has_tombstone b n"
    using that by (force simp: n has_tombstone_iff)
  ultimately show ?thesis using assms(1) by (auto simp: all_ids_def)
qed

lemma state_equal:
  assumes "distinct (all_ids m)" "distinct (all_ids b)"
  shows "(\<exists>x. lookup_object (objects m) (secrets m) n = Some x \<and> lookup_object (objects b) (secrets b) n = Some x) \<or>
      has_tombstone m n \<and> has_tombstone b n \<longleftrightarrow> item_state b n = item_state m n \<and> item_state m n \<noteq> Absent"
  using live_untombstoned [OF assms(1), of n] live_untombstoned [OF assms(2), of n]
  by (cases "lookup_object (objects m) (secrets m) n"; cases "lookup_object (objects b) (secrets b) n")
    (auto simp: item_state_def state_of_def)

lemma absent_no_time:
  assumes "validate J b = Inr ()" "item_time b n = Some t"
  shows "item_state b n \<noteq> Absent"
proof -
  obtain k i where n: "n = (k, i)" by (cases n)
  obtain x where x: "x \<in> set (update_times b)" "(time_kind x, time_id x) = n"
    using assms(2) by (auto simp: item_time_def find_Some_iff in_set_conv_nth)
  have "n \<in> set (present_nodes b)" using assms(1) x by (auto simp: validate_iff times_ok_def)
  then have "n \<in> set (object_nodes (objects b)) \<union> (\<lambda>s. (Secret, secret_id s)) ` set (secrets b) \<or> has_tombstone b n"
    by (force simp: present_nodes_def has_tombstone_def list_ex_iff)
  moreover have "lookup_object (objects b) (secrets b) n \<noteq> None"
    if "n \<in> set (object_nodes (objects b)) \<union> (\<lambda>s. (Secret, secret_id s)) ` set (secrets b)"
    using that unfolding n by (cases k) (auto simp: object_nodes_def lookup_object_def value_map_None)
  ultimately have "lookup_object (objects b) (secrets b) n \<noteq> None \<or> has_tombstone b n" by blast
  then show ?thesis by (auto simp: item_state_def state_of_def split: option.splits)
qed

text \<open>
  (C34) A merged bundle dates every item with the latest of the times that those inputs give it which
  hold the item in the same state; an item no such input dates has no time.
\<close>

theorem merged_update_times:
  assumes "merge_bundles_three_way_with_policies J now base local remote rv cr dr = Inr (Merged m)"
  shows "item_time m n =
    (let times = {t. \<exists>b \<in> {base, local, remote}. item_state b n = item_state m n \<and> item_time b n = Some t} in
     if times = {} then None else Some (Max times))"
proof (rule merged_facts [OF assms])
  fix prefs os ss ts
  assume ok: "merge_inputs_ok J base local remote" and v: "validate J m = Inr ()"
    and m: "m = assemble base local remote rv (list_all (\<lambda>b. schema b = V6_bundle) [base, local, remote]) prefs os ss ts"
  obtain k i where n: "n = (k, i)" by (cases n)
  let ?bs = "[base, local, remote]" and ?c = "time_candidates (objects m) (secrets m) (tombstones m) [base, local, remote]"
  have vb: "validate J b = Inr ()" if "b \<in> set ?bs" for b using ok that by (auto simp: merge_inputs_ok_def)
  have dm: "distinct (all_ids m)" using v by (simp add: validate_iff)
  have db: "distinct (all_ids b)" if "b \<in> set ?bs" for b using vb [OF that] by (simp add: validate_iff)
  have "update_times m = merge_update_times (objects m) (secrets m) (tombstones m) base local remote"
    by (simp add: m assemble_def Let_def)
  then have t: "item_time m n = map_of (fold (\<lambda>(k, v). btree_entry max k v) ?c []) n"
    by (simp add: item_time_def merge_update_times_def find_time)
  have dbs: "\<forall>b \<in> set ?bs. distinct (all_ids b)" using db by blast
  have c: "(n, t) \<in> set ?c \<longleftrightarrow> (\<exists>b \<in> {base, local, remote}. item_state b n = item_state m n \<and> item_time b n = Some t)" for t
  proof -
    have "(n, t) \<in> set ?c \<longleftrightarrow> (\<exists>b \<in> set ?bs. item_time b n = Some t \<and>
        (item_state b n = item_state m n \<and> item_state m n \<noteq> Absent))"
      unfolding n time_candidates_iff [OF dm dbs]
      by (intro bex_cong refl conj_cong state_equal [OF dm db])
    also have "\<dots> \<longleftrightarrow> (\<exists>b \<in> set ?bs. item_state b n = item_state m n \<and> item_time b n = Some t)"
      by (intro bex_cong refl) (use absent_no_time [OF vb] in metis)
    finally show ?thesis by simp
  qed
  show ?thesis unfolding t max_fold_lookup c Let_def ..
qed

section \<open>A concrete merge\<close>

definition sample_identity :: "PortableObjectId \<Rightarrow> string \<Rightarrow> PortableIdentity" where
  "sample_identity i name =
     \<lparr>identity_id = i, identity_label = U name, identity_username = Some (U ''root''), identity_credential_ids = []\<rparr>"

definition identity_bundle :: "u64 \<Rightarrow> PortableIdentity list \<Rightarrow> int \<Rightarrow> unit PortableBundleV1" where
  "identity_bundle rv is t =
     (sample_bundle [])\<lparr>revision := rv, objects := (objects (sample_bundle []))\<lparr>identities := is\<rparr>,
        tombstones := [], update_times := [\<lparr>time_kind = Identity, time_id = 1, update_time_unix_ms = t\<rparr>]\<rparr>"

definition sample_base :: "unit PortableBundleV1" where
  "sample_base = identity_bundle 1 [sample_identity 1 ''a''] 5"

definition sample_remote :: "unit PortableBundleV1" where
  "sample_remote = identity_bundle 2 [sample_identity 2 ''c'', sample_identity 1 ''b''] 9"

definition sample_merged :: "unit PortableBundleV1" where
  "sample_merged = identity_bundle 3 [sample_identity 1 ''b'', sample_identity 2 ''c''] 9"

lemma sample_merge:
  "merge_bundles_three_way_with_policies sample_json 0 sample_base sample_base sample_remote 3 None None = Inr (Merged sample_merged)"
  by code_simp

lemma sample_valid: "validate sample_json sample_base = Inr ()" "validate sample_json sample_remote = Inr ()"
  by code_simp+

theorem merge_refines_three_way_witness:
  "\<exists>sides. resolve_conflicts [sample_base, sample_base, sample_remote]
      (collect_conflict_nodes sample_base sample_base sample_remote) sample_base sample_remote None None 0 = Some (sides, 0) \<and>
    (\<forall>n. merged_state (sides n) (item_state sample_base n) (item_state sample_base n) (item_state sample_remote n) =
      Some (item_state sample_merged n))"
  by (rule merge_refines_three_way [OF sample_merge])

theorem merged_bundle_closed_witness:
  "set (bundle_edges sample_merged) \<subseteq> live_nodes sample_merged \<times> live_nodes sample_merged \<and> revision sample_merged = 3"
  using merged_bundle_closed [OF sample_merge] by blast

theorem merged_update_times_witness:
  "item_time sample_merged (Identity, 1) =
    (let times = {t. \<exists>b \<in> {sample_base, sample_base, sample_remote}.
        item_state b (Identity, 1) = item_state sample_merged (Identity, 1) \<and> item_time b (Identity, 1) = Some t} in
     if times = {} then None else Some (Max times))"
  by (rule merged_update_times [OF sample_merge])

theorem conflicts_are_divergences_witness:
  "set (collect_conflict_nodes sample_base sample_merged sample_remote) =
      {n. diff3 (item_state sample_base n) (observed (item_state sample_base n) (item_state sample_merged n))
            (observed (item_state sample_base n) (item_state sample_remote n)) = None} \<and>
    collect_conflict_nodes sample_base sample_remote sample_merged = collect_conflict_nodes sample_base sample_merged sample_remote"
proof -
  have "validate sample_json sample_merged = Inr ()" by code_simp
  from conflicts_are_divergences [OF sample_valid(1) this sample_valid(2)] show ?thesis .
qed

theorem merge_fast_forward_witness:
  "\<exists>m. Merged sample_merged = Merged m \<and>
     (\<forall>n. item_state m n = observed (item_state sample_base n) (item_state sample_remote n))"
proof -
  have "merge_bundles_three_way sample_json 0 sample_base sample_base sample_remote 3 = Inr (Merged sample_merged)"
    by (simp only: merge_bundles_three_way_def merge_bundles_three_way_with_resolution_def sample_merge)
  from merge_fast_forward [OF this] show ?thesis .
qed

end
