(* ===== verification/SshEndpoint.thy ===== *)
theory SshEndpoint
  imports NetAddr
begin

text \<open>
  SSH endpoints, \<open>crates/ssh-domain/src/lib.rs\<close>: the normal form of a host address, the trust key of
  an endpoint and the fingerprint text of a host key. The hash and the base64 encoder of the
  fingerprint come from other crates and are arguments.
\<close>


section \<open>Endpoints\<close>

datatype EndpointError = Empty | Invalid | InvalidPort

record Endpoint =
  normalized_address :: ustring
  endpoint_port :: u16

definition unbracket :: "ustring \<Rightarrow> ustring \<times> bool" where
  "unbracket input =
     (case Option.bind (strip_prefix 91 input) (strip_suffix 93) of
        Some address \<Rightarrow> (address, True)
      | None \<Rightarrow> (input, False))"

definition host_label_ok :: "ustring \<Rightarrow> bool" where
  "host_label_ok l \<longleftrightarrow>
     \<not> (l = [] \<or> str_len l > 63 \<or> \<not> list_all (\<lambda>c. is_ascii_alnum c \<or> c = 45) l \<or>
        \<not> is_ascii_alnum (hd l) \<or> \<not> is_ascii_alnum (last l))"

definition normalize_hostname :: "ustring \<Rightarrow> EndpointError + ustring" where
  "normalize_hostname address =
     (let hostname = to_ascii_lowercase (case strip_suffix 46 address of Some a \<Rightarrow> a | None \<Rightarrow> address);
          labels = split_char 46 hostname in
      if hostname = [] \<or> str_len hostname > 253 then Inl Invalid
      else if length labels = 4 \<and> list_all (list_all is_ascii_digit) labels then Inl Invalid
      else if list_ex (\<lambda>l. \<not> host_label_ok l) labels then Inl Invalid
      else Inr hostname)"

definition normalize_host_address :: "ustring \<Rightarrow> EndpointError + ustring" where
  "normalize_host_address input =
     (let s = trim input in
      if s = [] then Inl Empty
      else (case unbracket s of (address, bracketed) \<Rightarrow>
        (case parse_ip address of
           Some ip \<Rightarrow> if bracketed \<and> \<not> is_ipv6 ip then Inl Invalid else Inr (show_ip ip)
         | None \<Rightarrow>
             if bracketed \<or> \<not> is_ascii address then Inl Invalid else normalize_hostname address)))"

definition Endpoint_parse :: "ustring \<Rightarrow> u16 \<Rightarrow> EndpointError + Endpoint" where
  "Endpoint_parse address port =
     (if port = 0 then Inl InvalidPort
      else bind_result (normalize_host_address address) (\<lambda>a. Inr \<lparr>normalized_address = a, endpoint_port = port\<rparr>))"

definition trust_key :: "Endpoint \<Rightarrow> ustring" where
  "trust_key e =
     (if parse_ipv6 (normalized_address e) \<noteq> None
      then [91] @ normalized_address e @ [93, 58] @ decimal (unat (endpoint_port e))
      else normalized_address e @ [58] @ decimal (unat (endpoint_port e)))"

definition ssh_sha256_fingerprint :: "(u8 list \<Rightarrow> u8 list) \<Rightarrow> (u8 list \<Rightarrow> ustring) \<Rightarrow> u8 list \<Rightarrow> ustring" where
  "ssh_sha256_fingerprint sha256 base64_no_pad public_key_blob = U ''SHA256:'' @ base64_no_pad (sha256 public_key_blob)"

section \<open>Texts of addresses\<close>

lemma read_number_digits:
  assumes "read_number 10 m z b s = Some (v, rest)"
  shows "\<exists>ds. s = ds @ rest \<and> list_all is_ascii_digit ds"
proof -
  have "rest = dropWhile is_ascii_digit s"
    using assms by (auto simp: read_number_def dest!: read_digits_rest split: option.splits if_splits)
  then show ?thesis
    by (intro exI [of _ "takeWhile is_ascii_digit s"]) (auto simp: list_all_iff dest: set_takeWhileD)
qed

lemma read_octets_text:
  assumes "read_octets i n s = Some (os, rest)" "0 < i"
  shows "\<exists>ls. s = concat (map ((#) 46) ls) @ rest \<and> length ls = n \<and> list_all (list_all is_ascii_digit) ls"
  using assms
proof (induction n arbitrary: i s os)
  case (Suc n)
  obtain v s1 os' where r: "read_separator 46 i (read_number 10 3 False 256) s = Some (v, s1)"
    "read_octets (i + 1) n s1 = Some (os', rest)"
    using Suc.prems(1) by (auto split: option.splits)
  obtain s0 where s0: "s = 46 # s0" "read_number 10 3 False 256 s0 = Some (v, s1)"
    using r(1) Suc.prems(2) by (auto simp: read_separator_def read_given_char_def strip_prefix_def split: option.splits list.splits if_splits)
  obtain ds where ds: "s0 = ds @ s1" "list_all is_ascii_digit ds" using read_number_digits [OF s0(2)] by blast
  obtain ls where ls: "s1 = concat (map ((#) 46) ls) @ rest" "length ls = n" "list_all (list_all is_ascii_digit) ls"
    using Suc.IH [OF r(2)] by auto
  show ?case by (rule exI [of _ "ds # ls"]) (simp add: s0 ds ls)
qed simp

lemma ipv4_text:
  assumes "read_ipv4_addr s = Some (os, [])"
  shows "\<exists>a ls. s = a @ concat (map ((#) 46) ls) \<and> length ls = 3 \<and> list_all (list_all is_ascii_digit) (a # ls)"
proof -
  obtain v s1 os' where r: "read_number 10 3 False 256 s = Some (v, s1)" "read_octets 1 (Suc (Suc (Suc 0))) s1 = Some (os', [])"
    using assms unfolding read_ipv4_addr_def four by (auto simp: read_separator_def simp del: read_octets.simps(2) split: option.splits) (auto simp: read_separator_def split: option.splits)
  from read_number_digits [OF r(1)] read_octets_text [OF r(2)] show ?thesis by force
qed

lemma split_char_pieces:
  assumes "c \<notin> set a" "list_all (\<lambda>l. c \<notin> set l) ls"
  shows "split_char c (a @ concat (map ((#) c) ls)) = a # ls"
proof -
  have piece: "c \<notin> set a \<Longrightarrow> split_char c s = p # ps \<Longrightarrow> split_char c (a @ s) = (a @ p) # ps" for a s p ps
    by (induction a) auto
  have "split_char c (concat (map ((#) c) ls)) = [] # ls" using assms(2)
  proof (induction ls)
    case (Cons l ls)
    then show ?case using piece [of l "concat (map ((#) c) ls)" "[]" ls] by simp
  qed simp
  from piece [OF assms(1) this] show ?thesis by simp
qed

lemma digits_no_dot: "list_all is_ascii_digit l \<Longrightarrow> 46 \<notin> set l"
  by (auto simp: list_all_iff is_ascii_digit_def)

lemma ipv4_labels:
  assumes "read_ipv4_addr s = Some (os, [])"
  shows "length (split_char 46 s) = 4 \<and> list_all (list_all is_ascii_digit) (split_char 46 s)"
proof -
  obtain a ls where s: "s = a @ concat (map ((#) 46) ls)" "length ls = 3" "list_all (list_all is_ascii_digit) (a # ls)"
    using ipv4_text [OF assms] by blast
  then have "split_char 46 s = a # ls"
    unfolding s(1) by (intro split_char_pieces) (auto simp: list_all_iff [of _ ls] intro: digits_no_dot dest: digits_no_dot)
  with s show ?thesis by simp
qed

lemma read_separator_colon: "58 \<notin> set s \<Longrightarrow> 0 < i \<Longrightarrow> read_separator 58 i f s = None"
  by (cases s) (auto simp: read_separator_def read_given_char_def strip_prefix_def)

lemma read_digits_subset: "read_digits r m acc n s = Some (v, c, rest) \<Longrightarrow> set rest \<subseteq> set s"
  by (induction s arbitrary: acc n) (auto split: option.splits if_splits)

lemma read_groups_no_colon:
  assumes "58 \<notin> set s"
  shows "length (fst (read_groups limit 0 n s)) \<le> 2"
    "fst (snd (read_groups limit 0 n s)) = False \<Longrightarrow> 58 \<notin> set (snd (snd (read_groups limit 0 n s)))"
proof -
  have later: "read_groups limit i k t = ([], False, t)" if "58 \<notin> set t" "0 < i" for i k t
    using that by (cases k) (simp_all add: read_separator_colon)
  have num: "58 \<notin> set t" if "read_number 16 4 True 65536 s = Some (g, t)" for g t
    using that assms read_digits_subset by (fastforce simp: read_number_def split: option.splits if_splits)
  have pairs: "length (octet_pairs os) \<le> 2" for os
    by (simp add: octet_pairs_def split: list.splits)
  show "length (fst (read_groups limit 0 n s)) \<le> 2"
    "fst (snd (read_groups limit 0 n s)) = False \<Longrightarrow> 58 \<notin> set (snd (snd (read_groups limit 0 n s)))"
    using assms pairs num later
    by (cases n; auto simp: read_separator_def split: option.splits if_splits)+
qed

lemma ipv6_text:
  assumes "read_ipv6_addr s = Some (gs, rest)"
  shows "58 \<in> set s"
proof (rule ccontr)
  assume n: "58 \<notin> set s"
  obtain h b t where g: "read_groups 8 0 8 s = (h, b, t)" by (cases "read_groups 8 0 8 s") auto
  have "length h \<le> 2" "\<not> b \<Longrightarrow> 58 \<notin> set t"
    using read_groups_no_colon [OF n, of 8 8] g by simp_all
  moreover have "58 \<notin> set t \<Longrightarrow> strip_prefix 58 t = None" by (cases t) (auto simp: strip_prefix_def)
  ultimately show False
    using assms g by (auto simp: read_ipv6_addr_def read_given_char_def split: if_splits)
qed

lemma parse_ip_text:
  assumes "parse_ip s = Some ip"
  shows "58 \<in> set s \<or> length (split_char 46 s) = 4 \<and> list_all (list_all is_ascii_digit) (split_char 46 s)"
  using assms ipv4_labels ipv6_text by (auto simp: parse_ip_def split: option.splits if_splits)

lemma read_octets_length: "read_octets i n s = Some (os, rest) \<Longrightarrow> length os = n"
  by (induction n arbitrary: i s os) (auto split: option.splits)

lemma read_groups_length: "i + n = limit \<Longrightarrow> length (fst (read_groups limit i n s)) \<le> n"
proof (induction n arbitrary: i s)
  case (Suc n)
  have pairs: "length (octet_pairs os) \<le> 2" for os by (simp add: octet_pairs_def split: list.splits)
  have IH: "length (fst (read_groups limit (Suc i) n t)) \<le> n" for t using Suc by simp
  have two: "i < limit - 1 \<Longrightarrow> 2 \<le> Suc n" using Suc.prems by simp
  show ?case
    using order_trans [OF pairs two] IH
    by (auto split: option.splits if_splits prod.splits) (metis fst_conv)+
qed simp

lemma parse_ip_valid: "parse_ip s = Some ip \<Longrightarrow> valid_ip ip"
proof -
  assume p: "parse_ip s = Some ip"
  have "length gs = 8" if r: "read_ipv6_addr s = Some (gs, rest)" for gs rest
  proof -
    obtain h b t where g: "read_groups 8 0 8 s = (h, b, t)" by (cases "read_groups 8 0 8 s") auto
    have h: "length h \<le> 8" using read_groups_length [of 0 8 8 s] g by simp
    show ?thesis
    proof (cases "length h = 8")
      case True
      with r g show ?thesis by (simp add: read_ipv6_addr_def)
    next
      case False
      let ?l = "7 - length h"
      obtain u x c q where u: "read_groups ?l 0 ?l u = (x, c, q)" "gs = h @ replicate (8 - (length h + length x)) 0 @ x"
        using r g False by (auto simp: read_ipv6_addr_def Let_def split: if_splits option.splits prod.splits)
      have "length x \<le> ?l" using read_groups_length [of 0 ?l ?l u] u(1) by simp
      with u h False show ?thesis by simp
    qed
  qed
  moreover have "length os = 4" if "read_ipv4_addr s = Some (os, rest)" for os rest
    using read_octets_length that by (simp add: read_ipv4_addr_def)
  ultimately show ?thesis using p by (auto simp: parse_ip_def valid_ip_def split: option.splits if_splits)
qed

definition address_char :: "uchar \<Rightarrow> bool" where
  "address_char c \<longleftrightarrow> is_ascii_digit c \<or> is_ascii_lower c \<or> c = 45 \<or> c = 46 \<or> c = 58"

lemma join_chars: "list_all P (join c ls) \<longleftrightarrow> list_all (list_all P) ls \<and> (1 < length ls \<longrightarrow> P c)"
  by (induction c ls rule: join.induct) auto

lemma show_ip_chars: "list_all address_char (show_ip ip)"
proof -
  have d: "list_all address_char (decimal n)" "list_all address_char (hexadecimal n)" for n
    using digit_chars [of n] by (auto simp: list_all_iff address_char_def)
  have c: "address_char 46" "address_char 58" by (simp_all add: address_char_def)
  have "list_all address_char (show_ipv4 os)" "list_all address_char (fmt_subslice gs)" for os gs
    using d c by (auto simp: show_ipv4_def fmt_subslice_def join_chars list_all_iff [of "list_all _"])
  moreover have "list_all address_char (U ''::ffff:'')" "list_all address_char (U ''::'')" by code_simp+
  ultimately show ?thesis
    by (cases ip) (auto simp: show_ip_def show_ipv6_def split: option.splits prod.splits)
qed

section \<open>Normal forms\<close>

lemma address_char_plain: "address_char c \<Longrightarrow> \<not> is_whitespace c \<and> c \<noteq> 91 \<and> c \<noteq> 93 \<and> c < 128 \<and> ascii_lower_char c = c"
  by (auto simp: address_char_def is_ascii_digit_def is_ascii_lower_def is_whitespace_def ascii_lower_char_def is_ascii_upper_def)

lemma trim_plain:
  assumes "list_all address_char s"
  shows "trim s = s"
proof -
  have d: "dropWhile is_whitespace t = t" if "list_all address_char t" for t
    using that address_char_plain by (cases t) auto
  have "list_all address_char (rev s)" using assms by (simp add: list_all_iff)
  with d assms show ?thesis by (simp add: trim_def)
qed

lemma unbracket_plain: "list_all address_char s \<Longrightarrow> unbracket s = (s, False)"
  using address_char_plain [of 91] by (cases s) (auto simp: unbracket_def strip_prefix_def)

lemma normalize_plain:
  assumes "list_all address_char s" "s \<noteq> []"
  shows "normalize_host_address s = (case parse_ip s of Some ip \<Rightarrow> Inr (show_ip ip) | None \<Rightarrow> normalize_hostname s)"
proof -
  have "is_ascii s" using assms(1) address_char_plain by (auto simp: is_ascii_def list_all_iff)
  then show ?thesis
    using trim_plain [OF assms(1)] unbracket_plain [OF assms(1)] assms(2)
    by (simp add: normalize_host_address_def split: option.splits)
qed

lemma parse_ip_Nil: "parse_ip [] = None"
  by code_simp

lemma split_char_nonempty: "split_char c s \<noteq> []"
  by (induction s) (auto split: list.splits)

lemma join_Cons_Cons: "join c ((x # p) # ps) = x # join c (p # ps)"
  by (cases ps) simp_all

lemma split_char_join: "join c (split_char c s) = s"
proof (induction s)
  case (Cons x s)
  obtain p ps where "split_char c s = p # ps" using split_char_nonempty [of c s] by (cases "split_char c s") auto
  with Cons show ?case by (auto simp: join_Cons_Cons)
qed simp

lemma join_last: "ls \<noteq> [] \<Longrightarrow> last ls \<noteq> [] \<Longrightarrow> join c ls \<noteq> [] \<and> last (join c ls) = last (last ls)"
  by (induction c ls rule: join.induct) auto

lemma hostname_chars:
  assumes "list_all host_label_ok (split_char 46 h)" "to_ascii_lowercase h = h"
  shows "list_all address_char h" "58 \<notin> set h" "h \<noteq> []" "last h \<noteq> 46"
proof -
  have "list_all (\<lambda>c. is_ascii_alnum c \<or> c = 45 \<or> c = 46) (join 46 (split_char 46 h))"
    unfolding join_chars using assms(1) by (auto simp: list_all_iff host_label_ok_def)
  then have a: "c = 45 \<or> c = 46 \<or> is_ascii_alnum c" if "c \<in> set h" for c
    using that by (auto simp: split_char_join list_all_iff)
  have l: "ascii_lower_char c = c" if "c \<in> set h" for c
    using assms(2) that unfolding to_ascii_lowercase_def by (metis in_set_conv_nth length_map nth_map)
  show "list_all address_char h"
    using a l by (fastforce simp: list_all_iff address_char_def is_ascii_alnum_def ascii_lower_char_def)
  show "58 \<notin> set h" using a [of 58] by (auto simp: is_ascii_alnum_def is_ascii_digit_def is_ascii_upper_def is_ascii_lower_def)
  have ok: "host_label_ok (last (split_char 46 h))"
    using assms(1) split_char_nonempty by (simp add: list_all_iff)
  then have ne: "last (split_char 46 h) \<noteq> []" by (simp add: host_label_ok_def)
  from join_last [OF split_char_nonempty ne, of 46] ok show "h \<noteq> []" "last h \<noteq> 46"
    by (auto simp: split_char_join host_label_ok_def is_ascii_alnum_def is_ascii_digit_def is_ascii_upper_def is_ascii_lower_def)
qed

lemma lowercase_idem: "to_ascii_lowercase (to_ascii_lowercase s) = to_ascii_lowercase s"
  by (auto simp: to_ascii_lowercase_def ascii_lower_char_def is_ascii_upper_def)

lemma normalize_hostname_normal:
  assumes "normalize_hostname s = Inr h"
  shows "list_all address_char h" "h \<noteq> []" "58 \<notin> set h" "parse_ip h = None" "normalize_hostname h = Inr h" "str_len h \<le> 253"
proof -
  let ?h = "to_ascii_lowercase (case strip_suffix 46 s of Some a \<Rightarrow> a | None \<Rightarrow> s)"
  have h: "h = ?h" and len: "str_len h \<le> 253"
    and digits: "\<not> (length (split_char 46 h) = 4 \<and> list_all (list_all is_ascii_digit) (split_char 46 h))"
    and labels: "list_all host_label_ok (split_char 46 h)"
    using assms by (auto simp: normalize_hostname_def Let_def list_ex_iff list_all_iff split: if_splits)
  have low: "to_ascii_lowercase h = h" unfolding h by (rule lowercase_idem)
  note c = hostname_chars [OF labels low]
  show "list_all address_char h" "h \<noteq> []" "58 \<notin> set h" "str_len h \<le> 253" using c len by simp_all
  show "parse_ip h = None" using parse_ip_text [of h] c(2) digits by (cases "parse_ip h") auto
  have "strip_suffix 46 h = None" using c(4) by (simp add: strip_suffix_def)
  then show "normalize_hostname h = Inr h"
    using low len digits labels c(3) by (simp add: normalize_hostname_def Let_def list_ex_iff list_all_iff)
qed

lemma normalize_cases:
  assumes "normalize_host_address s = Inr a"
  obtains ip where "valid_ip ip" "a = show_ip ip" | h where "normalize_hostname h = Inr a"
  using assms parse_ip_valid
  by (auto simp: normalize_host_address_def Let_def split: if_splits option.splits prod.splits)

lemma show_ip_normal:
  assumes "valid_ip ip"
  shows "show_ip ip \<noteq> []" "normalize_host_address (show_ip ip) = Inr (show_ip ip)"
proof -
  note p = parse_show_ip [OF assms]
  then show ne: "show_ip ip \<noteq> []" using parse_ip_Nil by (metis option.distinct(1))
  from normalize_plain [OF show_ip_chars ne] p show "normalize_host_address (show_ip ip) = Inr (show_ip ip)" by simp
qed

lemma normalized_address_plain:
  assumes "normalize_host_address s = Inr a"
  shows "a \<noteq> []" "list_all address_char a" "normalize_host_address a = Inr a"
proof -
  have "a \<noteq> [] \<and> list_all address_char a \<and> normalize_host_address a = Inr a"
    using assms
  proof (cases rule: normalize_cases)
    case (1 ip)
    then show ?thesis using show_ip_normal [OF 1(1)] show_ip_chars [of ip] by simp
  next
    case (2 h)
    note n = normalize_hostname_normal [OF 2]
    then show ?thesis using normalize_plain [OF n(1,2)] by simp
  qed
  then show "a \<noteq> []" "list_all address_char a" "normalize_host_address a = Inr a" by simp_all
qed

text \<open>
  A normalised host address is a normal form: it is not empty, holds only digits, lower-case
  letters, dots, colons and hyphens, so no space, bracket or capital, and normalising it again
  changes nothing.
\<close>

theorem normalize_idempotent:
  assumes "normalize_host_address s = Inr a"
  shows "a \<noteq> [] \<and> list_all address_char a \<and> trim a = a \<and> to_ascii_lowercase a = a \<and> normalize_host_address a = Inr a"
proof -
  note n = normalized_address_plain [OF assms]
  have "to_ascii_lowercase a = a"
    using n(2) address_char_plain by (auto simp: to_ascii_lowercase_def list_all_iff intro!: map_idI)
  with n trim_plain [OF n(2)] show ?thesis by simp
qed

theorem normalize_idempotent_witness:
  "normalize_host_address (U ''2001:db8::1'') = Inr (U ''2001:db8::1'')"
proof -
  have "normalize_host_address (U '' [2001:0DB8:0:0::1] '') = Inr (U ''2001:db8::1'')" by code_simp
  from normalize_idempotent [OF this] show ?thesis by blast
qed

section \<open>Identity of endpoints\<close>

lemma decimal_no_colon: "58 \<notin> set (decimal n)"
  using digit_chars(1) [of n] by (auto simp: list_all_iff is_ascii_digit_def)

lemma last_colon:
  assumes "a @ 58 # x = b @ 58 # y" "58 \<notin> set x" "58 \<notin> set y"
  shows "a = b \<and> x = y"
proof -
  have "rev x @ 58 # rev a = rev y @ 58 # rev b" using arg_cong [OF assms(1), of rev] by simp
  moreover have "takeWhile (\<lambda>c. c \<noteq> 58) (rev z @ 58 # w) = rev z" if "58 \<notin> set z" for z w
    using that by (subst takeWhile_append2) auto
  ultimately have "rev x = rev y" using assms(2,3) by metis
  with assms(1) show ?thesis by simp
qed

lemma bracketed_inject:
  "(if c then [91] @ a @ [93] else a) = (if d then [91] @ b @ [93] else b) \<Longrightarrow>
   91 \<notin> set a \<Longrightarrow> 91 \<notin> set b \<Longrightarrow> c = d \<and> a = b"
  by (auto split: if_splits)

text \<open>
  (C5) Trust keys identify endpoints: two parsed endpoints have the same key exactly when they have
  the same normalised address and port, however they were written.
\<close>

theorem trust_key_injective:
  assumes "Endpoint_parse s p = Inr e" "Endpoint_parse t q = Inr f"
  shows "trust_key e = trust_key f \<longleftrightarrow> e = f"
proof
  assume eq: "trust_key e = trust_key f"
  let ?b = "\<lambda>e. if parse_ipv6 (normalized_address e) \<noteq> None then [91] @ normalized_address e @ [93] else normalized_address e"
  have key: "trust_key e = ?b e @ 58 # decimal (unat (endpoint_port e))" for e :: Endpoint
    by (simp add: trust_key_def)
  have n: "normalize_host_address s = Inr (normalized_address e)" "normalize_host_address t = Inr (normalized_address f)"
    using assms by (auto simp: Endpoint_parse_def bind_result_ok split: if_splits)
  have "91 \<notin> set (normalized_address e)" "91 \<notin> set (normalized_address f)"
    using normalized_address_plain(2) [OF n(1)] normalized_address_plain(2) [OF n(2)] address_char_plain [of 91]
    by (auto simp: list_all_iff)
  with last_colon [OF eq [unfolded key] decimal_no_colon decimal_no_colon] bracketed_inject
  have "normalized_address e = normalized_address f" "unat (endpoint_port e) = unat (endpoint_port f)"
    unfolding decimal_inject by blast+
  then show "e = f" by (simp add: word_unat_eq_iff)
qed simp

theorem trust_key_injective_witness:
  "trust_key \<lparr>normalized_address = U ''::1'', endpoint_port = 22\<rparr> \<noteq> trust_key \<lparr>normalized_address = U ''example.com'', endpoint_port = 22\<rparr>"
proof -
  have "Endpoint_parse (U ''[::1]'') 22 = Inr \<lparr>normalized_address = U ''::1'', endpoint_port = 22\<rparr>"
    "Endpoint_parse (U '' EXAMPLE.com. '') 22 = Inr \<lparr>normalized_address = U ''example.com'', endpoint_port = 22\<rparr>"
    by code_simp+
  from trust_key_injective [OF this] show ?thesis by (simp add: U_def)
qed

section \<open>Spellings of an address\<close>

text \<open>A reader consumes a prefix of letters, digits, dots and colons.\<close>

definition consumed :: "ustring \<Rightarrow> ustring \<Rightarrow> bool" where
  "consumed s rest \<longleftrightarrow> (\<exists>u. s = u @ rest \<and> list_all (\<lambda>c. is_ascii_alnum c \<or> c = 46 \<or> c = 58) u)"

lemma consumed_refl [simp]: "consumed s s"
  by (auto simp: consumed_def)

lemma consumed_trans: "consumed s t \<Longrightarrow> consumed t u \<Longrightarrow> consumed s u"
  by (auto simp: consumed_def intro: exI [of _ "x @ y" for x y])

lemma consumed_Cons: "is_ascii_alnum c \<or> c = 46 \<or> c = 58 \<Longrightarrow> consumed s t \<Longrightarrow> consumed (c # s) t"
  by (auto simp: consumed_def intro: exI [of _ "c # u" for u])

lemma to_digit_alnum: "to_digit r c = Some d \<Longrightarrow> is_ascii_alnum c"
  by (auto simp: to_digit_def is_ascii_alnum_def Let_def split: if_splits option.splits)

lemma read_digits_consumed: "read_digits r m acc n s = Some (v, c, rest) \<Longrightarrow> consumed s rest"
  by (induction s arbitrary: acc n) (auto intro: consumed_Cons dest: to_digit_alnum split: option.splits if_splits)

lemma read_number_consumed: "read_number r m z b s = Some (v, rest) \<Longrightarrow> consumed s rest"
  by (auto simp: read_number_def dest: read_digits_consumed split: option.splits if_splits)

lemma read_separator_consumed:
  assumes "read_separator c i f s = Some (v, rest)" "c = 46 \<or> c = 58" "\<And>t. f t = Some (v, rest) \<Longrightarrow> consumed t rest"
  shows "consumed s rest"
  using assms
  by (cases s) (auto simp: read_separator_def read_given_char_def strip_prefix_def intro: consumed_Cons split: if_splits)

lemma read_octets_consumed: "read_octets i n s = Some (os, rest) \<Longrightarrow> consumed s rest"
proof (induction n arbitrary: i s os)
  case (Suc n)
  then obtain v s' os' where r: "read_separator 46 i (read_number 10 3 False 256) s = Some (v, s')"
    "read_octets (i + 1) n s' = Some (os', rest)" by (auto split: option.splits)
  have "consumed s s'" using r(1) by (rule read_separator_consumed) (auto intro: read_number_consumed)
  then show ?case using Suc.IH [OF r(2)] by (rule consumed_trans)
qed simp

lemma read_groups_consumed: "consumed s (snd (snd (read_groups limit i n s)))"
proof (induction n arbitrary: i s)
  case (Suc n)
  show ?case
  proof (cases "if i < limit - 1 then read_separator 58 i read_ipv4_addr s else None")
    case (Some p)
    then obtain os s' where p: "read_separator 58 i read_ipv4_addr s = Some (os, s')" "p = (os, s')"
      by (cases p) (auto split: if_splits)
    have "consumed s s'" using p(1)
      by (rule read_separator_consumed) (auto simp: read_ipv4_addr_def intro: read_octets_consumed)
    with Some p show ?thesis by simp
  next
    case None
    show ?thesis
    proof (cases "read_separator 58 i (read_number 16 4 True 65536) s")
      case (Some q)
      obtain g s' where q: "q = (g, s')" by force
      have "consumed s s'" using Some [unfolded q] by (rule read_separator_consumed) (auto intro: read_number_consumed)
      with Suc.IH [of s' "i + 1"] consumed_trans None Some q show ?thesis by (simp split: prod.splits)
    qed (use None in simp)
  qed
qed simp

lemma read_ipv6_consumed: "read_ipv6_addr s = Some (gs, rest) \<Longrightarrow> consumed s rest"
proof -
  assume r: "read_ipv6_addr s = Some (gs, rest)"
  obtain h b t where g: "read_groups 8 0 8 s = (h, b, t)" by (cases "read_groups 8 0 8 s") auto
  have st: "consumed s t" using read_groups_consumed [of s 8 0 8] g by simp
  show ?thesis
  proof (cases "length h = 8")
    case True
    with r g st show ?thesis by (simp add: read_ipv6_addr_def)
  next
    case False
    let ?l = "7 - length h"
    obtain u x c where u: "t = 58 # 58 # u" "read_groups ?l 0 ?l u = (x, c, rest)"
      using r g False
      by (auto simp: read_ipv6_addr_def read_given_char_def strip_prefix_def Let_def bind_eq_Some_conv
          split: if_splits option.splits prod.splits list.splits)
    have "consumed u rest" using read_groups_consumed [of u ?l 0 ?l] u(2) by simp
    then have "consumed t rest" unfolding u(1) by (simp add: consumed_Cons)
    with st show ?thesis by (rule consumed_trans)
  qed
qed

lemma parse_ip_chars:
  assumes "parse_ip s = Some ip"
  shows "list_all (\<lambda>c. is_ascii_alnum c \<or> c = 46 \<or> c = 58) s"
proof -
  have "consumed s []"
    using assms read_octets_consumed read_ipv6_consumed
    by (auto simp: parse_ip_def read_ipv4_addr_def split: option.splits if_splits)
  then show ?thesis by (simp add: consumed_def)
qed

lemma normalize_ip_text:
  assumes "parse_ip s = Some ip"
  shows "normalize_host_address s = Inr (show_ip ip)"
proof -
  let ?P = "\<lambda>c. is_ascii_alnum c \<or> c = 46 \<or> c = 58"
  have c: "list_all ?P s" by (rule parse_ip_chars [OF assms])
  have p: "\<not> is_whitespace c \<and> c \<noteq> 91" if "?P c" for c
    using that by (auto simp: is_ascii_alnum_def is_ascii_digit_def is_ascii_upper_def is_ascii_lower_def is_whitespace_def)
  have d: "dropWhile is_whitespace t = t" if "list_all ?P t" for t using that p by (cases t) auto
  have "list_all ?P (rev s)" using c by (simp add: list_all_iff)
  then have "trim s = s" using d c by (simp add: trim_def)
  moreover have "s \<noteq> []" using assms parse_ip_Nil by auto
  moreover have "unbracket s = (s, False)" using c p [of 91] by (cases s) (auto simp: unbracket_def strip_prefix_def)
  ultimately show ?thesis using assms by (simp add: normalize_host_address_def)
qed

text \<open>
  Spelling does not matter for IP addresses: two texts that the standard library reads as IP
  addresses are normalised to the same text exactly when they are the same address. So compressed,
  expanded, upper-case and IPv4-mapped spellings of one address share one trust entry, and no two
  addresses do.
\<close>

theorem ip_spelling_irrelevant:
  assumes "parse_ip s = Some a" "parse_ip t = Some b"
  shows "normalize_host_address s = normalize_host_address t \<longleftrightarrow> a = b"
proof -
  have p: "parse_ip (show_ip a) = Some a" "parse_ip (show_ip b) = Some b"
    by (rule parse_show_ip [OF parse_ip_valid [OF assms(1)]], rule parse_show_ip [OF parse_ip_valid [OF assms(2)]])
  have "a = b" if "show_ip a = show_ip b" using p(1) p(2) unfolding that by (simp only: option.inject)
  then show ?thesis
    unfolding normalize_ip_text [OF assms(1)] normalize_ip_text [OF assms(2)] by blast
qed

theorem ip_spelling_irrelevant_witness:
  "normalize_host_address (U ''0:0:0:0:0:FFFF:1.2.3.4'') = normalize_host_address (U ''::ffff:102:304'')"
proof -
  have "parse_ip (U ''0:0:0:0:0:FFFF:1.2.3.4'') = Some (V6 [0, 0, 0, 0, 0, 0xFFFF, 0x102, 0x304])"
    "parse_ip (U ''::ffff:102:304'') = Some (V6 [0, 0, 0, 0, 0, 0xFFFF, 0x102, 0x304])" by code_simp+
  from ip_spelling_irrelevant [OF this] show ?thesis by simp
qed

end
