(* ===== verification/OpenSshConfig.thy ===== *)
theory OpenSshConfig
  imports SshEndpoint
begin

text \<open>
  The import preview of OpenSSH client configurations, \<open>crates/ssh-domain/src/openssh_config.rs\<close>:
  the tokenizer, the lines, \<open>Host\<close> selectors with their patterns, directives, routes, and the
  candidate that is built for each literal alias. Diagnostics are values of the result; nothing is
  read or executed.
\<close>

section \<open>Data\<close>

definition MAX_CONFIG_BYTES :: nat where "MAX_CONFIG_BYTES = 1024 * 1024"
definition MAX_CONFIG_LINES :: nat where "MAX_CONFIG_LINES = 8192"
definition MAX_LINE_BYTES :: nat where "MAX_LINE_BYTES = 4096"
definition MAX_CANDIDATES :: nat where "MAX_CANDIDATES = 512"
definition MAX_IDENTITY_FILE_HINTS :: nat where "MAX_IDENTITY_FILE_HINTS = 64"
definition MAX_JUMP_HOPS :: nat where "MAX_JUMP_HOPS = 5"

datatype OpenSshDiagnosticSeverity = Warning | Error

datatype OpenSshDiagnosticCode =
    InputTooLarge | TooManyLines | LineTooLong | TooManyCandidates | TooManyIdentityFiles
  | InvalidSyntax | InvalidHostAlias | InvalidHostName | InvalidUser | InvalidPortCode
  | InvalidIdentityFile | InvalidProxyJump | UnsupportedProxyCommand | UnsupportedDirective
  | UnsupportedHostPattern | IncludeUnsupported | MatchUnsupported | DangerousExpansion
  | DangerousToken | NoLiteralHostCandidates

record OpenSshDiagnostic =
  code :: OpenSshDiagnosticCode
  severity :: OpenSshDiagnosticSeverity
  diag_line :: "nat option"
  diag_directive :: "ustring option"
  message :: string
  blocking :: bool

record OpenSshEndpointPreview =
  preview_address :: ustring
  preview_port :: u16

record OpenSshJumpHopPreview =
  hop_endpoint :: OpenSshEndpointPreview
  hop_user :: "ustring option"

datatype OpenSshRoutePreview =
    DirectRoute
  | JumpChain "OpenSshJumpHopPreview list"
  | HttpConnectRoute OpenSshEndpointPreview
  | Socks5Route OpenSshEndpointPreview

record OpenSshHostCandidate =
  host_alias :: ustring
  cand_endpoint :: "OpenSshEndpointPreview option"
  cand_user :: "ustring option"
  identity_file_hints :: "ustring list"
  cand_route :: OpenSshRoutePreview
  cand_diagnostics :: "OpenSshDiagnostic list"
  importable :: bool

record OpenSshConfigPreview =
  candidates :: "OpenSshHostCandidate list"
  diagnostics :: "OpenSshDiagnostic list"

record HostPattern =
  pattern :: ustring
  negated :: bool

datatype BlockSelector = GlobalBlock | HostBlock "HostPattern list" bool | MatchBlock

datatype RouteSource = ProxyJump ustring | ProxyCommand "ustring list"

datatype DirectiveSlot = Always | HostNameSlot | UserSlot | PortSlot | IdentityFileSlot | RouteSlot

datatype ParsedDirective =
    HostName ustring nat
  | User ustring nat
  | Port ustring nat
  | IdentityFile ustring nat
  | RouteDirective RouteSource nat
  | Blocking OpenSshDiagnostic DirectiveSlot
  | Ignored

record ConfigBlock =
  selector :: BlockSelector
  directives :: "ParsedDirective list"
  block_diagnostics :: "OpenSshDiagnostic list"

definition global :: ConfigBlock where
  "global = \<lparr>selector = GlobalBlock, directives = [], block_diagnostics = []\<rparr>"

record ParsedLine =
  keyword :: ustring
  line_values :: "ustring list"

definition diagnostic ::
    "OpenSshDiagnosticCode \<Rightarrow> nat option \<Rightarrow> ustring option \<Rightarrow> string \<Rightarrow> bool \<Rightarrow> OpenSshDiagnostic" where
  "diagnostic c l d msg b =
     \<lparr>code = c, severity = (if b then Error else Warning), diag_line = l, diag_directive = d,
      message = msg, blocking = b\<rparr>"

section \<open>Character checks\<close>

fun pair_ex :: "('a \<Rightarrow> 'a \<Rightarrow> bool) \<Rightarrow> 'a list \<Rightarrow> bool" where
  "pair_ex P (x # y # zs) \<longleftrightarrow> P x y \<or> pair_ex P (y # zs)"
| "pair_ex P _ \<longleftrightarrow> False"

definition byte_alnum :: "u8 \<Rightarrow> bool" where
  "byte_alnum b \<longleftrightarrow> is_ascii_alnum (unat b)"

definition contains_dangerous_expansion :: "ustring \<Rightarrow> bool" where
  "contains_dangerous_expansion v \<longleftrightarrow>
     96 \<in> set v \<or> pair_ex (\<lambda>x y. x = 36 \<and> (y = 40 \<or> y = 123)) v \<or>
     pair_ex (\<lambda>x y. x = 36 \<and> (y = 95 \<or> byte_alnum y)) (as_bytes v)"

definition contains_shell_token :: "ustring \<Rightarrow> bool" where
  "contains_shell_token v \<longleftrightarrow>
     contains_dangerous_expansion v \<or> list_ex (\<lambda>c. c \<in> {96, 59, 124, 62, 60}) v \<or>
     pair_ex (\<lambda>x y. x = 38 \<and> y = 38) v"

definition is_valid_alias :: "ustring \<Rightarrow> bool" where
  "is_valid_alias v \<longleftrightarrow>
     v \<noteq> [] \<and> str_len v \<le> 253 \<and> is_ascii v \<and>
     list_all (\<lambda>b. byte_alnum b \<or> b \<in> {46, 95, 45}) (as_bytes v)"

definition is_valid_user :: "ustring \<Rightarrow> bool" where
  "is_valid_user v \<longleftrightarrow>
     v \<noteq> [] \<and> str_len v \<le> 255 \<and> is_ascii v \<and>
     list_all (\<lambda>b. byte_alnum b \<or> b \<in> {46, 95, 45, 43, 64}) (as_bytes v)"

definition is_valid_identity_hint :: "ustring \<Rightarrow> bool" where
  "is_valid_identity_hint v \<longleftrightarrow>
     v \<noteq> [] \<and> str_len v \<le> MAX_LINE_BYTES \<and> \<not> list_ex is_control v \<and>
     \<not> contains_dangerous_expansion v \<and> \<not> list_ex (\<lambda>c. c \<in> {96, 59, 124}) v"

definition is_ignored_directive :: "ustring \<Rightarrow> bool" where
  "is_ignored_directive k \<longleftrightarrow> k \<in> set (map U
     [''addkeystoagent'', ''addressfamily'', ''bindaddress'', ''canonicalizefallbacklocal'', ''compression'',
      ''connectionattempts'', ''connecttimeout'', ''controlmaster'', ''controlpath'', ''controlpersist'',
      ''dynamicforward'', ''escapechar'', ''exitonforwardfailure'', ''forkafterauthentication'',
      ''forwardagent'', ''forwardx11'', ''forwardx11trusted'', ''gatewayports'', ''ipqos'', ''localforward'',
      ''loglevel'', ''requesttty'', ''remoteforward'', ''sendenv'', ''serveralivecountmax'',
      ''serveraliveinterval'', ''sessiontype'', ''setenv'', ''streamlocalbindmask'',
      ''streamlocalbindunlink'', ''tcpkeepalive'', ''tunnel'', ''tunneldevice'', ''visualhostkey''])"

section \<open>Patterns\<close>

definition byte_lower :: "u8 \<Rightarrow> u8" where
  "byte_lower b = (if 65 \<le> b \<and> b \<le> 90 then b + 32 else b)"

text \<open>One row of the table for a star, and one for any other pattern byte.\<close>

fun star_row :: "bool \<Rightarrow> bool list \<Rightarrow> bool list" where
  "star_row left [] = []"
| "star_row left (p # ps) = (p \<or> left) # star_row (p \<or> left) ps"

definition byte_row :: "u8 \<Rightarrow> u8 list \<Rightarrow> bool list \<Rightarrow> bool list" where
  "byte_row b value prev =
     False # map (\<lambda>(p, v). p \<and> (b = 63 \<or> byte_lower b = byte_lower v)) (zip prev value)"

fun glob_rows :: "u8 list \<Rightarrow> u8 list \<Rightarrow> bool list \<Rightarrow> bool list" where
  "glob_rows [] value prev = prev"
| "glob_rows (b # bs) value prev =
     glob_rows bs value (if b = 42 then star_row False prev else byte_row b value prev)"

definition glob_matches :: "ustring \<Rightarrow> ustring \<Rightarrow> bool" where
  "glob_matches pat v =
     last (glob_rows (as_bytes pat) (as_bytes v) (True # replicate (length (as_bytes v)) False))"

fun patterns_match :: "HostPattern list \<Rightarrow> ustring \<Rightarrow> bool \<Rightarrow> bool" where
  "patterns_match [] a positive = positive"
| "patterns_match (p # ps) a positive =
     (if glob_matches (pattern p) a then (if negated p then False else patterns_match ps a True)
      else patterns_match ps a positive)"

definition selector_matches :: "BlockSelector \<Rightarrow> ustring \<Rightarrow> bool" where
  "selector_matches s a =
     (case s of
        GlobalBlock \<Rightarrow> True
      | MatchBlock \<Rightarrow> True
      | HostBlock ps ambiguous \<Rightarrow> if ambiguous then True else patterns_match ps a False)"

section \<open>Lines\<close>

function tokenize_loop :: "ustring \<Rightarrow> ustring list \<Rightarrow> ustring \<Rightarrow> bool \<Rightarrow> uchar option \<Rightarrow> string + ustring list" where
  "tokenize_loop [] tokens token started quote =
     (if quote \<noteq> None then Inl ''Unterminated quoted value''
      else Inr (if started then tokens @ [token] else tokens))"
| "tokenize_loop (c # cs) tokens token started quote =
     (case quote of
        Some q \<Rightarrow>
          if c = q then tokenize_loop cs tokens token started None
          else if c = 92 then
            (case cs of
               [] \<Rightarrow> Inl ''Trailing escape in quoted value''
             | e # cs' \<Rightarrow> tokenize_loop cs' tokens (token @ [e]) True quote)
          else tokenize_loop cs tokens (token @ [c]) True quote
      | None \<Rightarrow>
          if c = 39 \<or> c = 34 then tokenize_loop cs tokens token True (Some c)
          else if c = 35 then Inr (if started then tokens @ [token] else tokens)
          else if is_whitespace c then
            (if started then tokenize_loop cs (tokens @ [token]) [] False None
             else tokenize_loop cs tokens token False None)
          else if c = 92 then
            (case cs of
               [] \<Rightarrow> Inl ''Trailing escape in value''
             | e # cs' \<Rightarrow>
                 tokenize_loop cs' tokens
                   (if is_whitespace e \<or> e \<in> {35, 92, 39, 34} then token @ [e] else token @ [92, e]) True None)
          else tokenize_loop cs tokens (token @ [c]) True None)"
  by pat_completeness auto
termination
  by (relation "measure (\<lambda>(cs, _, _, _, _). length cs)") auto

declare tokenize_loop.simps(2) [simp del]

definition tokenize :: "ustring \<Rightarrow> string + ustring list" where
  "tokenize line = tokenize_loop line [] [] False None"

definition parse_line :: "ustring \<Rightarrow> string + ParsedLine option" where
  "parse_line line =
     bind_result (tokenize line) (\<lambda>tokens.
       case tokens of
         [] \<Rightarrow> Inr None
       | first # rest \<Rightarrow>
           (case split_once 61 first of
              Some (k, v) \<Rightarrow>
                if k = [] then Inl ''Directive name is empty''
                else Inr (Some \<lparr>keyword = k, line_values = (if v \<noteq> [] then v # rest else rest)\<rparr>)
            | None \<Rightarrow>
                Inr (Some \<lparr>keyword = first,
                  line_values = (case rest of t # ts \<Rightarrow> if t = [61] then ts else rest | [] \<Rightarrow> [])\<rparr>)))"

section \<open>Directives\<close>

definition slot_for_keyword :: "ustring \<Rightarrow> DirectiveSlot" where
  "slot_for_keyword k =
     (if k = U ''hostname'' then HostNameSlot
      else if k = U ''user'' then UserSlot
      else if k = U ''port'' then PortSlot
      else if k = U ''identityfile'' then IdentityFileSlot
      else if k = U ''proxyjump'' \<or> k = U ''proxycommand'' then RouteSlot
      else Always)"

definition single_value ::
    "ParsedLine \<Rightarrow> nat \<Rightarrow> DirectiveSlot \<Rightarrow> (ustring \<Rightarrow> ParsedDirective) \<Rightarrow> ParsedDirective" where
  "single_value parsed line slot mk =
     (case line_values parsed of
        [v] \<Rightarrow> mk v
      | _ \<Rightarrow> Blocking (diagnostic InvalidSyntax (Some line) (Some (keyword parsed))
               ''Directive requires exactly one value'' True) slot)"

definition parse_directive :: "ParsedLine \<Rightarrow> nat \<Rightarrow> ParsedDirective" where
  "parse_directive parsed line =
     (let k = to_ascii_lowercase (keyword parsed) in
      if list_ex contains_dangerous_expansion (line_values parsed) then
        Blocking (diagnostic DangerousExpansion (Some line) (Some (keyword parsed))
          ''Command substitution or environment expansion is not imported'' True) (slot_for_keyword k)
      else if k = U ''hostname'' then single_value parsed line HostNameSlot (\<lambda>v. HostName v line)
      else if k = U ''user'' then single_value parsed line UserSlot (\<lambda>v. User v line)
      else if k = U ''port'' then single_value parsed line PortSlot (\<lambda>v. Port v line)
      else if k = U ''identityfile'' then single_value parsed line IdentityFileSlot (\<lambda>v. IdentityFile v line)
      else if k = U ''proxyjump'' then single_value parsed line RouteSlot (\<lambda>v. RouteDirective (ProxyJump v) line)
      else if k = U ''proxycommand'' then RouteDirective (ProxyCommand (line_values parsed)) line
      else if k = U ''include'' then
        Blocking (diagnostic IncludeUnsupported (Some line) (Some (keyword parsed))
          ''Include is not resolved by the pure-text import preview'' True) Always
      else if is_ignored_directive k then Ignored
      else Blocking (diagnostic UnsupportedDirective (Some line) (Some (keyword parsed))
             ''Directive is outside the safely importable non-secret subset'' True) Always)"

text \<open>The pattern loop of \<open>parse_host_selector\<close>: patterns, aliases, diagnostics, ambiguity.\<close>

fun host_patterns ::
    "nat \<Rightarrow> ustring list \<Rightarrow> HostPattern list \<times> ustring list \<times> OpenSshDiagnostic list \<times> bool" where
  "host_patterns line [] = ([], [], [], False)"
| "host_patterns line (v # vs) =
     (case (case strip_prefix 33 v of Some p \<Rightarrow> (True, p) | None \<Rightarrow> (False, v)) of (neg, pat) \<Rightarrow>
      case host_patterns line vs of (ps, found, ds, ambiguous) \<Rightarrow>
        if pat = [] \<or> contains_dangerous_expansion pat then
          (ps, found, diagnostic InvalidHostAlias (Some line) (Some (U ''Host''))
             ''Host pattern is empty or contains unsafe expansion syntax'' True # ds, True)
        else if 91 \<in> set pat \<or> 93 \<in> set pat then
          (ps, found, diagnostic UnsupportedHostPattern (Some line) (Some (U ''Host''))
             ''Bracket Host patterns are not evaluated by the safe import preview'' True # ds, True)
        else
          (\<lparr>pattern = to_ascii_lowercase pat, negated = neg\<rparr> # ps,
           (if \<not> neg \<and> \<not> (42 \<in> set pat \<or> 63 \<in> set pat) \<and> is_valid_alias pat then pat # found else found),
           (if \<not> neg \<and> \<not> (42 \<in> set pat \<or> 63 \<in> set pat) \<and> \<not> is_valid_alias pat
            then diagnostic InvalidHostAlias (Some line) (Some (U ''Host''))
                   ''Literal Host alias is not a safe ASCII alias'' True # ds
            else ds),
           ambiguous))"

definition parse_host_selector ::
    "ustring list \<Rightarrow> nat \<Rightarrow> BlockSelector \<times> ustring list \<times> OpenSshDiagnostic list" where
  "parse_host_selector vs line =
     (if vs = [] then
        (HostBlock [] True, [],
         [diagnostic InvalidSyntax (Some line) (Some (U ''Host'')) ''Host requires at least one pattern'' True])
      else (case host_patterns line vs of (ps, found, ds, ambiguous) \<Rightarrow> (HostBlock ps ambiguous, found, ds)))"

section \<open>Endpoints and routes\<close>

definition parse_literal_port :: "ustring \<Rightarrow> string + u16" where
  "parse_literal_port v =
     (case parse_u16 v of
        Some p \<Rightarrow> if p \<noteq> 0 then Inr p else Inl ''Port must be between 1 and 65535''
      | None \<Rightarrow> Inl ''Port must be between 1 and 65535'')"

definition parse_host_port :: "ustring \<Rightarrow> bool \<Rightarrow> string + (ustring \<times> u16)" where
  "parse_host_port v require_port =
     bind_result
       (case strip_prefix 91 v of
          Some after_open \<Rightarrow>
            (case split_once 93 after_open of
               None \<Rightarrow> Inl ''Bracketed endpoint is missing a closing bracket''
             | Some (address, remainder) \<Rightarrow>
                 if remainder = [] \<and> \<not> require_port then Inr (address, 22)
                 else (case strip_prefix 58 remainder of
                         None \<Rightarrow> Inl ''Bracketed endpoint has invalid trailing syntax''
                       | Some port \<Rightarrow> bind_result (parse_literal_port port) (\<lambda>p. Inr (address, p))))
        | None \<Rightarrow>
            (case rsplit_once 58 v of
               Some (address, port) \<Rightarrow>
                 if 58 \<notin> set address then bind_result (parse_literal_port port) (\<lambda>p. Inr (address, p))
                 else Inl ''IPv6 endpoints must use brackets''
             | None \<Rightarrow> if require_port then Inl ''Endpoint requires an explicit port'' else Inr (v, 22)))
       (\<lambda>(address, port). if address = [] then Inl ''Endpoint address is empty'' else Inr (address, port))"

definition preview_of :: "Endpoint \<Rightarrow> OpenSshEndpointPreview" where
  "preview_of e = \<lparr>preview_address = normalized_address e, preview_port = endpoint_port e\<rparr>"

definition parse_jump_hop :: "ustring \<Rightarrow> string + OpenSshJumpHopPreview" where
  "parse_jump_hop v =
     (if contains_dangerous_expansion v \<or> list_ex (\<lambda>c. c \<in> {42, 63, 33, 44}) v then
        Inl ''ProxyJump hop must be literal and cannot contain patterns or expansions''
      else bind_result
        (case rsplit_once 64 v of
           Some (u, e) \<Rightarrow>
             if \<not> is_valid_user u \<or> 64 \<in> set u then Inl ''ProxyJump user is not a safe literal username''
             else Inr (Some u, e)
         | None \<Rightarrow> Inr (None, v))
        (\<lambda>(u, e). bind_result (parse_host_port e False) (\<lambda>(address, port).
           case Endpoint_parse address port of
             Inl _ \<Rightarrow> Inl ''ProxyJump endpoint is not a supported literal endpoint''
           | Inr ep \<Rightarrow> Inr \<lparr>hop_endpoint = preview_of ep, hop_user = u\<rparr>)))"

definition parse_proxy_jump :: "ustring \<Rightarrow> string + OpenSshJumpHopPreview list" where
  "parse_proxy_jump v =
     (if eq_ignore_ascii_case v (U ''none'') then Inl ''ProxyJump none is not a literal jump hop''
      else (let parts = split_char 44 v in
        if parts = [] \<or> length parts > MAX_JUMP_HOPS \<or> list_ex (\<lambda>p. p = []) parts then
          Inl ''ProxyJump must contain between one and five literal hops''
        else collect_results parse_jump_hop parts))"

definition parse_proxy_command ::
    "ustring list \<Rightarrow> (OpenSshDiagnosticCode \<times> string) + OpenSshRoutePreview" where
  "parse_proxy_command vs =
     (if length vs = 1 \<and> eq_ignore_ascii_case (vs ! 0) (U ''none'') then Inr DirectRoute
      else if list_ex contains_shell_token vs then
        Inl (DangerousToken, ''ProxyCommand contains shell or command-substitution syntax'')
      else if length vs \<noteq> 7 \<or> vs ! 0 \<noteq> U ''/usr/bin/nc'' \<or> vs ! 1 \<noteq> U ''-X'' \<or> vs ! 3 \<noteq> U ''-x'' \<or>
              vs ! 5 \<noteq> U ''%h'' \<or> vs ! 6 \<noteq> U ''%p'' then
        Inl (UnsupportedProxyCommand, ''Only the strict /usr/bin/nc proxy form is safely importable'')
      else
        (case parse_host_port (vs ! 4) True of
           Inl _ \<Rightarrow> Inl (UnsupportedProxyCommand, ''ProxyCommand proxy endpoint must be a literal HOST:PORT'')
         | Inr (address, port) \<Rightarrow>
             (case Endpoint_parse address port of
                Inl _ \<Rightarrow> Inl (UnsupportedProxyCommand, ''ProxyCommand proxy endpoint is invalid'')
              | Inr e \<Rightarrow>
                  if eq_ignore_ascii_case (vs ! 2) (U ''connect'') then Inr (HttpConnectRoute (preview_of e))
                  else if vs ! 2 = U ''5'' then Inr (Socks5Route (preview_of e))
                  else Inl (UnsupportedProxyCommand, ''nc proxy mode must be connect or 5''))))"

text \<open>
  The \<open>parse_*\<close> functions of a candidate push a diagnostic on failure: they give the value and the
  diagnostics they add.
\<close>

definition parse_route ::
    "(RouteSource \<times> nat) option \<Rightarrow> OpenSshRoutePreview \<times> OpenSshDiagnostic list" where
  "parse_route r =
     (case r of
        None \<Rightarrow> (DirectRoute, [])
      | Some (ProxyJump v, line) \<Rightarrow>
          (case parse_proxy_jump v of
             Inr hops \<Rightarrow> (JumpChain hops, [])
           | Inl msg \<Rightarrow>
               (DirectRoute, [diagnostic InvalidProxyJump (Some line) (Some (U ''ProxyJump'')) msg True]))
      | Some (ProxyCommand vs, line) \<Rightarrow>
          (case parse_proxy_command vs of
             Inr rt \<Rightarrow> (rt, [])
           | Inl (c, msg) \<Rightarrow>
               (DirectRoute, [diagnostic c (Some line) (Some (U ''ProxyCommand'')) msg True])))"

definition parse_user :: "(ustring \<times> nat) option \<Rightarrow> ustring option \<times> OpenSshDiagnostic list" where
  "parse_user u =
     (case u of
        None \<Rightarrow> (None, [])
      | Some (v, line) \<Rightarrow>
          if is_valid_user v then (Some v, [])
          else (None, [diagnostic InvalidUser (Some line) (Some (U ''User''))
                  ''User must be a bounded literal ASCII username'' True]))"

definition parse_port :: "(ustring \<times> nat) option \<Rightarrow> u16 option \<times> OpenSshDiagnostic list" where
  "parse_port p =
     (case p of
        None \<Rightarrow> (Some 22, [])
      | Some (v, line) \<Rightarrow>
          (let bad = (None, [diagnostic InvalidPortCode (Some line) (Some (U ''Port''))
                        ''Port must be an integer between 1 and 65535'' True]) in
           case parse_u16 v of
             Some port \<Rightarrow> if port \<noteq> 0 then (Some port, []) else bad
           | None \<Rightarrow> bad))"

fun expand_hostname :: "ustring \<Rightarrow> ustring \<Rightarrow> ustring option" where
  "expand_hostname a [] = Some []"
| "expand_hostname a (c # cs) =
     (if c \<noteq> 37 then map_option ((#) c) (expand_hostname a cs)
      else (case cs of
              [] \<Rightarrow> None
            | t # cs' \<Rightarrow>
                if t = 37 then map_option ((#) 37) (expand_hostname a cs')
                else if t = 104 then map_option ((@) a) (expand_hostname a cs')
                else None))"

definition parse_hostname ::
    "ustring \<Rightarrow> (ustring \<times> nat) option \<Rightarrow> ustring option \<times> OpenSshDiagnostic list" where
  "parse_hostname a h =
     (case h of
        None \<Rightarrow> (Some a, [])
      | Some (v, line) \<Rightarrow>
          (case expand_hostname a v of
             Some s \<Rightarrow> (Some s, [])
           | None \<Rightarrow>
               (None, [diagnostic InvalidHostName (Some line) (Some (U ''HostName''))
                  ''HostName only permits the %% and %h tokens'' True])))"

section \<open>Candidates\<close>

record cand_state =
  st_diagnostics :: "OpenSshDiagnostic list"
  st_hostname :: "(ustring \<times> nat) option"
  st_user :: "(ustring \<times> nat) option"
  st_port :: "(ustring \<times> nat) option"
  st_route :: "(RouteSource \<times> nat) option"
  st_hints :: "ustring list"
  hostname_seen :: bool
  user_seen :: bool
  port_seen :: bool
  route_seen :: bool

definition add_diag :: "OpenSshDiagnostic \<Rightarrow> cand_state \<Rightarrow> cand_state" where
  "add_diag d st = st\<lparr>st_diagnostics := st_diagnostics st @ [d]\<rparr>"

definition identity_step :: "ustring \<Rightarrow> nat \<Rightarrow> cand_state \<Rightarrow> cand_state" where
  "identity_step v line st =
     (if eq_ignore_ascii_case v (U ''none'') then st\<lparr>st_hints := []\<rparr>
      else if length (st_hints st) = MAX_IDENTITY_FILE_HINTS then
        (if list_ex (\<lambda>d. code d = TooManyIdentityFiles) (st_diagnostics st) then st
         else add_diag (diagnostic TooManyIdentityFiles (Some line) (Some (U ''IdentityFile''))
                ''IdentityFile hint limit exceeded'' True) st)
      else if is_valid_identity_hint v then st\<lparr>st_hints := st_hints st @ [v]\<rparr>
      else add_diag (diagnostic InvalidIdentityFile (Some line) (Some (U ''IdentityFile''))
             ''IdentityFile hint is empty, oversized, or contains unsafe syntax'' True) st)"

definition blocking_step :: "OpenSshDiagnostic \<Rightarrow> DirectiveSlot \<Rightarrow> cand_state \<Rightarrow> cand_state" where
  "blocking_step d slot st =
     (case slot of
        Always \<Rightarrow> add_diag d st
      | IdentityFileSlot \<Rightarrow> add_diag d st
      | HostNameSlot \<Rightarrow> if \<not> hostname_seen st then add_diag d (st\<lparr>hostname_seen := True\<rparr>) else st
      | UserSlot \<Rightarrow> if \<not> user_seen st then add_diag d (st\<lparr>user_seen := True\<rparr>) else st
      | PortSlot \<Rightarrow> if \<not> port_seen st then add_diag d (st\<lparr>port_seen := True\<rparr>) else st
      | RouteSlot \<Rightarrow> if \<not> route_seen st then add_diag d (st\<lparr>route_seen := True\<rparr>) else st)"

definition directive_step :: "ParsedDirective \<Rightarrow> cand_state \<Rightarrow> cand_state" where
  "directive_step d st =
     (case d of
        HostName v line \<Rightarrow>
          if \<not> hostname_seen st then st\<lparr>hostname_seen := True, st_hostname := Some (v, line)\<rparr> else st
      | User v line \<Rightarrow> if \<not> user_seen st then st\<lparr>user_seen := True, st_user := Some (v, line)\<rparr> else st
      | Port v line \<Rightarrow> if \<not> port_seen st then st\<lparr>port_seen := True, st_port := Some (v, line)\<rparr> else st
      | IdentityFile v line \<Rightarrow> identity_step v line st
      | RouteDirective r line \<Rightarrow>
          if \<not> route_seen st then st\<lparr>route_seen := True, st_route := Some (r, line)\<rparr> else st
      | Blocking g slot \<Rightarrow> blocking_step g slot st
      | Ignored \<Rightarrow> st)"

definition block_step :: "ustring \<Rightarrow> ConfigBlock \<Rightarrow> cand_state \<Rightarrow> cand_state" where
  "block_step a b st =
     (if selector_matches (selector b) a
      then fold directive_step (directives b) (st\<lparr>st_diagnostics := st_diagnostics st @ block_diagnostics b\<rparr>)
      else st)"

definition initial_state :: "OpenSshDiagnostic list \<Rightarrow> cand_state" where
  "initial_state ds =
     \<lparr>st_diagnostics = ds, st_hostname = None, st_user = None, st_port = None, st_route = None, st_hints = [],
      hostname_seen = False, user_seen = False, port_seen = False, route_seen = False\<rparr>"

definition endpoint_step ::
    "(ustring \<times> nat) option \<Rightarrow> ustring option \<Rightarrow> u16 option \<Rightarrow>
     OpenSshEndpointPreview option \<times> OpenSshDiagnostic list" where
  "endpoint_step hostname address port =
     (case (address, port) of
        (Some a, Some p) \<Rightarrow>
          (case Endpoint_parse a p of
             Inr e \<Rightarrow> (Some (preview_of e), [])
           | Inl _ \<Rightarrow>
               (None, [diagnostic InvalidHostName (map_option snd hostname) (Some (U ''HostName''))
                  ''HostName is not a supported IPv4, IPv6, or ASCII DNS address'' True]))
      | _ \<Rightarrow> (None, []))"

definition finish_candidate :: "ustring \<Rightarrow> cand_state \<Rightarrow> OpenSshHostCandidate" where
  "finish_candidate a st =
     (case parse_port (st_port st) of (port, d1) \<Rightarrow>
      case parse_hostname a (st_hostname st) of (address, d2) \<Rightarrow>
      case endpoint_step (st_hostname st) address port of (endpoint, d3) \<Rightarrow>
      case parse_user (st_user st) of (user, d4) \<Rightarrow>
      case parse_route (st_route st) of (route, d5) \<Rightarrow>
        let ds = st_diagnostics st @ d1 @ d2 @ d3 @ d4 @ d5 in
        \<lparr>host_alias = a, cand_endpoint = endpoint, cand_user = user, identity_file_hints = st_hints st,
         cand_route = route, cand_diagnostics = ds,
         importable = (endpoint \<noteq> None \<and> list_all (\<lambda>d. \<not> blocking d) ds)\<rparr>)"

definition build_candidate :: "ustring \<Rightarrow> ConfigBlock list \<Rightarrow> OpenSshDiagnostic list \<Rightarrow> OpenSshHostCandidate" where
  "build_candidate a blocks ds = finish_candidate a (fold (block_step a) blocks (initial_state ds))"

section \<open>The document\<close>

record scan_state =
  sc_blocks :: "ConfigBlock list"
  sc_current :: ConfigBlock
  aliases :: "ustring list"
  seen_aliases :: "ustring list"
  sc_diagnostics :: "OpenSshDiagnostic list"
  candidate_limit_reported :: bool

fun add_aliases :: "nat \<Rightarrow> ustring list \<Rightarrow> scan_state \<Rightarrow> scan_state" where
  "add_aliases line [] st = st"
| "add_aliases line (a # as) st =
     add_aliases line as
       (let key = to_ascii_lowercase a in
        if key \<in> set (seen_aliases st) then st
        else if length (aliases st) = MAX_CANDIDATES then
          (if \<not> candidate_limit_reported st
           then st\<lparr>sc_diagnostics := sc_diagnostics st @
                     [diagnostic TooManyCandidates (Some line) (Some (U ''Host''))
                        ''OpenSSH config exceeds the literal Host candidate limit'' True],
                   candidate_limit_reported := True\<rparr>
           else st)
        else st\<lparr>seen_aliases := key # seen_aliases st, aliases := aliases st @ [a]\<rparr>)"

definition add_document_diag :: "OpenSshDiagnosticCode \<Rightarrow> nat \<Rightarrow> string \<Rightarrow> scan_state \<Rightarrow> scan_state" where
  "add_document_diag c line msg st = st\<lparr>sc_diagnostics := sc_diagnostics st @ [diagnostic c (Some line) None msg True]\<rparr>"

definition scan_parsed :: "nat \<Rightarrow> ParsedLine \<Rightarrow> scan_state \<Rightarrow> scan_state" where
  "scan_parsed line parsed st =
     (if eq_ignore_ascii_case (keyword parsed) (U ''host'') then
        (case parse_host_selector (line_values parsed) line of (sel, found, ds) \<Rightarrow>
           add_aliases line found
             (st\<lparr>sc_blocks := sc_blocks st @ [sc_current st],
                 sc_current := \<lparr>selector = sel, directives = [], block_diagnostics = ds\<rparr>\<rparr>))
      else if eq_ignore_ascii_case (keyword parsed) (U ''match'') then
        (let c = (if list_ex (\<lambda>v. eq_ignore_ascii_case v (U ''exec'')) (line_values parsed)
                  then DangerousToken else MatchUnsupported) in
         st\<lparr>sc_blocks := sc_blocks st @ [sc_current st],
            sc_current := \<lparr>selector = MatchBlock, directives = [],
              block_diagnostics = [diagnostic c (Some line) (Some (U ''Match''))
                ''Match blocks are not evaluated by the safe import preview'' True]\<rparr>\<rparr>)
      else st\<lparr>sc_current := (sc_current st)\<lparr>directives := directives (sc_current st) @ [parse_directive parsed line]\<rparr>\<rparr>)"

definition scan_line :: "nat \<Rightarrow> ustring \<Rightarrow> scan_state \<Rightarrow> scan_state" where
  "scan_line line raw st =
     (if str_len raw > MAX_LINE_BYTES then
        add_document_diag LineTooLong line ''OpenSSH config line exceeds the preview line-length limit'' st
      else (case parse_line raw of
              Inr None \<Rightarrow> st
            | Inr (Some parsed) \<Rightarrow> scan_parsed line parsed st
            | Inl msg \<Rightarrow>
                st\<lparr>sc_current := (sc_current st)\<lparr>block_diagnostics := block_diagnostics (sc_current st) @
                     [diagnostic InvalidSyntax (Some line) None msg True]\<rparr>\<rparr>))"

fun scan_lines :: "nat \<Rightarrow> ustring list \<Rightarrow> scan_state \<Rightarrow> scan_state" where
  "scan_lines index [] st = st"
| "scan_lines index (raw # rest) st =
     (if index \<ge> MAX_CONFIG_LINES
      then add_document_diag TooManyLines (index + 1) ''OpenSSH config exceeds the preview line limit'' st
      else scan_lines (index + 1) rest (scan_line (index + 1) raw st))"

definition initial_scan :: scan_state where
  "initial_scan =
     \<lparr>sc_blocks = [], sc_current = global, aliases = [], seen_aliases = [], sc_diagnostics = [],
      candidate_limit_reported = False\<rparr>"

definition parse_openssh_config_preview :: "ustring \<Rightarrow> OpenSshConfigPreview" where
  "parse_openssh_config_preview input =
     (if str_len input > MAX_CONFIG_BYTES then
        \<lparr>candidates = [],
         diagnostics = [diagnostic InputTooLarge None None ''OpenSSH config exceeds the preview byte limit'' True]\<rparr>
      else
        (let st = scan_lines 0 (lines input) initial_scan;
             blocks = sc_blocks st @ [sc_current st];
             ds = sc_diagnostics st @
                  (if aliases st = []
                   then [diagnostic NoLiteralHostCandidates None (Some (U ''Host''))
                           ''No literal Host aliases were found'' False]
                   else []) in
         \<lparr>candidates = map (\<lambda>a. build_candidate a blocks ds) (aliases st), diagnostics = ds\<rparr>))"

section \<open>Patterns\<close>

definition piece_matches :: "u8 \<Rightarrow> u8 list \<Rightarrow> bool" where
  "piece_matches b piece \<longleftrightarrow>
     b = 42 \<or> (\<exists>v. piece = [v] \<and> (b = 63 \<or> byte_lower b = byte_lower v))"

definition glob_spec :: "u8 list \<Rightarrow> u8 list \<Rightarrow> bool" where
  "glob_spec bs v \<longleftrightarrow> (\<exists>pieces. list_all2 piece_matches bs pieces \<and> concat pieces = v)"

definition row_ok :: "u8 list \<Rightarrow> u8 list \<Rightarrow> bool list \<Rightarrow> bool" where
  "row_ok bs v row \<longleftrightarrow> length row = length v + 1 \<and> (\<forall>i \<le> length v. row ! i = glob_spec bs (take i v))"

lemma glob_spec_Nil: "glob_spec [] v \<longleftrightarrow> v = []"
  by (auto simp: glob_spec_def)

lemma glob_spec_snoc:
  "glob_spec (bs @ [b]) v \<longleftrightarrow> (\<exists>x y. v = x @ y \<and> glob_spec bs x \<and> piece_matches b y)"
proof
  assume "glob_spec (bs @ [b]) v"
  then obtain ps where ps: "list_all2 piece_matches (bs @ [b]) ps" "concat ps = v"
    by (auto simp: glob_spec_def)
  from ps(1) obtain us y where "ps = us @ [y]" "list_all2 piece_matches bs us" "piece_matches b y"
    by (auto simp: list_all2_append1 list_all2_Cons1)
  with ps(2) show "\<exists>x y. v = x @ y \<and> glob_spec bs x \<and> piece_matches b y"
    by (auto simp: glob_spec_def)
next
  assume "\<exists>x y. v = x @ y \<and> glob_spec bs x \<and> piece_matches b y"
  then obtain us y where "v = concat us @ y" "list_all2 piece_matches bs us" "piece_matches b y"
    by (auto simp: glob_spec_def)
  then show "glob_spec (bs @ [b]) v"
    unfolding glob_spec_def by (intro exI [of _ "us @ [y]"]) (simp add: list_all2_appendI)
qed

lemma prefix_of_take: "i \<le> length v \<Longrightarrow> take i v = x @ y \<longleftrightarrow> (\<exists>j \<le> i. x = take j v \<and> y = drop j (take i v))"
proof
  assume "i \<le> length v" "take i v = x @ y"
  then have "length x \<le> i" "x = take (length x) v" "y = drop (length x) (take i v)"
    by (metis append_eq_conv_conj le_add1 length_append length_take min.absorb2, metis append_eq_conv_conj append_take_drop_id append.assoc, metis append_eq_conv_conj)
  then show "\<exists>j \<le> i. x = take j v \<and> y = drop j (take i v)" by blast
next
  assume "\<exists>j \<le> i. x = take j v \<and> y = drop j (take i v)"
  then show "take i v = x @ y" by (metis append_take_drop_id min.absorb1 take_take)
qed

lemma glob_spec_star:
  "i \<le> length v \<Longrightarrow> glob_spec (bs @ [42]) (take i v) \<longleftrightarrow> (\<exists>j \<le> i. glob_spec bs (take j v))"
  by (auto simp: glob_spec_snoc prefix_of_take piece_matches_def)

lemma glob_spec_byte_0: "b \<noteq> 42 \<Longrightarrow> \<not> glob_spec (bs @ [b]) []"
  by (auto simp: glob_spec_snoc piece_matches_def)

lemma glob_spec_byte:
  assumes "b \<noteq> 42" "i < length v"
  shows "glob_spec (bs @ [b]) (take (Suc i) v) \<longleftrightarrow>
         glob_spec bs (take i v) \<and> (b = 63 \<or> byte_lower b = byte_lower (v ! i))"
  using assms by (auto simp: glob_spec_snoc piece_matches_def take_Suc_conv_app_nth)

lemma star_row_length [simp]: "length (star_row l ps) = length ps"
  by (induction ps arbitrary: l) auto

lemma star_row_nth: "i < length ps \<Longrightarrow> star_row l ps ! i \<longleftrightarrow> l \<or> (\<exists>j \<le> i. ps ! j)"
proof (induction ps arbitrary: l i)
  case Nil then show ?case by simp
next
  case (Cons p ps)
  show ?case
  proof (cases i)
    case 0 then show ?thesis by auto
  next
    case (Suc k)
    have "(\<exists>j \<le> Suc k. (p # ps) ! j) \<longleftrightarrow> p \<or> (\<exists>j \<le> k. ps ! j)"
      by (metis Suc_le_mono bot_nat_0.extremum nth_Cons_0 nth_Cons_Suc not0_implies_Suc)
    with Suc Cons show ?thesis by auto
  qed
qed

lemma row_ok_start: "row_ok [] v (True # replicate (length v) False)"
  by (auto simp: row_ok_def glob_spec_Nil nth_Cons split: nat.split)

lemma row_ok_star: "row_ok bs v row \<Longrightarrow> row_ok (bs @ [42]) v (star_row False row)"
  by (auto simp: row_ok_def star_row_nth glob_spec_star)

lemma row_ok_byte:
  assumes "row_ok bs v row" "b \<noteq> 42"
  shows "row_ok (bs @ [b]) v (byte_row b v row)"
proof -
  have "byte_row b v row ! i = glob_spec (bs @ [b]) (take i v)" if "i \<le> length v" for i
    using that assms by (cases i) (auto simp: row_ok_def byte_row_def glob_spec_byte glob_spec_byte_0)
  then show ?thesis using assms(1) by (simp add: row_ok_def byte_row_def)
qed

lemma row_ok_rows: "row_ok as v row \<Longrightarrow> row_ok (as @ bs) v (glob_rows bs v row)"
proof (induction bs arbitrary: as row)
  case Nil then show ?case by simp
next
  case (Cons b bs)
  then have "row_ok (as @ [b]) v (if b = 42 then star_row False row else byte_row b v row)"
    by (simp add: row_ok_star row_ok_byte)
  from Cons.IH [OF this] show ?case by simp
qed

text \<open>
  (C11) \<open>glob_matches\<close> fills its table row by row; it answers exactly whether the bytes of the alias
  can be cut into one piece per byte of the pattern, any piece for \<open>*\<close>, one byte for \<open>?\<close>, and one
  byte equal up to ASCII case for every other byte.
\<close>

theorem glob_table_correct: "glob_matches p v \<longleftrightarrow> glob_spec (as_bytes p) (as_bytes v)"
proof -
  have ok: "row_ok (as_bytes p) (as_bytes v)
      (glob_rows (as_bytes p) (as_bytes v) (True # replicate (length (as_bytes v)) False))"
    (is "row_ok _ _ ?r")
    using row_ok_rows [OF row_ok_start, of "as_bytes p" "as_bytes v"] by simp
  then have "?r \<noteq> []" "length ?r - 1 = length (as_bytes v)" by (auto simp: row_ok_def)
  then have "last ?r = ?r ! length (as_bytes v)" by (simp add: last_conv_nth)
  also have "\<dots> = glob_spec (as_bytes p) (as_bytes v)" using ok by (simp add: row_ok_def)
  finally show ?thesis by (simp add: glob_matches_def)
qed

section \<open>Tokens\<close>

definition escape_char :: "uchar \<Rightarrow> ustring" where
  "escape_char c = (if c = 34 \<or> c = 92 then [92, c] else [c])"

definition quote_value :: "ustring \<Rightarrow> ustring" where
  "quote_value v = [34] @ concat (map escape_char v) @ [34]"

definition bare_char :: "uchar \<Rightarrow> bool" where
  "bare_char c \<longleftrightarrow> \<not> is_whitespace c \<and> c \<notin> {34, 35, 39, 61, 92}"

definition config_line :: "ustring \<Rightarrow> ustring list \<Rightarrow> ustring" where
  "config_line k vs = k @ concat (map (\<lambda>v. 32 # quote_value v) vs)"

lemma tokenize_escaped:
  "tokenize_loop (concat (map escape_char v) @ 34 # rest) ts t b (Some 34) =
   tokenize_loop rest ts (t @ v) (b \<or> v \<noteq> []) None"
proof (induction v arbitrary: t b)
  case Nil then show ?case by (simp add: tokenize_loop.simps(2))
next
  case (Cons c v)
  then show ?case by (simp add: escape_char_def tokenize_loop.simps(2) [of _ _ ts])
qed

lemma tokenize_quoted:
  "tokenize_loop (quote_value v @ rest) ts [] False None = tokenize_loop rest ts v True None"
  by (simp add: quote_value_def tokenize_loop.simps(2) [of 34] tokenize_escaped)

lemma tokenize_space:
  "tokenize_loop (32 # rest) ts t True None = tokenize_loop rest (ts @ [t]) [] False None"
  by (simp add: tokenize_loop.simps(2) is_whitespace_def)

lemma tokenize_values:
  "tokenize_loop (concat (map (\<lambda>v. 32 # quote_value v) vs)) ts t True None = Inr (ts @ [t] @ vs)"
  by (induction vs arbitrary: ts t) (simp_all add: tokenize_space tokenize_quoted)

lemma tokenize_bare:
  "list_all bare_char k \<Longrightarrow> tokenize_loop (k @ rest) ts t b None = tokenize_loop rest ts (t @ k) (b \<or> k \<noteq> []) None"
proof (induction k arbitrary: t b)
  case Nil then show ?case by simp
next
  case (Cons c k)
  then show ?case by (simp add: bare_char_def tokenize_loop.simps(2) [of _ _ ts])
qed

lemma tokenize_config_line:
  "k \<noteq> [] \<Longrightarrow> list_all bare_char k \<Longrightarrow> tokenize (config_line k vs) = Inr (k # vs)"
  by (simp add: tokenize_def config_line_def tokenize_bare tokenize_values)

lemma split_once_absent: "c \<notin> set s \<Longrightarrow> split_once c s = None"
  by (induction s) auto

text \<open>
  (C35) A directive written as its keyword followed by double-quoted values, with quotes and
  backslashes escaped, reads back as that keyword and exactly those values, whatever characters the
  values hold; the one value that does not survive in first position is a lone equals sign, which is
  taken for the optional separator.
\<close>

theorem config_line_roundtrip:
  assumes "k \<noteq> []" "list_all bare_char k"
  shows "parse_line (config_line k vs) =
         Inr (Some \<lparr>keyword = k, line_values = (if vs \<noteq> [] \<and> hd vs = [61] then tl vs else vs)\<rparr>)"
proof -
  have "61 \<notin> set k" using assms(2) by (auto simp: list_all_iff bare_char_def)
  then have "split_once 61 k = None" by (rule split_once_absent)
  with tokenize_config_line [OF assms, of vs] show ?thesis
    by (simp add: parse_line_def bind_result_def split: list.split)
qed

theorem config_line_roundtrip_witness:
  "parse_line (config_line (U ''IdentityFile'') [U ''/keys/my \"prod\" # key'']) =
   Inr (Some \<lparr>keyword = U ''IdentityFile'', line_values = [U ''/keys/my \"prod\" # key'']\<rparr>)"
proof -
  have "U ''IdentityFile'' \<noteq> []" "list_all bare_char (U ''IdentityFile'')"
    "hd [U ''/keys/my \"prod\" # key''] \<noteq> [61]" by code_simp+
  with config_line_roundtrip [of "U ''IdentityFile''" "[U ''/keys/my \"prod\" # key'']"]
  show ?thesis by simp
qed

section \<open>Candidates\<close>

fun slot_of :: "ParsedDirective \<Rightarrow> DirectiveSlot" where
  "slot_of (HostName v l) = HostNameSlot"
| "slot_of (User v l) = UserSlot"
| "slot_of (Port v l) = PortSlot"
| "slot_of (IdentityFile v l) = IdentityFileSlot"
| "slot_of (RouteDirective r l) = RouteSlot"
| "slot_of (Blocking g s) = s"
| "slot_of Ignored = Always"

definition effective :: "ustring \<Rightarrow> ConfigBlock list \<Rightarrow> ParsedDirective list" where
  "effective a blocks = concat (map directives (filter (\<lambda>b. selector_matches (selector b) a) blocks))"

definition first_in :: "DirectiveSlot \<Rightarrow> (ParsedDirective \<Rightarrow> 'v option) \<Rightarrow> ParsedDirective list \<Rightarrow> 'v option" where
  "first_in slot value ds = Option.bind (find (\<lambda>d. slot_of d = slot) ds) value"

fun hostname_value :: "ParsedDirective \<Rightarrow> (ustring \<times> nat) option" where
  "hostname_value (HostName v l) = Some (v, l)"
| "hostname_value _ = None"

fun user_value :: "ParsedDirective \<Rightarrow> (ustring \<times> nat) option" where
  "user_value (User v l) = Some (v, l)"
| "user_value _ = None"

fun port_value :: "ParsedDirective \<Rightarrow> (ustring \<times> nat) option" where
  "port_value (Port v l) = Some (v, l)"
| "port_value _ = None"

fun route_value :: "ParsedDirective \<Rightarrow> (RouteSource \<times> nat) option" where
  "route_value (RouteDirective r l) = Some (r, l)"
| "route_value _ = None"

fun identity_value :: "ParsedDirective \<Rightarrow> ustring option" where
  "identity_value (IdentityFile v l) = Some v"
| "identity_value _ = None"

text \<open>The values of \<open>IdentityFile\<close> after the last \<open>none\<close>.\<close>

definition live_hints :: "ParsedDirective list \<Rightarrow> ustring list" where
  "live_hints ds =
     rev (takeWhile (\<lambda>v. \<not> eq_ignore_ascii_case v (U ''none'')) (rev (List.map_filter identity_value ds)))"

definition same_slots :: "cand_state \<Rightarrow> cand_state \<Rightarrow> bool" where
  "same_slots s t \<longleftrightarrow> s\<lparr>st_diagnostics := []\<rparr> = t\<lparr>st_diagnostics := []\<rparr>"

lemmas step_defs = directive_step_def identity_step_def blocking_step_def add_diag_def

lemma same_slots_refl [simp]: "same_slots s s"
  by (simp add: same_slots_def)

lemma same_slots_diagnostics [simp]: "same_slots (s\<lparr>st_diagnostics := ds\<rparr>) t = same_slots s t"
  by (simp add: same_slots_def)

lemma same_slots_step: "same_slots s t \<Longrightarrow> same_slots (directive_step d s) (directive_step d t)"
  by (cases s; cases t; cases d)
     (auto simp: same_slots_def step_defs split: DirectiveSlot.splits)

lemma same_slots_fold: "same_slots s t \<Longrightarrow> same_slots (fold directive_step ds s) (fold directive_step ds t)"
  by (induction ds arbitrary: s t) (simp_all add: same_slots_step)

lemma same_slots_blocks:
  "same_slots s t \<Longrightarrow> same_slots (fold (block_step a) bs s) (fold directive_step (effective a bs) t)"
proof (induction bs arbitrary: s t)
  case Nil then show ?case by (simp add: effective_def)
next
  case (Cons b bs)
  have "same_slots (block_step a b s)
      (if selector_matches (selector b) a then fold directive_step (directives b) t else t)"
    using Cons.prems by (simp add: block_step_def same_slots_fold)
  from Cons.IH [OF this] show ?case by (simp add: effective_def split: if_split_asm)
qed

lemma same_slots_fields:
  assumes "same_slots s t"
  shows "st_hostname s = st_hostname t" "st_user s = st_user t" "st_port s = st_port t"
    "st_route s = st_route t" "st_hints s = st_hints t"
  using assms by (cases s; cases t; simp add: same_slots_def)+

text \<open>Each slot keeps what the first directive of the slot gave.\<close>

lemma first_in_Cons: "first_in s f (d # ds) = (if slot_of d = s then f d else first_in s f ds)"
  by (simp add: first_in_def)


lemma hostname_fold:
  "st_hostname st = None \<or> hostname_seen st \<Longrightarrow>
   st_hostname (fold directive_step ds st) =
   (if hostname_seen st then st_hostname st else first_in HostNameSlot hostname_value ds)"
proof (induction ds arbitrary: st)
  case Nil then show ?case by (auto simp: first_in_def)
next
  case (Cons d ds)
  show ?case using Cons by (cases d) (auto simp: step_defs first_in_Cons split: DirectiveSlot.split)
qed

lemma user_fold:
  "st_user st = None \<or> user_seen st \<Longrightarrow>
   st_user (fold directive_step ds st) =
   (if user_seen st then st_user st else first_in UserSlot user_value ds)"
proof (induction ds arbitrary: st)
  case Nil then show ?case by (auto simp: first_in_def)
next
  case (Cons d ds)
  show ?case using Cons by (cases d) (auto simp: step_defs first_in_Cons split: DirectiveSlot.split)
qed

lemma port_fold:
  "st_port st = None \<or> port_seen st \<Longrightarrow>
   st_port (fold directive_step ds st) =
   (if port_seen st then st_port st else first_in PortSlot port_value ds)"
proof (induction ds arbitrary: st)
  case Nil then show ?case by (auto simp: first_in_def)
next
  case (Cons d ds)
  show ?case using Cons by (cases d) (auto simp: step_defs first_in_Cons split: DirectiveSlot.split)
qed

lemma route_fold:
  "st_route st = None \<or> route_seen st \<Longrightarrow>
   st_route (fold directive_step ds st) =
   (if route_seen st then st_route st else first_in RouteSlot route_value ds)"
proof (induction ds arbitrary: st)
  case Nil then show ?case by (auto simp: first_in_def)
next
  case (Cons d ds)
  show ?case using Cons by (cases d) (auto simp: step_defs first_in_Cons split: DirectiveSlot.split)
qed

lemma live_hints_snoc:
  "live_hints (ds @ [d]) =
   (case identity_value d of
      None \<Rightarrow> live_hints ds
    | Some v \<Rightarrow> if eq_ignore_ascii_case v (U ''none'') then [] else live_hints ds @ [v])"
  by (simp add: live_hints_def List.map_filter_def split: option.split)

lemma hints_fold:
  assumes "st_hints st = []"
  shows "st_hints (fold directive_step ds st) =
         take MAX_IDENTITY_FILE_HINTS (filter is_valid_identity_hint (live_hints ds))"
proof (induction ds rule: rev_induct)
  case Nil then show ?case using assms by (simp add: live_hints_def List.map_filter_def)
next
  case (snoc d ds)
  show ?case
  proof (cases "\<exists>v l. d = IdentityFile v l")
    case True
    then obtain v l where d: "d = IdentityFile v l" by blast
    show ?thesis using snoc
      by (auto simp: d directive_step_def identity_step_def add_diag_def live_hints_snoc min_def)
  next
    case False
    then have "identity_value d = None" by (cases d) auto
    then show ?thesis using snoc False
      by (cases d) (auto simp: step_defs live_hints_snoc split: DirectiveSlot.split)
  qed
qed

lemma initial_state_fields [simp]:
  "st_hostname (initial_state ds) = None" "st_user (initial_state ds) = None" "st_port (initial_state ds) = None"
  "st_route (initial_state ds) = None" "st_hints (initial_state ds) = []" "\<not> hostname_seen (initial_state ds)"
  "\<not> user_seen (initial_state ds)" "\<not> port_seen (initial_state ds)" "\<not> route_seen (initial_state ds)"
  "st_diagnostics (initial_state ds) = ds"
  by (simp_all add: initial_state_def)

text \<open>
  (C20) OpenSSH's rule that the first value wins: the host name, user, port and route of a candidate
  are those of the first directive for that slot in the blocks that apply to the alias, in document
  order, and a first directive that was refused leaves the slot empty, later ones ignored. The
  identity hints are the acceptable values after the last \<open>none\<close>, at most 64.
\<close>

theorem first_value_wins:
  "let ds = effective a blocks;
       c = build_candidate a blocks doc;
       hostname = first_in HostNameSlot hostname_value ds in
     host_alias c = a \<and>
     cand_endpoint c =
       fst (endpoint_step hostname (fst (parse_hostname a hostname))
              (fst (parse_port (first_in PortSlot port_value ds)))) \<and>
     cand_user c = fst (parse_user (first_in UserSlot user_value ds)) \<and>
     cand_route c = fst (parse_route (first_in RouteSlot route_value ds)) \<and>
     identity_file_hints c = take MAX_IDENTITY_FILE_HINTS (filter is_valid_identity_hint (live_hints ds))"
proof -
  let ?ds = "effective a blocks" and ?st = "fold (block_step a) blocks (initial_state doc)"
  have same: "same_slots ?st (fold directive_step ?ds (initial_state doc))" by (rule same_slots_blocks) simp
  have "st_hostname ?st = first_in HostNameSlot hostname_value ?ds"
    "st_user ?st = first_in UserSlot user_value ?ds"
    "st_port ?st = first_in PortSlot port_value ?ds"
    "st_route ?st = first_in RouteSlot route_value ?ds"
    "st_hints ?st = take MAX_IDENTITY_FILE_HINTS (filter is_valid_identity_hint (live_hints ?ds))"
    by (simp_all add: same_slots_fields [OF same] hostname_fold user_fold port_fold route_fold hints_fold)
  then show ?thesis
    by (simp add: build_candidate_def finish_candidate_def Let_def split_beta)
qed

section \<open>Well-formed previews\<close>

definition endpoint_wf :: "OpenSshEndpointPreview \<Rightarrow> bool" where
  "endpoint_wf e \<longleftrightarrow> preview_port e \<noteq> 0 \<and> normalize_host_address (preview_address e) = Inr (preview_address e)"

definition hop_wf :: "OpenSshJumpHopPreview \<Rightarrow> bool" where
  "hop_wf h \<longleftrightarrow> endpoint_wf (hop_endpoint h) \<and> pred_option (\<lambda>u. is_valid_user u \<and> 64 \<notin> set u) (hop_user h)"

fun route_wf :: "OpenSshRoutePreview \<Rightarrow> bool" where
  "route_wf DirectRoute \<longleftrightarrow> True"
| "route_wf (JumpChain hops) \<longleftrightarrow> hops \<noteq> [] \<and> length hops \<le> MAX_JUMP_HOPS \<and> list_all hop_wf hops"
| "route_wf (HttpConnectRoute e) \<longleftrightarrow> endpoint_wf e"
| "route_wf (Socks5Route e) \<longleftrightarrow> endpoint_wf e"

definition candidate_wf :: "OpenSshHostCandidate \<Rightarrow> bool" where
  "candidate_wf c \<longleftrightarrow>
     is_valid_alias (host_alias c) \<and> pred_option endpoint_wf (cand_endpoint c) \<and>
     pred_option is_valid_user (cand_user c) \<and>
     length (identity_file_hints c) \<le> MAX_IDENTITY_FILE_HINTS \<and>
     list_all is_valid_identity_hint (identity_file_hints c) \<and> route_wf (cand_route c) \<and>
     (importable c \<longleftrightarrow> cand_endpoint c \<noteq> None \<and> list_all (\<lambda>d. \<not> blocking d) (cand_diagnostics c))"

lemma Endpoint_parse_wf: "Endpoint_parse a p = Inr e \<Longrightarrow> endpoint_wf (preview_of e)"
  by (auto simp: Endpoint_parse_def endpoint_wf_def preview_of_def bind_result_def
      dest: normalized_address_plain(3) split: if_splits sum.splits)

lemma parse_jump_hop_wf: "parse_jump_hop v = Inr h \<Longrightarrow> hop_wf h"
  by (auto simp: parse_jump_hop_def hop_wf_def bind_result_def dest: Endpoint_parse_wf
      split: if_splits sum.splits option.splits prod.splits)

lemma parse_proxy_jump_wf: "parse_proxy_jump v = Inr hops \<Longrightarrow> route_wf (JumpChain hops)"
proof -
  assume ok: "parse_proxy_jump v = Inr hops"
  then have parts: "split_char 44 v \<noteq> []" "length (split_char 44 v) \<le> MAX_JUMP_HOPS"
    "collect_results parse_jump_hop (split_char 44 v) = Inr hops"
    by (auto simp: parse_proxy_jump_def Let_def split: if_splits)
  from collect_results_ok [OF parts(3)]
  have l: "length hops = length (split_char 44 v)" "list_all hop_wf hops"
    by (auto simp: list_all2_conv_all_nth list_all_length dest: parse_jump_hop_wf)
  then show ?thesis using parts by auto
qed

lemma parse_proxy_command_wf: "parse_proxy_command vs = Inr r \<Longrightarrow> route_wf r"
  by (auto simp: parse_proxy_command_def dest: Endpoint_parse_wf split: if_splits sum.splits prod.splits)

lemma parse_route_wf: "route_wf (fst (parse_route r))"
  by (auto simp: parse_route_def dest: parse_proxy_jump_wf parse_proxy_command_wf simp del: route_wf.simps(2)
      split: option.split prod.split RouteSource.split sum.split)

lemma parse_user_wf: "pred_option is_valid_user (fst (parse_user u))"
  by (auto simp: parse_user_def split: option.split)

lemma endpoint_step_wf: "pred_option endpoint_wf (fst (endpoint_step h a p))"
  by (auto simp: endpoint_step_def dest: Endpoint_parse_wf split: option.split sum.split)

lemma build_candidate_wf: "is_valid_alias a \<Longrightarrow> candidate_wf (build_candidate a blocks doc)"
proof -
  assume a: "is_valid_alias a"
  let ?st = "fold (block_step a) blocks (initial_state doc)"
  have "same_slots ?st (fold directive_step (effective a blocks) (initial_state doc))"
    by (rule same_slots_blocks) simp
  from same_slots_fields(5) [OF this]
  have "length (st_hints ?st) \<le> MAX_IDENTITY_FILE_HINTS" "list_all is_valid_identity_hint (st_hints ?st)"
    by (auto simp: hints_fold list_all_iff dest: in_set_takeD)
  then show ?thesis using a
    by (simp add: build_candidate_def finish_candidate_def candidate_wf_def Let_def split_beta
        parse_route_wf parse_user_wf endpoint_step_wf)
qed

definition aliases_wf :: "scan_state \<Rightarrow> bool" where
  "aliases_wf st \<longleftrightarrow>
     length (aliases st) \<le> MAX_CANDIDATES \<and> distinct (map to_ascii_lowercase (aliases st)) \<and>
     set (seen_aliases st) = set (map to_ascii_lowercase (aliases st)) \<and> list_all is_valid_alias (aliases st)"

lemma host_patterns_valid: "list_all is_valid_alias (fst (snd (host_patterns line vs)))"
  by (induction vs) (auto simp: split_beta)

lemma add_aliases_wf: "list_all is_valid_alias as \<Longrightarrow> aliases_wf st \<Longrightarrow> aliases_wf (add_aliases line as st)"
  by (induction as arbitrary: st) (auto simp: aliases_wf_def Let_def)

lemma scan_parsed_wf: "aliases_wf st \<Longrightarrow> aliases_wf (scan_parsed line p st)"
  using host_patterns_valid [of line "line_values p"]
  by (auto simp: scan_parsed_def parse_host_selector_def Let_def split_beta intro!: add_aliases_wf)
     (auto simp: aliases_wf_def)

lemma document_diag_wf [simp]: "aliases_wf (add_document_diag c n m st) = aliases_wf st"
  by (simp add: aliases_wf_def add_document_diag_def)

lemma scan_line_wf: "aliases_wf st \<Longrightarrow> aliases_wf (scan_line line raw st)"
  by (auto simp: scan_line_def scan_parsed_wf split: sum.split option.split) (auto simp: aliases_wf_def)

lemma scan_lines_wf: "aliases_wf st \<Longrightarrow> aliases_wf (scan_lines n ls st)"
  by (induction ls arbitrary: n st) (auto simp: scan_line_wf)

lemma build_candidate_alias [simp]: "host_alias (build_candidate a blocks doc) = a"
  by (simp add: build_candidate_def finish_candidate_def Let_def split_beta)

text \<open>
  (C19) Every preview is well formed, whatever the text: at most 512 candidates, no two of them with
  the same alias up to case, and every candidate has a safe ASCII alias, an endpoint in normal form
  with a port other than 0, a literal user, at most 64 acceptable identity hints, a route of one to five
  normalised hops or one normalised proxy, and is importable exactly when it has an endpoint and no blocking
  diagnostic.
\<close>

theorem preview_well_formed:
  "length (candidates (parse_openssh_config_preview input)) \<le> MAX_CANDIDATES \<and>
   distinct (map (\<lambda>c. to_ascii_lowercase (host_alias c)) (candidates (parse_openssh_config_preview input))) \<and>
   list_all candidate_wf (candidates (parse_openssh_config_preview input))"
proof -
  have "aliases_wf initial_scan" by (simp add: aliases_wf_def initial_scan_def)
  then have "aliases_wf (scan_lines 0 (lines input) initial_scan)" by (rule scan_lines_wf)
  then show ?thesis
    by (auto simp: parse_openssh_config_preview_def Let_def aliases_wf_def comp_def list_all_iff
        intro: build_candidate_wf)
qed

section \<open>Unsupported lines\<close>

fun supported :: "ParsedDirective \<Rightarrow> bool" where
  "supported (Blocking g s) \<longleftrightarrow> \<not> (blocking g \<and> (s = Always \<or> s = IdentityFileSlot))"
| "supported _ \<longleftrightarrow> True"





definition grows :: "ConfigBlock \<Rightarrow> ConfigBlock \<Rightarrow> bool" where
  "grows b b' \<longleftrightarrow>
     selector b' = selector b \<and> set (block_diagnostics b) \<subseteq> set (block_diagnostics b') \<and>
     set (directives b) \<subseteq> set (directives b')"











lemma grows_refl [simp]: "grows b b"
  by (simp add: grows_def)



lemma add_aliases_fields [simp]:
  "sc_blocks (add_aliases n as st) = sc_blocks st" "sc_current (add_aliases n as st) = sc_current st"
  by (induction as arbitrary: st) (auto simp: Let_def)






















end
