(* ===== verification/LifecycleGate.thy ===== *)
theory LifecycleGate
  imports RustStr
begin

text \<open>
  The lifecycle gate of the application, \<open>src-tauri/src/lifecycle.rs\<close>: resource creators take
  permits from a gate, and an exit or update cleanup closes the gate, waits for the permits to be
  returned, and then either authorises the exit or opens the gate again. Every atomic operation of
  the source is one step of a thread, so any number of creators, cleanups and exits interleave
  freely. \<open>Notify\<close> belongs to tokio: what \<open>notified\<close>, \<open>notify_waiters\<close> and awaiting do is an
  argument of the model.
\<close>

section \<open>The gate\<close>

definition LIFECYCLE_IDLE :: u8 where "LIFECYCLE_IDLE = 0"
definition LIFECYCLE_CLEANING :: u8 where "LIFECYCLE_CLEANING = 1"
definition LIFECYCLE_AUTHORIZED :: u8 where "LIFECYCLE_AUTHORIZED = 2"

record 'n LifecycleGateInner =
  phase :: u8
  active_resource_creators :: u64
  creators_drained :: 'n

definition initial_gate :: "'n \<Rightarrow> 'n LifecycleGateInner" where
  "initial_gate n = \<lparr>phase = LIFECYCLE_IDLE, active_resource_creators = 0, creators_drained = n\<rparr>"

text \<open>
  What a task does next. A creator runs \<open>acquire_resource_creation\<close> and, if it was granted a permit,
  drops it later; the flag of the release says whether it was. A cleanup runs \<open>begin_cleanup\<close> and,
  once it owns the fence, cancels it or authorises the exit. An unattended exit authorises alone.
\<close>

datatype 'f task =
    AcquireCall | AcquireChecked | AcquireCounted | Permit
  | Release bool | NotifyDrained bool | Ended bool
  | CleanupCall | CleanupLoop | CleanupCheck 'f | CleanupWait 'f | CleanupOwner
  | CleanupRejected | CleanupOver
  | AuthorizeCall | Authorized

type_synonym ('n, 'f) outcome = "'n LifecycleGateInner \<times> 'f task"

definition authorize_exit :: "'n LifecycleGateInner \<Rightarrow> 'n LifecycleGateInner" where
  "authorize_exit g = g\<lparr>phase := LIFECYCLE_AUTHORIZED\<rparr>"

definition is_exit_authorized :: "'n LifecycleGateInner \<Rightarrow> bool" where
  "is_exit_authorized g \<longleftrightarrow> phase g = LIFECYCLE_AUTHORIZED"

definition cancel_cleanup :: "'n LifecycleGateInner \<Rightarrow> 'n LifecycleGateInner" where
  "cancel_cleanup g = (if phase g = LIFECYCLE_CLEANING then g\<lparr>phase := LIFECYCLE_IDLE\<rparr> else g)"

text \<open>The three atomic steps of \<open>acquire_resource_creation\<close>; a refusal after counting releases.\<close>

fun acquire_resource_creation :: "'n LifecycleGateInner \<Rightarrow> 'f task \<Rightarrow> ('n, 'f) outcome list" where
  "acquire_resource_creation g AcquireCall =
     [(g, if phase g \<noteq> LIFECYCLE_IDLE then Ended False else AcquireChecked)]"
| "acquire_resource_creation g AcquireChecked =
     [(g\<lparr>active_resource_creators := active_resource_creators g + 1\<rparr>, AcquireCounted)]"
| "acquire_resource_creation g AcquireCounted =
     [(g, if phase g \<noteq> LIFECYCLE_IDLE then Release False else Permit)]"
| "acquire_resource_creation g _ = []"

text \<open>Dropping the permit, and the same two steps where \<open>acquire_resource_creation\<close> backs out.\<close>

fun release_creator :: "('n \<Rightarrow> 'n) \<Rightarrow> 'n LifecycleGateInner \<Rightarrow> 'f task \<Rightarrow> ('n, 'f) outcome list" where
  "release_creator notify_waiters g Permit = [(g, Release True)]"
| "release_creator notify_waiters g (Release b) =
     [(g\<lparr>active_resource_creators := active_resource_creators g - 1\<rparr>,
       if active_resource_creators g = 1 then NotifyDrained b else Ended b)]"
| "release_creator notify_waiters g (NotifyDrained b) =
     [(g\<lparr>creators_drained := notify_waiters (creators_drained g)\<rparr>, Ended b)]"
| "release_creator notify_waiters g _ = []"

fun begin_cleanup ::
    "('n \<Rightarrow> 'f) \<Rightarrow> ('n \<Rightarrow> 'f \<Rightarrow> bool) \<Rightarrow> 'n LifecycleGateInner \<Rightarrow> 'f task \<Rightarrow> ('n, 'f) outcome list" where
  "begin_cleanup notified completed g CleanupCall =
     [if phase g = LIFECYCLE_IDLE then (g\<lparr>phase := LIFECYCLE_CLEANING\<rparr>, CleanupLoop) else (g, CleanupRejected)]"
| "begin_cleanup notified completed g CleanupLoop = [(g, CleanupCheck (notified (creators_drained g)))]"
| "begin_cleanup notified completed g (CleanupCheck f) =
     [(g, if active_resource_creators g = 0 then CleanupOwner else CleanupWait f)]"
| "begin_cleanup notified completed g (CleanupWait f) =
     (if completed (creators_drained g) f then [(g, CleanupLoop)] else [])"
| "begin_cleanup notified completed g _ = []"

fun end_cleanup :: "'n LifecycleGateInner \<Rightarrow> 'f task \<Rightarrow> ('n, 'f) outcome list" where
  "end_cleanup g CleanupOwner = [(cancel_cleanup g, CleanupOver), (authorize_exit g, CleanupOver)]"
| "end_cleanup g AuthorizeCall = [(authorize_exit g, Authorized)]"
| "end_cleanup g _ = []"

definition task_steps ::
    "('n \<Rightarrow> 'f) \<Rightarrow> ('n \<Rightarrow> 'n) \<Rightarrow> ('n \<Rightarrow> 'f \<Rightarrow> bool) \<Rightarrow> 'n LifecycleGateInner \<Rightarrow> 'f task \<Rightarrow>
     ('n, 'f) outcome list" where
  "task_steps notified notify_waiters completed g t =
     acquire_resource_creation g t @ release_creator notify_waiters g t @
     begin_cleanup notified completed g t @ end_cleanup g t"

inductive gate_step ::
    "('n \<Rightarrow> 'f) \<Rightarrow> ('n \<Rightarrow> 'n) \<Rightarrow> ('n \<Rightarrow> 'f \<Rightarrow> bool) \<Rightarrow>
     'n LifecycleGateInner \<times> 'f task list \<Rightarrow> 'n LifecycleGateInner \<times> 'f task list \<Rightarrow> bool"
  for notified notify_waiters completed where
  task: "(g', t') \<in> set (task_steps notified notify_waiters completed g t) \<Longrightarrow>
    gate_step notified notify_waiters completed (g, l @ t # r) (g', l @ t' # r)"

inductive gate_reach ::
    "('n \<Rightarrow> 'f) \<Rightarrow> ('n \<Rightarrow> 'n) \<Rightarrow> ('n \<Rightarrow> 'f \<Rightarrow> bool) \<Rightarrow> 'n \<Rightarrow> 'f task list \<Rightarrow>
     'n LifecycleGateInner \<times> 'f task list \<Rightarrow> bool"
  for notified notify_waiters completed n ts where
  start: "gate_reach notified notify_waiters completed n ts (initial_gate n, ts)"
| step: "gate_reach notified notify_waiters completed n ts s \<Longrightarrow>
    gate_step notified notify_waiters completed s s' \<Longrightarrow>
    gate_reach notified notify_waiters completed n ts s'"

definition call :: "'f task \<Rightarrow> bool" where
  "call t \<longleftrightarrow> t \<in> {AcquireCall, CleanupCall, AuthorizeCall}"

definition finished :: "'f task \<Rightarrow> bool" where
  "finished t \<longleftrightarrow> t \<in> {Ended True, Ended False, CleanupRejected, CleanupOver, Authorized}"


section \<open>The fence\<close>


fun counted :: "'f task \<Rightarrow> bool" where
  "counted AcquireCounted \<longleftrightarrow> True"
| "counted Permit \<longleftrightarrow> True"
| "counted (Release b) \<longleftrightarrow> True"
| "counted _ \<longleftrightarrow> False"

fun fenced :: "'f task \<Rightarrow> bool" where
  "fenced CleanupLoop \<longleftrightarrow> True"
| "fenced (CleanupCheck f) \<longleftrightarrow> True"
| "fenced (CleanupWait f) \<longleftrightarrow> True"
| "fenced CleanupOwner \<longleftrightarrow> True"
| "fenced _ \<longleftrightarrow> False"

definition creators :: "'f task list \<Rightarrow> nat" where
  "creators ts = length (filter counted ts)"

definition cleanups :: "'f task list \<Rightarrow> nat" where
  "cleanups ts = length (filter fenced ts)"

definition fence_inv :: "'n LifecycleGateInner \<times> 'f task list \<Rightarrow> bool" where
  "fence_inv s \<longleftrightarrow>
     (case s of (g, ts) \<Rightarrow>
        length ts < 2 ^ 64 \<and> unat (active_resource_creators g) = creators ts \<and> cleanups ts \<le> 1 \<and>
        (0 < cleanups ts \<longrightarrow> phase g \<noteq> LIFECYCLE_IDLE) \<and>
        (CleanupOwner \<in> set ts \<longrightarrow> Permit \<notin> set ts))"

lemma creators_split [simp]: "creators (l @ t # r) = creators (l @ r) + (if counted t then 1 else 0)"
  by (simp add: creators_def)

lemma cleanups_split [simp]: "cleanups (l @ t # r) = cleanups (l @ r) + (if fenced t then 1 else 0)"
  by (simp add: cleanups_def)

lemma creators_bound: "creators ts \<le> length ts"
  by (simp add: creators_def)

lemma creators_0: "creators ts = 0 \<Longrightarrow> Permit \<notin> set ts"
  by (auto simp: creators_def filter_empty_conv)

lemma cleanups_0: "cleanups ts = 0 \<Longrightarrow> CleanupOwner \<notin> set ts"
  by (auto simp: cleanups_def filter_empty_conv)

lemma unat_add_1: "unat (w :: u64) + 1 < 2 ^ 64 \<Longrightarrow> unat (w + 1) = unat w + 1"
  by (simp add: unat_word_ariths)

lemma unat_sub_1: "0 < unat (w :: u64) \<Longrightarrow> unat (w - 1) = unat w - 1"
  by (rule unat_minus_one) auto

lemma u64_eq_1: "(w :: u64) = 1 \<longleftrightarrow> unat w = 1"
  by (metis unat_1 word_unat_eq_iff)

lemma u64_eq_0: "(w :: u64) = 0 \<longleftrightarrow> unat w = 0"
  by (simp add: unat_eq_zero)

lemmas phases = LIFECYCLE_IDLE_def LIFECYCLE_CLEANING_def LIFECYCLE_AUTHORIZED_def

lemma fence_inv_step:
  assumes inv: "fence_inv (g, l @ t # r)"
    and step: "(g', t') \<in> set (task_steps notified notify_waiters completed g t)"
  shows "fence_inv (g', l @ t' # r)"
proof -
  have bound: "creators (l @ r) < 2 ^ 64 - 1"
    using inv creators_bound [of "l @ r"] by (simp add: fence_inv_def)
  show ?thesis
    using inv step bound creators_0 [of "l @ r"] cleanups_0 [of "l @ r"]
    by (cases t)
       (auto simp: fence_inv_def task_steps_def cancel_cleanup_def authorize_exit_def phases unat_add_1 unat_sub_1
         split: if_splits)
qed

lemma fence_inv_start: "list_all call ts \<Longrightarrow> length ts < 2 ^ 64 \<Longrightarrow> fence_inv (initial_gate n, ts)"
  by (induction ts) (auto simp: fence_inv_def initial_gate_def creators_def cleanups_def call_def)

lemma fence_inv_reach:
  assumes "list_all call ts" "length ts < 2 ^ 64" "gate_reach notified notify_waiters completed n ts s"
  shows "fence_inv s"
  using assms(3)
proof induction
  case start then show ?case by (rule fence_inv_start [OF assms(1,2)])
next
  case (step s s')
  from step.hyps(2) step.IH show ?case by cases (auto intro: fence_inv_step)
qed





section \<open>No lost wake-up\<close>

definition wakes :: "('n \<Rightarrow> 'f) \<Rightarrow> ('n \<Rightarrow> 'n) \<Rightarrow> ('n \<Rightarrow> 'f \<Rightarrow> bool) \<Rightarrow> bool" where
  "wakes notified notify_waiters completed \<longleftrightarrow>
     (\<forall>n k. completed ((notify_waiters ^^ k) n) (notified n) \<longleftrightarrow> 0 < k)"

definition drain_pending :: "'f task list \<Rightarrow> bool" where
  "drain_pending ts \<longleftrightarrow> 0 < creators ts \<or> (\<exists>b. NotifyDrained b \<in> set ts)"

text \<open>\<open>f\<close> was created \<open>k\<close> notifications before the state \<open>d\<close>.\<close>

definition since :: "('n \<Rightarrow> 'f) \<Rightarrow> ('n \<Rightarrow> 'n) \<Rightarrow> 'n \<Rightarrow> 'f \<Rightarrow> nat \<Rightarrow> bool" where
  "since notified notify_waiters d f k \<longleftrightarrow> (\<exists>n. f = notified n \<and> d = (notify_waiters ^^ k) n)"

fun waiting_ok :: "('f \<Rightarrow> nat \<Rightarrow> bool) \<Rightarrow> bool \<Rightarrow> 'f task \<Rightarrow> bool" where
  "waiting_ok age pending (CleanupCheck f) \<longleftrightarrow> (\<exists>k. age f k)"
| "waiting_ok age pending (CleanupWait f) \<longleftrightarrow> (\<exists>k. age f k \<and> (0 < k \<or> pending))"
| "waiting_ok age pending _ \<longleftrightarrow> True"

definition wake_inv :: "('n \<Rightarrow> 'f) \<Rightarrow> ('n \<Rightarrow> 'n) \<Rightarrow> 'n LifecycleGateInner \<times> 'f task list \<Rightarrow> bool" where
  "wake_inv notified notify_waiters s \<longleftrightarrow>
     (case s of (g, ts) \<Rightarrow>
        \<forall>t \<in> set ts. waiting_ok (since notified notify_waiters (creators_drained g)) (drain_pending ts) t)"

lemma since_fresh: "since notified notify_waiters d (notified d) 0"
  unfolding since_def by (intro exI [of _ d]) simp

lemma since_next: "since notified notify_waiters d f k \<Longrightarrow> since notified notify_waiters (notify_waiters d) f (Suc k)"
  unfolding since_def by auto

lemma waiting_ok_next:
  "waiting_ok (since notified notify_waiters d) p t \<Longrightarrow> waiting_ok (since notified notify_waiters (notify_waiters d)) q t"
  by (cases t) (auto dest: since_next)

lemma waiting_ok_mono: "waiting_ok age p t \<Longrightarrow> (p \<Longrightarrow> q) \<Longrightarrow> waiting_ok age q t"
  by (cases t) auto

lemma drain_kept:
  assumes "fence_inv (g, l @ t # r)" "(g', t') \<in> set (task_steps notified notify_waiters completed g t)"
    "\<forall>b. t \<noteq> NotifyDrained b" "drain_pending (l @ t # r)"
  shows "drain_pending (l @ t' # r)"
  using assms by (cases t) (auto simp: task_steps_def drain_pending_def fence_inv_def u64_eq_1 split: if_splits)

lemma wake_inv_step:
  assumes fence: "fence_inv (g, l @ t # r)" and inv: "wake_inv notified notify_waiters (g, l @ t # r)"
    and step: "(g', t') \<in> set (task_steps notified notify_waiters completed g t)"
  shows "wake_inv notified notify_waiters (g', l @ t' # r)"
proof (cases "\<exists>b. t = NotifyDrained b")
  case True
  have ok: "\<forall>u \<in> set (l @ r). waiting_ok (since notified notify_waiters (creators_drained g)) (drain_pending (l @ t # r)) u"
    using inv by (simp add: wake_inv_def)
  from True step show ?thesis using ok [THEN bspec, THEN waiting_ok_next]
    by (auto simp: task_steps_def wake_inv_def)
next
  case False
  let ?age = "since notified notify_waiters (creators_drained g)"
  have same: "creators_drained g' = creators_drained g"
    using step False by (cases t) (auto simp: task_steps_def cancel_cleanup_def authorize_exit_def split: if_splits)
  note drain = drain_kept [OF fence step]
  have others: "\<forall>u \<in> set (l @ r). waiting_ok ?age (drain_pending (l @ t' # r)) u"
    using inv drain False by (auto simp: wake_inv_def intro: waiting_ok_mono)
  have "waiting_ok ?age (drain_pending (l @ t # r)) t" using inv by (simp add: wake_inv_def)
  then have "waiting_ok ?age (drain_pending (l @ t' # r)) t'"
    using step fence since_fresh [of notified notify_waiters "creators_drained g"]
    by (cases t) (auto simp: task_steps_def drain_pending_def fence_inv_def u64_eq_0 split: if_splits)
  then show ?thesis using others by (simp add: wake_inv_def same)
qed

lemma waiting_ok_call: "call t \<Longrightarrow> waiting_ok age p t"
  by (auto simp: call_def)

lemma wake_inv_reach:
  assumes "list_all call ts" "length ts < 2 ^ 64" "gate_reach notified notify_waiters completed n ts s"
  shows "wake_inv notified notify_waiters s"
  using assms(3)
proof induction
  case start
  show ?case using assms(1) by (auto simp: wake_inv_def list_all_iff waiting_ok_call)
next
  case (step s s')
  from step.hyps(2) step.IH fence_inv_reach [OF assms(1,2) step.hyps(1)]
  show ?case by cases (auto intro: wake_inv_step)
qed

section \<open>Every run ends\<close>

fun task_work :: "'f task \<Rightarrow> nat" where
  "task_work AcquireCall = 6"
| "task_work AcquireChecked = 5"
| "task_work AcquireCounted = 4"
| "task_work Permit = 3"
| "task_work (Release b) = 2"
| "task_work (NotifyDrained b) = 1"
| "task_work AuthorizeCall = 1"
| "task_work _ = 0"

fun cleanup_work :: "('f \<Rightarrow> bool) \<Rightarrow> 'f task \<Rightarrow> nat" where
  "cleanup_work ready CleanupCall = 7"
| "cleanup_work ready (CleanupCheck f) = (if ready f then 6 else 3)"
| "cleanup_work ready (CleanupWait f) = (if ready f then 5 else 2)"
| "cleanup_work ready CleanupLoop = 4"
| "cleanup_work ready CleanupOwner = 1"
| "cleanup_work ready _ = 0"

definition run_measure ::
    "('n \<Rightarrow> 'f \<Rightarrow> bool) \<Rightarrow> (('n LifecycleGateInner \<times> 'f task list) \<times> ('n LifecycleGateInner \<times> 'f task list)) set" where
  "run_measure completed =
     measures [\<lambda>(g, ts). sum_list (map task_work ts),
               \<lambda>(g, ts). sum_list (map (cleanup_work (completed (creators_drained g))) ts)]"

lemma run_decreases:
  assumes wakes: "wakes notified notify_waiters completed" and "gate_step notified notify_waiters completed s s'"
  shows "(s', s) \<in> run_measure completed"
  using assms(2)
proof cases
  case (task g' t' g t l r)
  have fresh: "\<not> completed d (notified d)" for d
    using wakes [unfolded wakes_def, rule_format, where n = d and k = 0] by simp
  show ?thesis using task(3) unfolding task(1,2)
    by (cases t)
       (auto simp: run_measure_def task_steps_def cancel_cleanup_def authorize_exit_def fresh split: if_splits)
qed

lemma stuck_finished:
  assumes wakes: "wakes notified notify_waiters completed"
    and calls: "list_all call ts" "length ts < 2 ^ 64"
    and reach: "gate_reach notified notify_waiters completed n ts (g, us)"
    and stuck: "\<not> (\<exists>s'. gate_step notified notify_waiters completed (g, us) s')"
  shows "list_all finished us"
proof -
  have no_step: "task_steps notified notify_waiters completed g t = []" if mem: "t \<in> set us" for t
  proof (rule ccontr)
    assume "task_steps notified notify_waiters completed g t \<noteq> []"
    then obtain g' t' where "(g', t') \<in> set (task_steps notified notify_waiters completed g t)"
      by (metis list.set_intros(1) neq_Nil_conv surj_pair)
    moreover obtain l r where "us = l @ t # r" using split_list [OF mem] by blast
    ultimately show False using stuck gate_step.task by blast
  qed
  have rest: "finished t \<or> (\<exists>f. t = CleanupWait f)" if "t \<in> set us" for t
    using no_step [OF that] by (cases t) (auto simp: task_steps_def finished_def split: if_splits)
  have "\<not> counted t \<and> (\<forall>b. t \<noteq> NotifyDrained b)" if "t \<in> set us" for t
    using rest [OF that] by (auto simp: finished_def)
  then have quiet: "\<not> drain_pending us" by (auto simp: drain_pending_def creators_def)
  have "t \<noteq> CleanupWait f" if "t \<in> set us" for t f
  proof
    assume t: "t = CleanupWait f"
    with that wake_inv_reach [OF calls reach] quiet obtain m k
      where "f = notified m" "creators_drained g = (notify_waiters ^^ k) m" "0 < k"
      by (fastforce simp: wake_inv_def since_def)
    then have "completed (creators_drained g) f" using wakes by (simp add: wakes_def)
    then show False using no_step [OF that] by (simp add: t task_steps_def)
  qed
  then show ?thesis using rest by (auto simp: list_all_iff)
qed

text \<open>
  (C8) No wake-up is lost and every run ends. Assuming of \<open>Notify\<close> only that a \<open>notified\<close> future completes
  exactly when \<open>notify_waiters\<close> was called after it was created, no interleaving of the tasks goes on for
  ever, and one that cannot go on has finished every task: each \<open>begin_cleanup\<close> has returned, even where a
  permit was dropped between its check of the counter and its wait.
\<close>

theorem cleanup_always_returns:
  assumes "wakes notified notify_waiters completed" "list_all call ts" "length ts < 2 ^ 64"
  shows "wfp (\<lambda>s' s. gate_step notified notify_waiters completed s s') \<and>
    (\<forall>g us. gate_reach notified notify_waiters completed n ts (g, us) \<longrightarrow>
       (\<exists>s'. gate_step notified notify_waiters completed (g, us) s') \<or> list_all finished us)"
proof
  have "wf (run_measure completed)" by (simp add: run_measure_def)
  then show "wfp (\<lambda>s' s. gate_step notified notify_waiters completed s s')"
    unfolding wfp_def by (rule wf_subset) (auto intro: run_decreases [OF assms(1)])
  show "\<forall>g us. gate_reach notified notify_waiters completed n ts (g, us) \<longrightarrow>
       (\<exists>s'. gate_step notified notify_waiters completed (g, us) s') \<or> list_all finished us"
    using stuck_finished [OF assms] by blast
qed

lemma counter_wakes: "wakes (\<lambda>n. n) Suc (\<lambda>d f :: nat. f < d)"
proof -
  have "(Suc ^^ k) n = n + k" for k n by (induction k) auto
  then show ?thesis by (simp add: wakes_def)
qed

theorem cleanup_always_returns_witness:
  "wfp (\<lambda>s' s. gate_step (\<lambda>n. n) Suc (\<lambda>d f :: nat. f < d) s s')"
  using cleanup_always_returns [OF counter_wakes, of "[AcquireCall, CleanupCall]"] by (simp add: call_def)

end
