(* ===== verification/LifecycleWeak.thy ===== *)
theory LifecycleWeak
  imports LifecycleGate
begin

text \<open>
  The lifecycle gate with the memory orderings its source names. \<open>phase\<close> and the creator counter are
  accessed with \<open>Acquire\<close> loads, \<open>AcqRel\<close> read-modify-writes and a \<open>Release\<close> store. Each location keeps
  the messages written to it in modification order; a task sees a location from some message on, an
  \<open>Acquire\<close> load may return any message from there on and joins the view the message carries, and a
  read-modify-write reads the last message and appends its own. This is a part of the behaviour the
  language allows, in which writes are never placed in the middle of the order.
\<close>

section \<open>Release and acquire\<close>









section \<open>The tasks\<close>







end
