(* ===== verification/AppExit.thy ===== *)
theory AppExit
  imports LifecycleGate
begin

text \<open>
  Leaving the application: the exit and update handlers of \<open>src-tauri/src/lifecycle.rs\<close> and the vote
  of the tool windows in \<open>src-tauri/src/tool_window_exit.rs\<close>. What the services answer is an argument
  of the handlers; a handler gives its answer and the actions it took, in order.
\<close>

section \<open>Readiness\<close>

datatype ExitBlocker =
    PluginResource ustring ustring ustring
  | DesktopSession ustring
  | SshSession ustring
  | LocalTerminal ustring
  | TelnetSession ustring
  | SftpSession ustring
  | SftpTransfer ustring
  | ForwardSession ustring
  | PluginHost ustring u32

record ExitReadiness =
  can_exit :: bool
  blockers :: "ExitBlocker list"

text \<open>What the services report; \<open>None\<close> where a service is not running.\<close>

record ServiceBlockers =
  ssh_blockers :: "ustring list"
  desktop_blockers :: "ustring list option"
  local_blockers :: "ustring list"
  plugin_blockers :: "ExitBlocker list"
  telnet_blockers :: "ustring list"
  forward_blockers :: "ustring list"
  sftp_session_blockers :: "ustring list"
  sftp_transfer_blockers :: "ustring list"

definition current_exit_readiness ::
    "(ustring \<Rightarrow> ustring option) \<Rightarrow> (ustring \<Rightarrow> ustring option) \<Rightarrow> ServiceBlockers \<Rightarrow> ExitReadiness" where
  "current_exit_readiness parse_telnet_id parse_forward_id s =
     (let bs = map SshSession (ssh_blockers s) @
               (case desktop_blockers s of None \<Rightarrow> [] | Some ds \<Rightarrow> map DesktopSession ds) @
               map LocalTerminal (local_blockers s) @
               plugin_blockers s @
               map TelnetSession (List.map_filter parse_telnet_id (telnet_blockers s)) @
               map ForwardSession (List.map_filter parse_forward_id (forward_blockers s)) @
               map SftpSession (sftp_session_blockers s) @
               map SftpTransfer (sftp_transfer_blockers s) in
      \<lparr>can_exit = (bs = []), blockers = bs\<rparr>)"



section \<open>Shutting the owners down\<close>





section \<open>The handlers\<close>

datatype ExitAction =
    BeginCleanup | CancelCleanup | ShutdownAll | AuthorizeExit | CommitToolExit | DropToolExit
  | KeepToolExit | ExitProcess | ShowMainWindow




definition release_update_allow_relaunch :: "bool \<Rightarrow> bool option \<Rightarrow> (string + unit) \<times> ExitAction list" where
  "release_update_allow_relaunch main_or_page slot =
     (if \<not> main_or_page then (Inl ''unavailable'', [])
      else if slot \<noteq> Some True then (Inl ''unavailable'', [])
      else (Inr (), [AuthorizeExit]))"

definition release_update_cancel_install ::
    "bool \<Rightarrow> bool option \<Rightarrow> (string + unit) \<times> ExitAction list \<times> bool option" where
  "release_update_cancel_install main_or_page slot =
     (if \<not> main_or_page then (Inl ''unavailable'', [], slot)
      else (case slot of
              None \<Rightarrow> (Inl ''unavailable'', [], slot)
            | Some held \<Rightarrow> (Inr (), (if held then [DropToolExit] else []) @ [CancelCleanup], Some False)))"

datatype DesktopWindowCloseBehavior = HideWindow | QuitApplication
datatype MainWindowCloseAction = HideAction | RequestApplicationExit

definition close_action_for_behavior :: "DesktopWindowCloseBehavior \<Rightarrow> MainWindowCloseAction" where
  "close_action_for_behavior b = (case b of HideWindow \<Rightarrow> HideAction | QuitApplication \<Rightarrow> RequestApplicationExit)"

definition main_window_close_action ::
    "ustring \<Rightarrow> bool \<Rightarrow> DesktopWindowCloseBehavior \<Rightarrow> MainWindowCloseAction option" where
  "main_window_close_action label exit_authorized b =
     (if label = U ''main'' \<and> \<not> exit_authorized then Some (close_action_for_behavior b) else None)"

section \<open>The vote of the tool windows\<close>

text \<open>A sender that is still there is \<open>completion\<close>; taking it sends the value.\<close>

record PendingExit =
  attempt_id :: "ustring option"
  exit_windows :: "ustring set"
  completion :: bool

definition no_exit :: PendingExit where
  "no_exit = \<lparr>attempt_id = None, exit_windows = {}, completion = False\<rparr>"

definition is_preparing :: "PendingExit \<Rightarrow> bool" where
  "is_preparing p \<longleftrightarrow> attempt_id p \<noteq> None"

definition send_completion :: "bool \<Rightarrow> PendingExit \<Rightarrow> PendingExit \<times> bool option" where
  "send_completion b p = (if completion p then (p\<lparr>completion := False\<rparr>, Some b) else (p, None))"

definition tool_exit_start :: "ustring \<Rightarrow> ustring set \<Rightarrow> PendingExit \<Rightarrow> (PendingExit \<times> bool option) option" where
  "tool_exit_start fresh_id ws p =
     (if attempt_id p \<noteq> None then None
      else (let q = \<lparr>attempt_id = Some fresh_id, exit_windows = ws, completion = True\<rparr> in
            Some (if ws = {} then send_completion True q else (q, None))))"

definition tool_exit_windows :: "ustring set \<Rightarrow> PendingExit \<Rightarrow> PendingExit \<times> bool option" where
  "tool_exit_windows ws p =
     (let q = p\<lparr>exit_windows := ws, completion := True\<rparr> in if ws = {} then send_completion True q else (q, None))"

definition destroyed :: "ustring \<Rightarrow> PendingExit \<Rightarrow> PendingExit \<times> bool option" where
  "destroyed label p =
     (if label \<in> exit_windows p then
        (let q = p\<lparr>exit_windows := exit_windows p - {label}\<rparr> in
         if exit_windows q = {} then send_completion True q else (q, None))
      else (p, None))"

definition tool_exit_reply ::
    "ustring \<Rightarrow> ustring \<Rightarrow> bool \<Rightarrow> PendingExit \<Rightarrow> string + (PendingExit \<times> bool option)" where
  "tool_exit_reply label attempt approved p =
     (if attempt_id p \<noteq> Some attempt \<or> label \<notin> exit_windows p then Inl ''unavailable''
      else if \<not> approved then Inr (send_completion False p)
      else Inr (p, None))"

definition drop_permit :: "ustring \<Rightarrow> bool \<Rightarrow> PendingExit \<Rightarrow> PendingExit" where
  "drop_permit attempt committed p =
     (if \<not> committed \<and> attempt_id p = Some attempt then no_exit else p)"

datatype ExitEvent = Destroyed ustring | Reply ustring ustring bool

definition exit_event :: "ExitEvent \<Rightarrow> PendingExit \<Rightarrow> PendingExit \<times> bool option" where
  "exit_event e p =
     (case e of
        Destroyed label \<Rightarrow> destroyed label p
      | Reply label attempt approved \<Rightarrow>
          (case tool_exit_reply label attempt approved p of Inl _ \<Rightarrow> (p, None) | Inr r \<Rightarrow> r))"

fun exit_events :: "ExitEvent list \<Rightarrow> PendingExit \<Rightarrow> PendingExit \<times> bool list" where
  "exit_events [] p = (p, [])"
| "exit_events (e # es) p =
     (case exit_event e p of (q, sent) \<Rightarrow>
      case exit_events es q of (r, later) \<Rightarrow> (r, (case sent of None \<Rightarrow> later | Some b \<Rightarrow> b # later)))"

section \<open>Consent\<close>







section \<open>Counting the vote\<close>

definition refused :: "ustring set \<Rightarrow> ustring \<Rightarrow> ExitEvent list \<Rightarrow> bool" where
  "refused ws a es \<longleftrightarrow>
     (\<exists>xs label ys. es = xs @ Reply label a False # ys \<and> label \<in> ws \<and> Destroyed label \<notin> set xs)"

definition voting :: "ustring \<Rightarrow> ustring set \<Rightarrow> PendingExit" where
  "voting a ws = \<lparr>attempt_id = Some a, exit_windows = ws, completion = True\<rparr>"

lemma refused_Nil [simp]: "\<not> refused ws a []"
  by (simp add: refused_def)

lemma refused_empty [simp]: "\<not> refused {} a es"
  by (simp add: refused_def)

lemma refused_Destroyed [simp]: "refused ws a (Destroyed l # es) \<longleftrightarrow> refused (ws - {l}) a es"
proof
  assume "refused ws a (Destroyed l # es)"
  then obtain xs label ys where s: "Destroyed l # es = xs @ Reply label a False # ys" "label \<in> ws" "Destroyed label \<notin> set xs"
    unfolding refused_def by blast
  then obtain zs where "xs = Destroyed l # zs" by (cases xs) auto
  with s show "refused (ws - {l}) a es" unfolding refused_def
    by (intro exI [of _ zs] exI [of _ label] exI [of _ ys]) auto
next
  assume "refused (ws - {l}) a es"
  then obtain xs label ys where s: "es = xs @ Reply label a False # ys" "label \<in> ws - {l}" "Destroyed label \<notin> set xs"
    unfolding refused_def by blast
  then show "refused ws a (Destroyed l # es)" unfolding refused_def
    by (intro exI [of _ "Destroyed l # xs"] exI [of _ label] exI [of _ ys]) auto
qed

lemma refused_Reply [simp]:
  "refused ws a (Reply l b ok # es) \<longleftrightarrow> l \<in> ws \<and> b = a \<and> \<not> ok \<or> refused ws a es"
proof
  assume "refused ws a (Reply l b ok # es)"
  then obtain xs label ys where s: "Reply l b ok # es = xs @ Reply label a False # ys" "label \<in> ws" "Destroyed label \<notin> set xs"
    unfolding refused_def by blast
  show "l \<in> ws \<and> b = a \<and> \<not> ok \<or> refused ws a es"
  proof (cases xs)
    case Nil then show ?thesis using s by auto
  next
    case (Cons x zs)
    then have "refused ws a es" using s unfolding refused_def
      by (intro exI [of _ zs] exI [of _ label] exI [of _ ys]) auto
    then show ?thesis ..
  qed
next
  assume "l \<in> ws \<and> b = a \<and> \<not> ok \<or> refused ws a es"
  then show "refused ws a (Reply l b ok # es)"
  proof
    assume "l \<in> ws \<and> b = a \<and> \<not> ok"
    then show ?thesis unfolding refused_def by (intro exI [of _ "[]"] exI [of _ l] exI [of _ es]) auto
  next
    assume "refused ws a es"
    then obtain xs label ys where "es = xs @ Reply label a False # ys" "label \<in> ws" "Destroyed label \<notin> set xs"
      unfolding refused_def by blast
    then show ?thesis unfolding refused_def
      by (intro exI [of _ "Reply l b ok # xs"] exI [of _ label] exI [of _ ys]) auto
  qed
qed

lemmas vote_defs = exit_event_def destroyed_def tool_exit_reply_def send_completion_def

lemma settled_silent: "\<not> completion p \<Longrightarrow> snd (exit_events es p) = []"
proof (induction es arbitrary: p)
  case (Cons e es)
  then have "snd (exit_event e p) = None" "\<not> completion (fst (exit_event e p))"
    by (auto simp: vote_defs Let_def split: ExitEvent.split)
  with Cons.IH [of "fst (exit_event e p)"] show ?case by (simp add: split_beta)
qed simp

text \<open>
  (C25) The vote of the tool windows is counted right, whatever replies and destructions arrive and in
  whatever order. The waiting exit gets at most one answer. It is a refusal exactly if a window that was
  still open refused this attempt; it is an approval exactly if every window was destroyed and none of
  them had refused, so approving replies alone never end a window's draft, and replies of other windows or of
  an earlier attempt count for nothing.
\<close>

theorem exit_vote_counted:
  assumes "ws \<noteq> {}"
  shows "snd (exit_events es (voting a ws)) =
    (if refused ws a es then [False] else if ws \<subseteq> {l. Destroyed l \<in> set es} then [True] else [])"
  using assms
proof (induction es arbitrary: ws)
  case Nil then show ?case by simp
next
  case (Cons e es)
  show ?case
  proof (cases e)
    case (Destroyed l)
    have sub: "ws \<subseteq> {k. Destroyed k \<in> set (e # es)} \<longleftrightarrow> ws - {l} \<subseteq> {k. Destroyed k \<in> set es}"
      by (auto simp: Destroyed)
    consider "l \<notin> ws" | "ws = {l}" | "l \<in> ws" "ws - {l} \<noteq> {}" by blast
    then show ?thesis
    proof cases
      case 1
      then have "ws - {l} = ws" by blast
      with 1 Cons sub show ?thesis by (simp add: Destroyed vote_defs voting_def)
    next
      case 2
      then show ?thesis using sub by (simp add: Destroyed vote_defs voting_def settled_silent split_beta)
    next
      case 3
      then have "exit_event e (voting a ws) = (voting a (ws - {l}), None)"
        by (simp add: Destroyed vote_defs voting_def Let_def)
      then show ?thesis using Cons.IH [OF 3(2)] sub by (simp add: Destroyed split_beta)
    qed
  next
    case (Reply l b ok)
    have sub: "ws \<subseteq> {k. Destroyed k \<in> set (e # es)} \<longleftrightarrow> ws \<subseteq> {k. Destroyed k \<in> set es}"
      by (auto simp: Reply)
    show ?thesis
    proof (cases "l \<in> ws \<and> b = a \<and> \<not> ok")
      case True
      then show ?thesis by (simp add: Reply vote_defs voting_def settled_silent split_beta)
    next
      case False
      then have "exit_event e (voting a ws) = (voting a ws, None)"
        by (auto simp: Reply vote_defs voting_def)
      then show ?thesis using Cons.IH [OF Cons.prems] sub False by (simp add: Reply split_beta)
    qed
  qed
qed

theorem exit_vote_counted_witness:
  "snd (exit_events [Reply (U ''tool-a'') (U ''1'') True, Destroyed (U ''tool-a''), Reply (U ''tool-a'') (U ''1'') False]
      (voting (U ''1'') {U ''tool-a''})) = [True]"
  using exit_vote_counted [of "{U ''tool-a''}"
      "[Reply (U ''tool-a'') (U ''1'') True, Destroyed (U ''tool-a''), Reply (U ''tool-a'') (U ''1'') False]" "U ''1''"]
  by simp

end
