(* ===== verification/OperationLedger.thy ===== *)
theory OperationLedger
  imports BTree RustStr
begin

text \<open>
  Bounded memories of completed operations: the ledger of SSH control operations,
  \<open>src-tauri/src/ssh_operation_ledger.rs\<close>, and the one of the terminal focus broker,
  \<open>src-tauri/src/terminal_focus_broker.rs\<close>. Both answer a repeated request from memory and refuse
  an operation id that comes back with another content; both forget the oldest operation first. What
  they share is an interface, interpreted on each.
\<close>

section \<open>The interface\<close>

locale operation_log =
  fixes cap :: nat
    and get :: "'s \<Rightarrow> 'k \<Rightarrow> 'e option"
    and put :: "'k \<Rightarrow> 'e \<Rightarrow> 's \<Rightarrow> 's"
    and log :: "'s \<Rightarrow> ('k \<times> 'e) list"
    and invar :: "'s \<Rightarrow> bool"
  assumes get_log: "invar s \<Longrightarrow> get s k = map_of (log s) k"
    and log_distinct: "invar s \<Longrightarrow> distinct (map fst (log s))"
    and log_bounded: "invar s \<Longrightarrow> length (log s) \<le> cap"
    and put_invar: "invar s \<Longrightarrow> get s k = None \<Longrightarrow> invar (put k e s)"
    and put_log: "invar s \<Longrightarrow> get s k = None \<Longrightarrow>
      log (put k e s) = drop (Suc (length (log s)) - cap) (log s @ [(k, e)])"
begin

definition remember :: "'k \<Rightarrow> 'e \<Rightarrow> 's \<Rightarrow> 's" where
  "remember k e s = (if get s k = None then put k e s else s)"

lemma remember_invar: "invar s \<Longrightarrow> invar (remember k e s)"
  by (simp add: remember_def put_invar)

lemma remember_bounded: "invar s \<Longrightarrow> length (log (remember k e s)) \<le> cap"
  by (intro log_bounded remember_invar)

lemma get_split: "invar s \<Longrightarrow> get s k = Some e \<longleftrightarrow> (\<exists>xs ys. log s = xs @ (k, e) # ys)"
  using log_distinct [of s] by (auto simp: get_log split_list dest: map_of_SomeD)

lemma remember_keeps:
  assumes "invar s" "log s = xs @ (k, e) # ys" "Suc (length ys) < cap"
  shows "\<exists>xs' ys'. log (remember k' e' s) = xs' @ (k, e) # ys' \<and> length ys' \<le> Suc (length ys)"
proof (cases "get s k' = None")
  case False
  then show ?thesis using assms(2)
    by (intro exI [of _ xs] exI [of _ ys]) (auto simp: remember_def)
next
  case True
  let ?d = "Suc (length (log s)) - cap"
  have "length (log s) \<le> cap" using assms(1) by (rule log_bounded)
  then have "?d \<le> length xs" using assms(2,3) by simp
  then have "log (remember k' e' s) = drop ?d xs @ (k, e) # (ys @ [(k', e')])"
    using put_log [OF assms(1) True, of e'] True assms(2) by (simp add: remember_def)
  then show ?thesis by fastforce
qed

lemma remember_fold_keeps:
  assumes "invar s" "log s = xs @ (k, e) # ys" "length ys + length kes < cap"
  shows "get (fold (\<lambda>(k, e). remember k e) kes s) k = Some e \<and> invar (fold (\<lambda>(k, e). remember k e) kes s)"
  using assms
proof (induction kes arbitrary: s xs ys)
  case Nil
  then show ?case using get_split by auto
next
  case (Cons ke kes)
  obtain k' e' where ke: "ke = (k', e')" by force
  from remember_keeps [OF Cons.prems(1,2)] Cons.prems(3) obtain xs' ys'
    where "log (remember k' e' s) = xs' @ (k, e) # ys'" "length ys' \<le> Suc (length ys)" by fastforce
  with Cons.IH [OF remember_invar [OF Cons.prems(1)]] Cons.prems(3) show ?case by (simp add: ke)
qed

text \<open>An entry that was just put survives fewer than \<open>cap\<close> further operations.\<close>

lemma put_survives:
  assumes "invar s" "get s k = None" "length kes < cap"
  shows "get (fold (\<lambda>(k, e). remember k e) kes (put k e s)) k = Some e"
proof -
  have "Suc (length (log s)) - cap \<le> length (log s)" using assms(3) by simp
  then have "log (put k e s) = drop (Suc (length (log s)) - cap) (log s) @ (k, e) # []"
    using put_log [OF assms(1,2), of e] by simp
  from remember_fold_keeps [OF put_invar [OF assms(1,2)] this] assms(3) show ?thesis by simp
qed

end

section \<open>The SSH operation ledger\<close>

record ('f, 'o) OperationEntry =
  idempotency_key :: ustring
  fingerprint :: 'f
  entry_outcome :: 'o

record ('f, 'o) SshOperationLedger =
  capacity :: nat
  entries :: "(ustring \<times> ('f, 'o) OperationEntry) list"
  insertion_order :: "ustring list"

datatype 'o SshOperationLookup = Missing | Replay 'o | Conflict

definition ledger_new :: "nat \<Rightarrow> 'e fault + ('f, 'o) SshOperationLedger" where
  "ledger_new cap = (if cap > 0 then Inr \<lparr>capacity = cap, entries = [], insertion_order = []\<rparr> else Inl Panic)"

definition btree_remove :: "'k \<Rightarrow> ('k \<times> 'v) list \<Rightarrow> ('k \<times> 'v) list" where
  "btree_remove k m = filter (\<lambda>(k', _). k' \<noteq> k) m"

definition ledger_lookup :: "('f, 'o) SshOperationLedger \<Rightarrow> ustring \<Rightarrow> ustring \<Rightarrow> 'f \<Rightarrow> 'o SshOperationLookup" where
  "ledger_lookup l op key f =
     (case map_of (entries l) op of
        None \<Rightarrow> Missing
      | Some entry \<Rightarrow>
          if idempotency_key entry = key \<and> fingerprint entry = f then Replay (entry_outcome entry) else Conflict)"

text \<open>The loop of \<open>record\<close> that makes room: it stops when there is room or nothing left to expire.\<close>

fun ledger_evict :: "nat \<Rightarrow> (ustring \<times> 'v) list \<Rightarrow> ustring list \<Rightarrow> (ustring \<times> 'v) list \<times> ustring list" where
  "ledger_evict cap es [] = (es, [])"
| "ledger_evict cap es (op # ops) =
     (if length es \<ge> cap then ledger_evict cap (btree_remove op es) ops else (es, op # ops))"

definition ledger_insert ::
    "ustring \<Rightarrow> ('f, 'o) OperationEntry \<Rightarrow> ('f, 'o) SshOperationLedger \<Rightarrow> ('f, 'o) SshOperationLedger" where
  "ledger_insert op entry l =
     (case ledger_evict (capacity l) (entries l) (insertion_order l) of (es, ops) \<Rightarrow>
        l\<lparr>entries := btree_insert op entry es, insertion_order := ops @ [op]\<rparr>)"

definition ledger_record ::
    "ustring \<Rightarrow> ustring \<Rightarrow> 'f \<Rightarrow> 'o \<Rightarrow> ('f, 'o) SshOperationLedger \<Rightarrow>
     ('f, 'o) SshOperationLedger \<times> 'o SshOperationLookup" where
  "ledger_record op key f out l =
     (case ledger_lookup l op key f of
        Missing \<Rightarrow>
          (ledger_insert op \<lparr>idempotency_key = key, fingerprint = f, entry_outcome = out\<rparr> l, Replay out)
      | existing \<Rightarrow> (l, existing))"

definition ledger_log :: "('f, 'o) SshOperationLedger \<Rightarrow> (ustring \<times> ('f, 'o) OperationEntry) list" where
  "ledger_log l = map (\<lambda>op. (op, the (map_of (entries l) op))) (insertion_order l)"

definition log_ok :: "(ustring \<times> 'v) list \<Rightarrow> ustring list \<Rightarrow> bool" where
  "log_ok es ops \<longleftrightarrow> btree_ok es \<and> distinct ops \<and> set ops = fst ` set es"

definition ledger_ok :: "nat \<Rightarrow> ('f, 'o) SshOperationLedger \<Rightarrow> bool" where
  "ledger_ok cap l \<longleftrightarrow>
     capacity l = cap \<and> 0 < cap \<and> log_ok (entries l) (insertion_order l) \<and> length (insertion_order l) \<le> cap"

subsection \<open>Order and map\<close>

lemma btree_remove_ok: "btree_ok es \<Longrightarrow> btree_ok (btree_remove k es)"
  by (induction es) (auto simp: btree_ok_def btree_remove_def)

lemma map_of_btree_remove: "map_of (btree_remove k es) = (map_of es)(k := None)"
  by (induction es) (auto simp: btree_remove_def)

lemma keys_btree_remove: "fst ` set (btree_remove k es) = fst ` set es - {k}"
  by (auto simp: btree_remove_def)

lemma log_ok_length: "log_ok es ops \<Longrightarrow> length es = length ops"
  by (metis btree_ok_distinct distinct_card length_map list.set_map log_ok_def)

lemma log_ok_remove: "log_ok es (op # ops) \<Longrightarrow> log_ok (btree_remove op es) ops"
  by (auto simp: log_ok_def btree_remove_ok keys_btree_remove)

lemma log_ok_insert: "log_ok es ops \<Longrightarrow> op \<notin> set ops \<Longrightarrow> log_ok (btree_insert op e es) (ops @ [op])"
  by (auto simp: log_ok_def btree_insert_ok set_btree_insert)

lemma log_ok_get: "log_ok es ops \<Longrightarrow> map_of es op = None \<longleftrightarrow> op \<notin> set ops"
  by (simp add: log_ok_def map_of_eq_None_iff)

text \<open>The entries in the order in which they were made.\<close>

definition in_order :: "(ustring \<times> 'v) list \<Rightarrow> ustring list \<Rightarrow> (ustring \<times> 'v) list" where
  "in_order es ops = map (\<lambda>op. (op, the (map_of es op))) ops"

lemma in_order_cong: "\<forall>op \<in> set ops. map_of es op = map_of es' op \<Longrightarrow> in_order es ops = in_order es' ops"
  by (simp add: in_order_def)

lemma in_order_get: "log_ok es ops \<Longrightarrow> map_of (in_order es ops) op = map_of es op"
proof (cases "op \<in> set ops")
  case True
  assume ok: "log_ok es ops"
  from True ok obtain v where v: "map_of es op = Some v" using log_ok_get [OF ok, of op] by auto
  have "map_of (in_order es ops) op = Some (the (map_of es op))" using True
    by (induction ops) (auto simp: in_order_def)
  with v show ?thesis by simp
next
  case False
  assume "log_ok es ops"
  then have "map_of es op = None" using False log_ok_get by metis
  moreover have "map_of (in_order es ops) op = None" using False by (auto simp: in_order_def map_of_eq_None_iff)
  ultimately show ?thesis by simp
qed

lemma in_order_keys [simp]: "map fst (in_order es ops) = ops" "length (in_order es ops) = length ops"
  by (simp_all add: in_order_def comp_def)

lemma in_order_remove: "op \<notin> set ops \<Longrightarrow> in_order (btree_remove op es) ops = in_order es ops"
  by (rule in_order_cong) (auto simp: map_of_btree_remove)

lemma in_order_insert:
  assumes "log_ok es ops" "op \<notin> set ops"
  shows "in_order (btree_insert op e es) (ops @ [op]) = in_order es ops @ [(op, e)]"
proof -
  have m: "map_of (btree_insert op e es) = (map_of es)(op \<mapsto> e)"
    by (rule map_of_btree_insert) (use assms(1) in \<open>simp add: log_ok_def\<close>)
  have "in_order (btree_insert op e es) ops = in_order es ops"
    by (rule in_order_cong) (use assms(2) in \<open>auto simp: m\<close>)
  then show ?thesis by (simp add: in_order_def m)
qed

lemma ledger_evict_room: "length es < cap \<Longrightarrow> ledger_evict cap es ops = (es, ops)"
  by (cases ops) auto

lemma ledger_evict_full:
  assumes "log_ok es (op # ops)" "length es = cap"
  shows "ledger_evict cap es (op # ops) = (btree_remove op es, ops)"
proof -
  have "length (btree_remove op es) = length ops" by (rule log_ok_length [OF log_ok_remove [OF assms(1)]])
  also have "\<dots> < cap" using log_ok_length [OF assms(1)] assms(2) by simp
  finally show ?thesis using assms(2) by (simp add: ledger_evict_room)
qed

lemma ledger_insert_log:
  assumes "ledger_ok cap l" "map_of (entries l) op = None"
  shows "ledger_ok cap (ledger_insert op e l)"
    "ledger_log (ledger_insert op e l) = drop (Suc (length (ledger_log l)) - cap) (ledger_log l @ [(op, e)])"
proof -
  let ?es = "entries l" and ?ops = "insertion_order l"
  have ok: "capacity l = cap" "0 < cap" "log_ok ?es ?ops" "length ?ops \<le> cap"
    using assms(1) by (simp_all add: ledger_ok_def)
  have new: "op \<notin> set ?ops" using log_ok_get [OF ok(3)] assms(2) by simp
  have len: "length ?es = length ?ops" by (rule log_ok_length [OF ok(3)])
  obtain es ops where ev: "ledger_evict cap ?es ?ops = (es, ops)" by force
  have main: "log_ok es ops \<and> length ops < cap \<and> set ops \<subseteq> set ?ops \<and>
      in_order es ops = drop (Suc (length ?ops) - cap) (in_order ?es ?ops) \<and> Suc (length ?ops) - cap \<le> length ?ops"
  proof (cases "length ?ops < cap")
    case True
    then show ?thesis using ev len ok(3) by (simp add: ledger_evict_room)
  next
    case False
    then obtain o1 os where ops: "?ops = o1 # os" using ok(2) by (cases ?ops) auto
    have d: "o1 \<notin> set os" using ok(3) by (simp add: ops log_ok_def)
    have "es = btree_remove o1 ?es" "ops = os"
      using ledger_evict_full [of ?es o1 os cap] ev ok(3,4) len False by (auto simp: ops)
    then show ?thesis using log_ok_remove [of ?es o1 os] ok(2,3,4) False in_order_remove [OF d, of ?es]
      by (auto simp: ops in_order_def)
  qed
  have new': "op \<notin> set ops" using main new by blast
  have ins: "ledger_insert op e l = l\<lparr>entries := btree_insert op e es, insertion_order := ops @ [op]\<rparr>"
    by (simp add: ledger_insert_def ok(1) ev)
  show "ledger_ok cap (ledger_insert op e l)"
    using main ok(1,2) log_ok_insert [of es ops op e] new' by (simp add: ins ledger_ok_def)
  show "ledger_log (ledger_insert op e l) = drop (Suc (length (ledger_log l)) - cap) (ledger_log l @ [(op, e)])"
    using main in_order_insert [of es ops op e] new' by (simp add: ins ledger_log_def in_order_def [symmetric])
qed

interpretation ssh: operation_log cap "\<lambda>l. map_of (entries l)" ledger_insert ledger_log "ledger_ok cap" for cap
proof (unfold_locales, goal_cases)
  case (1 s k)
  then show ?case by (simp add: ledger_log_def in_order_def [symmetric] in_order_get ledger_ok_def)
next
  case (2 s)
  then show ?case by (simp add: ledger_log_def ledger_ok_def log_ok_def comp_def)
next
  case (3 s)
  then show ?case by (simp add: ledger_log_def ledger_ok_def)
next
  case (4 s k e)
  then show ?case by (rule ledger_insert_log)
next
  case (5 s k e)
  then show ?case by (rule ledger_insert_log)
qed

section \<open>Errors\<close>

datatype ErrorCategory =
  Validation | ConflictCategory | Permission | Unavailable | Timeout | Internal | Incompatible | NeedsReconciliation

datatype RetryStrategy =
  Never | RefreshSnapshot | QueryOperation | AfterMilliseconds u64 | WaitForUser | Upgrade | Reconcile

record CoreApiError =
  error_code :: ustring
  category :: ErrorCategory
  retry_strategy :: RetryStrategy
  message_key :: ustring
  params :: "(ustring \<times> ustring) list"
  error_request_id :: "ustring option"
  diagnostic_id :: "ustring option"
  error_conflict :: "u64 option option"

definition core_error :: "ustring \<Rightarrow> string \<Rightarrow> ErrorCategory \<Rightarrow> RetryStrategy \<Rightarrow> string \<Rightarrow> CoreApiError" where
  "core_error request_id c cat retry msg =
     \<lparr>error_code = U c, category = cat, retry_strategy = retry, message_key = U msg, params = [],
      error_request_id = Some request_id, diagnostic_id = None, error_conflict = None\<rparr>"

text \<open>A stored error is replayed under the identity of the request that asks again.\<close>

definition stored_replay :: "ustring \<Rightarrow> CoreApiError + 'o \<Rightarrow> CoreApiError + 'o" where
  "stored_replay request_id r =
     (case r of Inr out \<Rightarrow> Inr out | Inl e \<Rightarrow> Inl (e\<lparr>error_request_id := Some request_id\<rparr>))"

section \<open>The focus broker\<close>

definition FOCUS_OPERATION_LEDGER_CAPACITY :: nat where "FOCUS_OPERATION_LEDGER_CAPACITY = 1024"

record 't TerminalInputFocusChangeRequest =
  focus_request_id :: ustring
  operation_id :: ustring
  focus_key :: ustring
  expected_focus_epoch :: u64
  focus_target :: "'t option"

record 't FocusFingerprint =
  fp_key :: ustring
  fp_epoch :: u64
  fp_target :: "'t option"

record ('t, 'r) StoredFocusOperation =
  stored_fingerprint :: "'t FocusFingerprint"
  stored_result :: "CoreApiError + 'r"

record ('t, 'r) BrokerState =
  focus_operations :: "(ustring \<times> ('t, 'r) StoredFocusOperation) list"
  focus_operation_order :: "ustring list"

datatype FocusAction = InvalidateDesktop | RunOperation

definition FocusFingerprint_from :: "'t TerminalInputFocusChangeRequest \<Rightarrow> 't FocusFingerprint" where
  "FocusFingerprint_from r =
     \<lparr>fp_key = focus_key r, fp_epoch = expected_focus_epoch r, fp_target = focus_target r\<rparr>"

definition focus_conflict :: "ustring \<Rightarrow> CoreApiError" where
  "focus_conflict request_id =
     core_error request_id ''ssh_terminal.stale_fence'' ConflictCategory RefreshSnapshot ''errors.sshSession.staleFence''"

fun focus_trim :: "(ustring \<times> 'v) list \<Rightarrow> ustring list \<Rightarrow> (ustring \<times> 'v) list \<times> ustring list" where
  "focus_trim es [] = (es, [])"
| "focus_trim es (op # ops) =
     (if length (op # ops) > FOCUS_OPERATION_LEDGER_CAPACITY then focus_trim (btree_remove op es) ops
      else (es, op # ops))"

definition focus_store ::
    "ustring \<Rightarrow> ('t, 'r) StoredFocusOperation \<Rightarrow> ('t, 'r) BrokerState \<Rightarrow> ('t, 'r) BrokerState" where
  "focus_store op stored st =
     (case focus_trim (btree_insert op stored (focus_operations st)) (focus_operation_order st @ [op]) of (es, ops) \<Rightarrow>
        \<lparr>focus_operations = es, focus_operation_order = ops\<rparr>)"

text \<open>
  One focus change under the lock of the broker: the operation's answer and whether a desktop
  invalidator is registered are arguments, and the actions taken are returned.
\<close>

definition linearize_focus_change ::
    "bool \<Rightarrow> 't TerminalInputFocusChangeRequest \<Rightarrow> CoreApiError + 'r \<Rightarrow> ('t, 'r) BrokerState \<Rightarrow>
     (CoreApiError + 'r) \<times> ('t, 'r) BrokerState \<times> FocusAction list" where
  "linearize_focus_change invalidator request operation st =
     (case map_of (focus_operations st) (operation_id request) of
        Some stored \<Rightarrow>
          if stored_fingerprint stored \<noteq> FocusFingerprint_from request
          then (Inl (focus_conflict (focus_request_id request)), st, [])
          else (stored_replay (focus_request_id request) (stored_result stored), st, [])
      | None \<Rightarrow>
          (operation,
           focus_store (operation_id request)
             \<lparr>stored_fingerprint = FocusFingerprint_from request, stored_result = operation\<rparr> st,
           (if focus_target request \<noteq> None \<and> invalidator then [InvalidateDesktop] else []) @ [RunOperation]))"

definition focus_log :: "('t, 'r) BrokerState \<Rightarrow> (ustring \<times> ('t, 'r) StoredFocusOperation) list" where
  "focus_log st = in_order (focus_operations st) (focus_operation_order st)"

definition focus_ok :: "('t, 'r) BrokerState \<Rightarrow> bool" where
  "focus_ok st \<longleftrightarrow>
     log_ok (focus_operations st) (focus_operation_order st) \<and>
     length (focus_operation_order st) \<le> FOCUS_OPERATION_LEDGER_CAPACITY"

lemma focus_trim_short: "length ops \<le> FOCUS_OPERATION_LEDGER_CAPACITY \<Longrightarrow> focus_trim es ops = (es, ops)"
  by (cases ops) auto

lemma focus_trim_one:
  "length ops = FOCUS_OPERATION_LEDGER_CAPACITY \<Longrightarrow> focus_trim es (op # ops) = (btree_remove op es, ops)"
  by (simp add: focus_trim_short)

lemma focus_store_log:
  assumes "focus_ok st" "map_of (focus_operations st) op = None"
  shows "focus_ok (focus_store op e st)"
    "focus_log (focus_store op e st) =
     drop (Suc (length (focus_log st)) - FOCUS_OPERATION_LEDGER_CAPACITY) (focus_log st @ [(op, e)])"
proof -
  let ?es = "focus_operations st" and ?ops = "focus_operation_order st" and ?cap = FOCUS_OPERATION_LEDGER_CAPACITY
  have ok: "log_ok ?es ?ops" "length ?ops \<le> ?cap" using assms(1) by (simp_all add: focus_ok_def)
  have new: "op \<notin> set ?ops" using log_ok_get [OF ok(1)] assms(2) by simp
  note ins = log_ok_insert [OF ok(1) new, of e] in_order_insert [OF ok(1) new, of e]
  have "focus_ok (focus_store op e st) \<and>
      focus_log (focus_store op e st) = drop (Suc (length ?ops) - ?cap) (in_order ?es ?ops @ [(op, e)])"
  proof (cases "length ?ops < ?cap")
    case True
    then show ?thesis using ins by (simp add: focus_store_def focus_trim_short focus_ok_def focus_log_def)
  next
    case False
    then obtain o1 os where ops: "?ops = o1 # os" using ok(2)
      by (cases ?ops) (auto simp: FOCUS_OPERATION_LEDGER_CAPACITY_def)
    have st: "focus_store op e st =
        \<lparr>focus_operations = btree_remove o1 (btree_insert op e ?es), focus_operation_order = os @ [op]\<rparr>"
      using focus_trim_one [of "os @ [op]" "btree_insert op e ?es" o1] False ok(2) by (simp add: focus_store_def ops)
    have d: "o1 \<notin> set (os @ [op])" using ok(1) new by (auto simp: ops log_ok_def)
    have "log_ok (btree_remove o1 (btree_insert op e ?es)) (os @ [op])"
      using log_ok_remove [of "btree_insert op e ?es" o1 "os @ [op]"] ins(1) by (simp add: ops)
    moreover have "in_order (btree_remove o1 (btree_insert op e ?es)) (os @ [op]) =
        drop 1 (in_order ?es ?ops @ [(op, e)])"
      using in_order_remove [OF d, of "btree_insert op e ?es"] ins(2) by (simp add: ops in_order_def)
    ultimately show ?thesis using False ok(2) by (auto simp: st focus_ok_def focus_log_def ops)
  qed
  then show "focus_ok (focus_store op e st)"
    "focus_log (focus_store op e st) = drop (Suc (length (focus_log st)) - ?cap) (focus_log st @ [(op, e)])"
    by (simp_all add: focus_log_def)
qed

interpretation focus: operation_log FOCUS_OPERATION_LEDGER_CAPACITY "\<lambda>st. map_of (focus_operations st)"
    focus_store focus_log focus_ok
proof (unfold_locales, goal_cases)
  case (1 s k)
  then show ?case by (simp add: focus_log_def in_order_get focus_ok_def)
next
  case (2 s)
  then show ?case by (simp add: focus_log_def focus_ok_def log_ok_def)
next
  case (3 s)
  then show ?case by (simp add: focus_log_def focus_ok_def)
next
  case (4 s k e)
  then show ?case by (rule focus_store_log)
next
  case (5 s k e)
  then show ?case by (rule focus_store_log)
qed

section \<open>Operations run once\<close>

definition entry_of :: "ustring \<times> 'f \<times> 'o \<Rightarrow> ('f, 'o) OperationEntry" where
  "entry_of x = (case x of (key, f, out) \<Rightarrow> \<lparr>idempotency_key = key, fingerprint = f, entry_outcome = out\<rparr>)"

definition record_all ::
    "(ustring \<times> ustring \<times> 'f \<times> 'o) list \<Rightarrow> ('f, 'o) SshOperationLedger \<Rightarrow> ('f, 'o) SshOperationLedger" where
  "record_all later l = fold (\<lambda>(op, key, f, out) l. fst (ledger_record op key f out l)) later l"

lemma lookup_missing: "ledger_lookup l op key f = Missing \<longleftrightarrow> map_of (entries l) op = None"
  by (simp add: ledger_lookup_def split: option.split)

lemma record_remembers: "fst (ledger_record op key f out l) = ssh.remember op (entry_of (key, f, out)) l"
  by (auto simp: ledger_record_def ssh.remember_def lookup_missing [of l op key f, symmetric] entry_of_def
      split: SshOperationLookup.split)

lemma record_all_remembers:
  "record_all later l = fold (\<lambda>(k, e). ssh.remember k e) (map (\<lambda>(op, x). (op, entry_of x)) later) l"
  by (induction later arbitrary: l) (auto simp: record_all_def record_remembers)

text \<open>
  (C26) The ledger replays. The first outcome recorded for an operation id is answered again to the same
  request, whatever is recorded in between, as long as fewer operations than the capacity were recorded;
  the same id with another idempotency key or another fingerprint is a conflict and runs nothing; the
  ledger never holds more entries than its capacity, and recording again does not replace the outcome.
\<close>

theorem ledger_replays_first_outcome:
  assumes "ledger_ok cap l" "ledger_lookup l op key f = Missing" "length later < cap"
  shows "let l' = record_all later (fst (ledger_record op key f out l)) in
    ledger_ok cap l' \<and> length (entries l') \<le> cap \<and>
    ledger_lookup l' op key f = Replay out \<and>
    (\<forall>key' f'. (key', f') \<noteq> (key, f) \<longrightarrow> ledger_lookup l' op key' f' = Conflict) \<and>
    ledger_record op key f out' l' = (l', Replay out)"
proof -
  let ?l' = "record_all later (fst (ledger_record op key f out l))"
  have none: "map_of (entries l) op = None" using assms(2) by (simp add: lookup_missing)
  have first: "fst (ledger_record op key f out l) = ledger_insert op (entry_of (key, f, out)) l"
    by (simp add: record_remembers ssh.remember_def none)
  have get: "map_of (entries ?l') op = Some (entry_of (key, f, out))"
    unfolding first record_all_remembers by (rule ssh.put_survives [OF assms(1) none]) (use assms(3) in simp)
  have ok: "ledger_ok cap ?l'"
  proof -
    have "ledger_ok cap (record_all xs m)" if "ledger_ok cap m" for xs and m :: "('a, 'b) SshOperationLedger"
      using that unfolding record_all_def
      by (induction xs arbitrary: m) (auto simp: record_remembers ssh.remember_invar)
    then show ?thesis using ledger_insert_log(1) [OF assms(1) none] by (simp add: first)
  qed
  have bound: "length (entries ?l') \<le> cap"
    using ok log_ok_length [of "entries ?l'" "insertion_order ?l'"] by (simp add: ledger_ok_def)
  have look: "ledger_lookup ?l' op key f = Replay out"
    "\<forall>key' f'. (key', f') \<noteq> (key, f) \<longrightarrow> ledger_lookup ?l' op key' f' = Conflict"
    by (auto simp: ledger_lookup_def get entry_of_def)
  have again: "ledger_record op key f out' ?l' = (?l', Replay out)"
    using look(1) unfolding ledger_record_def [of op key f out' ?l'] by simp
  from ok bound look again show ?thesis unfolding Let_def by blast
qed

definition sample_ledger :: "(nat, nat) SshOperationLedger" where
  "sample_ledger = \<lparr>capacity = 2, entries = [], insertion_order = []\<rparr>"

theorem ledger_replays_first_outcome_witness:
  "ledger_lookup (record_all [(U ''b'', U ''k'', 2, 8)] (fst (ledger_record (U ''a'') (U ''k'') 1 7 sample_ledger)))
     (U ''a'') (U ''k'') 1 = Replay (7 :: nat)"
proof -
  have ok: "ledger_ok 2 sample_ledger" by (simp add: ledger_ok_def sample_ledger_def log_ok_def btree_ok_def)
  have missing: "ledger_lookup sample_ledger (U ''a'') (U ''k'') 1 = Missing"
    by (simp add: ledger_lookup_def sample_ledger_def)
  show ?thesis
    using ledger_replays_first_outcome [OF ok missing, of "[(U ''b'', U ''k'', 2, 8)]" 7 0] by (simp add: Let_def)
qed

definition change_all ::
    "(bool \<times> 't TerminalInputFocusChangeRequest \<times> (CoreApiError + 'r)) list \<Rightarrow> ('t, 'r) BrokerState \<Rightarrow> ('t, 'r) BrokerState" where
  "change_all later st = fold (\<lambda>(i, r, o') st. fst (snd (linearize_focus_change i r o' st))) later st"

definition stored_of :: "'t TerminalInputFocusChangeRequest \<times> (CoreApiError + 'r) \<Rightarrow> ('t, 'r) StoredFocusOperation" where
  "stored_of x = (case x of (r, o') \<Rightarrow> \<lparr>stored_fingerprint = FocusFingerprint_from r, stored_result = o'\<rparr>)"

lemma change_remembers:
  "fst (snd (linearize_focus_change i r o' st)) = focus.remember (operation_id r) (stored_of (r, o')) st"
  by (simp add: linearize_focus_change_def focus.remember_def stored_of_def split: option.split)

lemma change_all_remembers:
  "change_all later st =
   fold (\<lambda>(k, e). focus.remember k e) (map (\<lambda>(i, r, o'). (operation_id r, stored_of (r, o'))) later) st"
  by (induction later arbitrary: st) (auto simp: change_all_def change_remembers)

text \<open>
  (C12) A focus change takes effect once. The first request runs its operation, with desktop input revoked
  before it if the change gives the focus to a terminal. The same request, sent again under any request identity
  after fewer than 1024 other changes, runs nothing, revokes nothing, and gets the first answer, an error
  under its own identity; with another key, epoch or target it is refused as a conflict.
\<close>

theorem focus_change_runs_once:
  assumes "focus_ok st" "map_of (focus_operations st) (operation_id r) = None"
    "length later < FOCUS_OPERATION_LEDGER_CAPACITY"
  shows "case linearize_focus_change i r answer st of (first, st', actions) \<Rightarrow>
    first = answer \<and> last actions = RunOperation \<and> length (filter (\<lambda>a. a = RunOperation) actions) = 1 \<and>
    (InvalidateDesktop \<in> set actions \<longleftrightarrow> i \<and> focus_target r \<noteq> None) \<and>
    (\<forall>r' i' other. operation_id r' = operation_id r \<longrightarrow>
       linearize_focus_change i' r' other (change_all later st') =
         (if FocusFingerprint_from r' = FocusFingerprint_from r
          then (stored_replay (focus_request_id r') answer, change_all later st', [])
          else (Inl (focus_conflict (focus_request_id r')), change_all later st', [])))"
proof -
  let ?st' = "focus_store (operation_id r) (stored_of (r, answer)) st"
  have first: "linearize_focus_change i r answer st =
      (answer, ?st', (if focus_target r \<noteq> None \<and> i then [InvalidateDesktop] else []) @ [RunOperation])"
    by (simp add: linearize_focus_change_def assms(2) stored_of_def)
  have get: "map_of (focus_operations (change_all later ?st')) (operation_id r) = Some (stored_of (r, answer))"
    unfolding change_all_remembers by (rule focus.put_survives [OF assms(1,2)]) (use assms(3) in simp)
  have again: "linearize_focus_change i' r' other (change_all later ?st') =
      (if FocusFingerprint_from r' = FocusFingerprint_from r
       then (stored_replay (focus_request_id r') answer, change_all later ?st', [])
       else (Inl (focus_conflict (focus_request_id r')), change_all later ?st', []))"
    if "operation_id r' = operation_id r" for r' i' other
    using get that by (simp add: linearize_focus_change_def stored_of_def)
  show ?thesis using again by (auto simp: first)
qed

definition sample_focus :: "nat TerminalInputFocusChangeRequest" where
  "sample_focus = \<lparr>focus_request_id = U ''r1'', operation_id = U ''op'', focus_key = U ''k'',
     expected_focus_epoch = 0, focus_target = Some 3\<rparr>"

definition sample_broker :: "(nat, nat) BrokerState" where
  "sample_broker = \<lparr>focus_operations = [], focus_operation_order = []\<rparr>"

theorem focus_change_runs_once_witness:
  "linearize_focus_change True sample_focus (Inr 9)
     (fst (snd (linearize_focus_change True sample_focus (Inr 5) sample_broker))) =
   (Inr 5, fst (snd (linearize_focus_change True sample_focus (Inr 5) sample_broker)), [])"
proof -
  have ok: "focus_ok sample_broker" by (simp add: focus_ok_def log_ok_def btree_ok_def sample_broker_def)
  have none: "map_of (focus_operations sample_broker) (operation_id sample_focus) = None"
    by (simp add: sample_broker_def)
  have "length [] < FOCUS_OPERATION_LEDGER_CAPACITY" by (simp add: FOCUS_OPERATION_LEDGER_CAPACITY_def)
  from focus_change_runs_once [OF ok none this, where i = True and answer = "Inr 5"] show ?thesis
    by (simp add: split_beta change_all_def stored_replay_def)
qed

end
