(* ===== verification/LinuxMetrics.thy ===== *)
theory LinuxMetrics
  imports NetAddr BTree
begin

text \<open>
  The metrics of Linux servers, \<open>crates/server-metrics/src/linux.rs\<close>: the bounded parsers of
  \<open>/proc/stat\<close>, \<open>/proc/meminfo\<close>, \<open>/proc/net/dev\<close> and \<open>df\<close>, the rates between two samples, and the
  provider with its baseline. The 64-bit and 128-bit numbers of the source are only combined by
  checked operations, so they are naturals with the checks written out; a duration is its number of
  nanoseconds.
\<close>

section \<open>Strings and numbers\<close>

definition is_continuation :: "u8 \<Rightarrow> bool" where
  "is_continuation b \<longleftrightarrow> 128 \<le> unat b \<and> unat b < 192"

definition continuation_value :: "u8 \<Rightarrow> nat" where
  "continuation_value b = unat b - 128"

definition is_scalar :: "nat \<Rightarrow> bool" where
  "is_scalar c \<longleftrightarrow> c < 0xD800 \<or> (0xE000 \<le> c \<and> c < 0x110000)"

text \<open>\<open>str::from_utf8\<close>: shortest encodings of scalar values only.\<close>

fun from_utf8 :: "u8 list \<Rightarrow> ustring option" where
  "from_utf8 [] = Some []"
| "from_utf8 (a # bs) =
     (if unat a < 0x80 then map_option ((#) (unat a)) (from_utf8 bs)
      else if 0xC0 \<le> unat a \<and> unat a < 0xE0 then
        (case bs of
           b # r \<Rightarrow>
             (let c = (unat a - 0xC0) * 64 + continuation_value b in
              if is_continuation b \<and> 0x80 \<le> c then map_option ((#) c) (from_utf8 r) else None)
         | _ \<Rightarrow> None)
      else if 0xE0 \<le> unat a \<and> unat a < 0xF0 then
        (case bs of
           b # b' # r \<Rightarrow>
             (let c = (unat a - 0xE0) * 4096 + continuation_value b * 64 + continuation_value b' in
              if is_continuation b \<and> is_continuation b' \<and> 0x800 \<le> c \<and> is_scalar c
              then map_option ((#) c) (from_utf8 r) else None)
         | _ \<Rightarrow> None)
      else if 0xF0 \<le> unat a \<and> unat a < 0xF8 then
        (case bs of
           b # b' # b'' # r \<Rightarrow>
             (let c = (unat a - 0xF0) * 262144 + continuation_value b * 4096 + continuation_value b' * 64 +
                      continuation_value b'' in
              if is_continuation b \<and> is_continuation b' \<and> is_continuation b'' \<and> 0x10000 \<le> c \<and> is_scalar c
              then map_option ((#) c) (from_utf8 r) else None)
         | _ \<Rightarrow> None)
      else None)"

declare from_utf8.simps(2) [simp del]

definition is_ascii_whitespace :: "uchar \<Rightarrow> bool" where
  "is_ascii_whitespace c \<longleftrightarrow> c \<in> {9, 10, 12, 13, 32}"

fun words :: "ustring \<Rightarrow> ustring \<Rightarrow> ustring list" where
  "words w [] = (if w = [] then [] else [w])"
| "words w (c # cs) =
     (if is_ascii_whitespace c then (if w = [] then words [] cs else w # words [] cs) else words (w @ [c]) cs)"

definition split_ascii_whitespace :: "ustring \<Rightarrow> ustring list" where
  "split_ascii_whitespace s = words [] s"

fun contains_str :: "ustring \<Rightarrow> ustring \<Rightarrow> bool" where
  "contains_str p [] \<longleftrightarrow> p = []"
| "contains_str p (c # cs) \<longleftrightarrow> take (length p) (c # cs) = p \<or> contains_str p cs"

definition checked_add_u64 :: "nat \<Rightarrow> nat \<Rightarrow> nat option" where
  "checked_add_u64 a b = (if a + b < 2 ^ 64 then Some (a + b) else None)"

definition checked_sub :: "nat \<Rightarrow> nat \<Rightarrow> nat option" where
  "checked_sub a b = (if b \<le> a then Some (a - b) else None)"

definition checked_mul_u64 :: "nat \<Rightarrow> nat \<Rightarrow> nat option" where
  "checked_mul_u64 a b = (if a * b < 2 ^ 64 then Some (a * b) else None)"

definition checked_mul_u128 :: "nat \<Rightarrow> nat \<Rightarrow> nat option" where
  "checked_mul_u128 a b = (if a * b < 2 ^ 128 then Some (a * b) else None)"

section \<open>Data\<close>

datatype LinuxMetricSource = ProcStat | ProcMeminfo | ProcNetDev | RootDisk

datatype ParseError =
    InputTooLarge LinuxMetricSource nat
  | TooManyLines LinuxMetricSource nat
  | InvalidUtf8 LinuxMetricSource
  | Malformed LinuxMetricSource string
  | DuplicateField LinuxMetricSource string
  | MissingField LinuxMetricSource string
  | InvalidNumber LinuxMetricSource
  | ArithmeticOverflow
  | NonMonotonicSampleTime

datatype MetricUnavailableReason = InitialBaseline | CounterReset | CounterSetChanged | NoCounterProgress

datatype 'a MetricValue = Available 'a | UnavailableValue MetricUnavailableReason

record MemoryUsage =
  mem_used_bytes :: nat
  mem_available_bytes :: nat
  mem_total_bytes :: nat

record NetworkRate =
  receive_bytes_per_second :: nat
  transmit_bytes_per_second :: nat

record DiskUsage =
  filesystem_id :: ustring
  mount :: ustring
  disk_used_bytes :: nat
  disk_available_bytes :: nat
  disk_total_bytes :: nat

record LinuxRawSample =
  proc_stat :: "u8 list"
  proc_meminfo :: "u8 list"
  proc_net_dev :: "u8 list"
  root_df :: "u8 list"

record InterfaceCounters =
  receive_bytes :: nat
  transmit_bytes :: nat

type_synonym Interfaces = "(ustring \<times> InterfaceCounters) list"

record Baseline =
  base_sampled_at :: nat
  base_cpu :: "nat list"
  base_network :: Interfaces

type_synonym LinuxMetricsProvider = "Baseline option"

record LinuxMetricSample =
  provider_id :: string
  provider_version :: nat
  sampled_at :: nat
  cpu :: "nat MetricValue"
  memory :: MemoryUsage
  network :: "NetworkRate MetricValue"
  root_disk :: DiskUsage

section \<open>Parsers\<close>

definition bounded_text :: "LinuxMetricSource \<Rightarrow> u8 list \<Rightarrow> nat \<Rightarrow> nat \<Rightarrow> ParseError + ustring" where
  "bounded_text src input max_bytes max_lines =
     (if length input > max_bytes then Inl (InputTooLarge src max_bytes)
      else bind_result (ok_or (InvalidUtf8 src) (from_utf8 input)) (\<lambda>text.
        if length (lines text) > max_lines then Inl (TooManyLines src max_lines)
        else if list_ex (\<lambda>b. (b < 32 \<or> b = 127) \<and> b \<notin> {10, 13, 9}) (as_bytes text)
          then Inl (Malformed src ''output contains a control character'')
        else Inr text))"

definition parse_u64 :: "LinuxMetricSource \<Rightarrow> ustring \<Rightarrow> ParseError + nat" where
  "parse_u64 src token =
     (if token = [] \<or> \<not> list_all is_ascii_digit token then Inl (InvalidNumber src)
      else if digits_value 0 token < 2 ^ 64 then Inr (digits_value 0 token)
      else Inl (InvalidNumber src))"

fun checked_sum_from :: "LinuxMetricSource \<Rightarrow> nat \<Rightarrow> nat list \<Rightarrow> ParseError + nat" where
  "checked_sum_from src s [] = Inr s"
| "checked_sum_from src s (v # vs) =
     (case checked_add_u64 s v of None \<Rightarrow> Inl (InvalidNumber src) | Some s' \<Rightarrow> checked_sum_from src s' vs)"

definition checked_sum :: "LinuxMetricSource \<Rightarrow> nat list \<Rightarrow> ParseError + nat" where
  "checked_sum src vs = checked_sum_from src 0 vs"

definition kib_to_bytes :: "nat \<Rightarrow> ParseError + nat" where
  "kib_to_bytes kib = ok_or ArithmeticOverflow (checked_mul_u64 kib 1024)"

definition full_lines :: "ustring \<Rightarrow> ustring list" where
  "full_lines text = filter (\<lambda>l. trim l \<noteq> []) (lines text)"

definition parse_proc_stat :: "u8 list \<Rightarrow> ParseError + nat list" where
  "parse_proc_stat input =
     bind_result (bounded_text ProcStat input (4 * 1024) 2) (\<lambda>text.
       case full_lines text of
         [] \<Rightarrow> Inl (MissingField ProcStat ''cpu'')
       | line # others \<Rightarrow>
           if others \<noteq> [] then Inl (Malformed ProcStat ''expected exactly one aggregate cpu line'')
           else (case split_ascii_whitespace line of
                   [] \<Rightarrow> Inl (Malformed ProcStat ''aggregate cpu line is missing'')
                 | name # tokens \<Rightarrow>
                     if name \<noteq> U ''cpu'' then Inl (Malformed ProcStat ''aggregate cpu line is missing'')
                     else bind_result (collect_results (parse_u64 ProcStat) tokens) (\<lambda>values.
                       if length values < 8 \<or> length values > 16
                       then Inl (Malformed ProcStat ''aggregate cpu field count is outside the provider contract'')
                       else bind_result (checked_sum ProcStat (take 8 values)) (\<lambda>_. Inr (take 8 values)))))"

definition meminfo_amount :: "ustring \<Rightarrow> ParseError + nat" where
  "meminfo_amount v =
     (case split_ascii_whitespace v of
        [] \<Rightarrow> Inl (Malformed ProcMeminfo ''memory value is missing'')
      | amount # unit \<Rightarrow>
          if unit \<noteq> [U ''kB''] then Inl (Malformed ProcMeminfo ''memory value must use the kB unit'')
          else parse_u64 ProcMeminfo amount)"

fun meminfo_lines :: "ustring list \<Rightarrow> nat option \<Rightarrow> nat option \<Rightarrow> ParseError + (nat option \<times> nat option)" where
  "meminfo_lines [] total_kib available_kib = Inr (total_kib, available_kib)"
| "meminfo_lines (line # ls) total_kib available_kib =
     (case split_once 58 line of
        None \<Rightarrow> meminfo_lines ls total_kib available_kib
      | Some (key, v) \<Rightarrow>
          if key = U ''MemTotal'' then
            (if total_kib \<noteq> None then Inl (DuplicateField ProcMeminfo ''MemTotal'')
             else bind_result (meminfo_amount v) (\<lambda>n. meminfo_lines ls (Some n) available_kib))
          else if key = U ''MemAvailable'' then
            (if available_kib \<noteq> None then Inl (DuplicateField ProcMeminfo ''MemAvailable'')
             else bind_result (meminfo_amount v) (\<lambda>n. meminfo_lines ls total_kib (Some n)))
          else meminfo_lines ls total_kib available_kib)"

definition parse_meminfo :: "u8 list \<Rightarrow> ParseError + MemoryUsage" where
  "parse_meminfo input =
     bind_result (bounded_text ProcMeminfo input (64 * 1024) 256) (\<lambda>text.
     bind_result (meminfo_lines (lines text) None None) (\<lambda>(t, a).
     bind_result (ok_or (MissingField ProcMeminfo ''MemTotal'') t) (\<lambda>total_kib.
     bind_result (ok_or (MissingField ProcMeminfo ''MemAvailable'') a) (\<lambda>available_kib.
       if total_kib = 0 \<or> available_kib > total_kib
       then Inl (Malformed ProcMeminfo ''memory totals are inconsistent'')
       else bind_result (kib_to_bytes total_kib) (\<lambda>total.
            bind_result (kib_to_bytes available_kib) (\<lambda>available.
            bind_result (ok_or ArithmeticOverflow (checked_sub total available)) (\<lambda>used.
              Inr \<lparr>mem_used_bytes = used, mem_available_bytes = available, mem_total_bytes = total\<rparr>)))))))"

definition interface_name_ok :: "ustring \<Rightarrow> bool" where
  "interface_name_ok name \<longleftrightarrow>
     name \<noteq> [] \<and> str_len name \<le> 64 \<and> list_all (\<lambda>b. 33 \<le> b \<and> b \<le> 126) (as_bytes name)"

fun net_lines :: "ustring list \<Rightarrow> Interfaces \<Rightarrow> nat \<Rightarrow> nat \<Rightarrow> ParseError + (Interfaces \<times> nat \<times> nat)" where
  "net_lines [] interfaces header data = Inr (interfaces, header, data)"
| "net_lines (line # ls) interfaces header data =
     (case split_once 58 line of
        None \<Rightarrow>
          if data > 0 \<or> header = 2 then Inl (Malformed ProcNetDev ''unexpected network header or data line'')
          else net_lines ls interfaces (header + 1) data
      | Some (raw_name, counters) \<Rightarrow>
          if header \<noteq> 2 then Inl (Malformed ProcNetDev ''expected two network header lines'')
          else (let name = trim raw_name in
            if \<not> interface_name_ok name then Inl (Malformed ProcNetDev ''network interface name is invalid'')
            else bind_result (collect_results (parse_u64 ProcNetDev) (split_ascii_whitespace counters)) (\<lambda>values.
              if length values \<noteq> 16 then Inl (Malformed ProcNetDev ''network field count is invalid'')
              else if name = U ''lo'' then net_lines ls interfaces header (data + 1)
              else if map_of interfaces name \<noteq> None then Inl (DuplicateField ProcNetDev ''interface'')
              else net_lines ls
                (btree_insert name \<lparr>receive_bytes = values ! 0, transmit_bytes = values ! 8\<rparr> interfaces)
                header (data + 1))))"

definition parse_net_dev :: "u8 list \<Rightarrow> ParseError + Interfaces" where
  "parse_net_dev input =
     bind_result (bounded_text ProcNetDev input (64 * 1024) 128) (\<lambda>text.
     bind_result (net_lines (full_lines text) [] 0 0) (\<lambda>(interfaces, header, data).
       if header \<noteq> 2 \<or> data = 0 then Inl (Malformed ProcNetDev ''network headers or interface rows are missing'')
       else Inr interfaces))"

definition parse_root_df :: "u8 list \<Rightarrow> ParseError + DiskUsage" where
  "parse_root_df input =
     bind_result (bounded_text RootDisk input (16 * 1024) 8) (\<lambda>text.
       let ls = full_lines text in
       if length ls \<noteq> 2 then Inl (Malformed RootDisk ''expected one header and one root filesystem row'')
       else if \<not> contains_str (U ''1024-blocks'') (ls ! 0) \<or> \<not> contains_str (U ''Available'') (ls ! 0) \<or>
               \<not> contains_str (U ''Mounted'') (ls ! 0)
         then Inl (Malformed RootDisk ''df header does not match the version 1 contract'')
       else (let fields = split_ascii_whitespace (ls ! 1); n = length fields in
         if n < 6 \<or> n > 32
         then Inl (Malformed RootDisk ''root filesystem field count is outside the provider contract'')
         else bind_result (parse_u64 RootDisk (fields ! (n - 3))) (\<lambda>available_kib.
              bind_result (parse_u64 RootDisk (fields ! (n - 4))) (\<lambda>used_kib.
              bind_result (parse_u64 RootDisk (fields ! (n - 5))) (\<lambda>total_kib.
                let fs = join 32 (take (n - 5) fields) in
                if fields ! (n - 1) \<noteq> U ''/'' then Inl (Malformed RootDisk ''df row is not the controlled root mount'')
                else if fs = [] \<or> str_len fs > 256 then Inl (Malformed RootDisk ''filesystem identifier is invalid'')
                else bind_result (ok_or (Malformed RootDisk ''capacity is invalid'') (strip_suffix 37 (fields ! (n - 2)))) (\<lambda>cap.
                     bind_result (parse_u64 RootDisk cap) (\<lambda>percent.
                       if percent > 100 then Inl (Malformed RootDisk ''capacity is outside the supported range'')
                       else if total_kib = 0 \<or> available_kib > total_kib \<or> used_kib > total_kib
                         then Inl (Malformed RootDisk ''filesystem totals are inconsistent'')
                       else bind_result (kib_to_bytes total_kib) (\<lambda>total.
                            bind_result (kib_to_bytes available_kib) (\<lambda>available.
                            bind_result (ok_or ArithmeticOverflow (checked_sub total available)) (\<lambda>used.
                              Inr \<lparr>filesystem_id = fs, mount = fields ! (n - 1), disk_used_bytes = used,
                                   disk_available_bytes = available, disk_total_bytes = total\<rparr>))))))))))"

section \<open>Rates\<close>

definition calculate_cpu :: "nat list \<Rightarrow> nat list \<Rightarrow> ParseError + nat MetricValue" where
  "calculate_cpu previous current =
     (if list_ex (\<lambda>(c, p). c < p) (zip current previous) then Inr (UnavailableValue CounterReset)
      else (let deltas = map (\<lambda>(c, p). c - p) (zip current previous) in
        bind_result (checked_sum ProcStat deltas) (\<lambda>total.
          if total = 0 then Inr (UnavailableValue NoCounterProgress)
          else bind_result (ok_or ArithmeticOverflow (checked_add_u64 (deltas ! 3) (deltas ! 4))) (\<lambda>idle.
               bind_result (ok_or ArithmeticOverflow (checked_sub total idle)) (\<lambda>active.
               bind_result (ok_or ArithmeticOverflow (checked_mul_u128 active 10000)) (\<lambda>scaled.
                 if scaled div total < 2 ^ 16 then Inr (Available (scaled div total))
                 else Inl ArithmeticOverflow))))))"

definition rate_per_second :: "nat \<Rightarrow> nat \<Rightarrow> ParseError + nat" where
  "rate_per_second delta elapsed =
     (if elapsed = 0 then Inl NonMonotonicSampleTime
      else bind_result (ok_or ArithmeticOverflow (checked_mul_u128 delta 1000000000)) (\<lambda>scaled.
        if scaled div elapsed < 2 ^ 64 then Inr (scaled div elapsed) else Inl ArithmeticOverflow))"

fun network_deltas ::
    "Interfaces \<Rightarrow> Interfaces \<Rightarrow> nat \<Rightarrow> nat \<Rightarrow> ParseError + (nat \<times> nat) option" where
  "network_deltas previous [] rx tx = Inr (Some (rx, tx))"
| "network_deltas previous ((name, c) # cs) rx tx =
     (case map_of previous name of
        None \<Rightarrow> Inl ArithmeticOverflow
      | Some p \<Rightarrow>
          (case checked_sub (receive_bytes c) (receive_bytes p) of
             None \<Rightarrow> Inr None
           | Some drx \<Rightarrow>
               (case checked_sub (transmit_bytes c) (transmit_bytes p) of
                  None \<Rightarrow> Inr None
                | Some dtx \<Rightarrow>
                    bind_result (ok_or ArithmeticOverflow (checked_add_u64 rx drx)) (\<lambda>rx'.
                    bind_result (ok_or ArithmeticOverflow (checked_add_u64 tx dtx)) (\<lambda>tx'.
                      network_deltas previous cs rx' tx')))))"

definition calculate_network :: "Interfaces \<Rightarrow> Interfaces \<Rightarrow> nat \<Rightarrow> ParseError + NetworkRate MetricValue" where
  "calculate_network previous current elapsed =
     (if map fst previous \<noteq> map fst current then Inr (UnavailableValue CounterSetChanged)
      else bind_result (network_deltas previous current 0 0) (\<lambda>d.
        case d of
          None \<Rightarrow> Inr (UnavailableValue CounterReset)
        | Some (rx, tx) \<Rightarrow>
            bind_result (rate_per_second rx elapsed) (\<lambda>r.
            bind_result (rate_per_second tx elapsed) (\<lambda>t.
              Inr (Available \<lparr>receive_bytes_per_second = r, transmit_bytes_per_second = t\<rparr>)))))"

section \<open>The provider\<close>

definition sample_values ::
    "LinuxMetricsProvider \<Rightarrow> nat \<Rightarrow> nat list \<Rightarrow> Interfaces \<Rightarrow>
     ParseError + (nat MetricValue \<times> NetworkRate MetricValue)" where
  "sample_values p now counters interfaces =
     (case p of
        Some b \<Rightarrow>
          bind_result
            (ok_or NonMonotonicSampleTime
               (case checked_sub now (base_sampled_at b) of
                  None \<Rightarrow> None | Some e \<Rightarrow> if e \<noteq> 0 then Some e else None))
            (\<lambda>elapsed.
               bind_result (calculate_cpu (base_cpu b) counters) (\<lambda>c.
               bind_result (calculate_network (base_network b) interfaces elapsed) (\<lambda>n. Inr (c, n))))
      | None \<Rightarrow> Inr (UnavailableValue InitialBaseline, UnavailableValue InitialBaseline))"

definition sample ::
    "LinuxMetricsProvider \<Rightarrow> nat \<Rightarrow> LinuxRawSample \<Rightarrow> (ParseError + LinuxMetricSample) \<times> LinuxMetricsProvider" where
  "sample p now raw =
     (case bind_result (parse_proc_stat (proc_stat raw)) (\<lambda>counters.
           bind_result (parse_meminfo (proc_meminfo raw)) (\<lambda>mem.
           bind_result (parse_net_dev (proc_net_dev raw)) (\<lambda>interfaces.
           bind_result (parse_root_df (root_df raw)) (\<lambda>disk.
           bind_result (sample_values p now counters interfaces) (\<lambda>(c, n).
             Inr (\<lparr>provider_id = ''linux-procfs'', provider_version = 1, sampled_at = now, cpu = c, memory = mem,
                   network = n, root_disk = disk\<rparr>,
                  \<lparr>base_sampled_at = now, base_cpu = counters, base_network = interfaces\<rparr>)))))) of
        Inl e \<Rightarrow> (Inl e, p)
      | Inr (s, b) \<Rightarrow> (Inr s, Some b))"

definition sample_cpu_follow_up ::
    "LinuxMetricsProvider \<Rightarrow> u8 list \<Rightarrow> (ParseError + nat MetricValue) \<times> LinuxMetricsProvider" where
  "sample_cpu_follow_up p input =
     (case parse_proc_stat input of
        Inl e \<Rightarrow> (Inl e, p)
      | Inr counters \<Rightarrow>
          (case p of
             None \<Rightarrow> (Inr (UnavailableValue InitialBaseline), p)
           | Some b \<Rightarrow>
               (case calculate_cpu (base_cpu b) counters of
                  Inl e \<Rightarrow> (Inl e, p)
                | Inr c \<Rightarrow> (Inr c, Some (b\<lparr>base_cpu := counters\<rparr>)))))"

definition reset_baseline :: "LinuxMetricsProvider \<Rightarrow> LinuxMetricsProvider" where
  "reset_baseline p = None"

section \<open>Exact values\<close>

definition is_idle :: "nat list \<Rightarrow> nat" where
  "is_idle ds = ds ! 3 + ds ! 4"

definition cpu_spec :: "nat list \<Rightarrow> nat list \<Rightarrow> nat MetricValue" where
  "cpu_spec previous current =
     (if \<exists>i < 8. current ! i < previous ! i then UnavailableValue CounterReset
      else (let ds = map (\<lambda>i. current ! i - previous ! i) [0..<8]; total = sum_list ds in
            if total = 0 then UnavailableValue NoCounterProgress
            else Available (10000 * (total - is_idle ds) div total)))"

definition interface_reset :: "Interfaces \<Rightarrow> Interfaces \<Rightarrow> bool" where
  "interface_reset previous current \<longleftrightarrow>
     (\<exists>(name, c) \<in> set current. \<exists>p. map_of previous name = Some p \<and>
        (receive_bytes c < receive_bytes p \<or> transmit_bytes c < transmit_bytes p))"

definition traffic :: "(InterfaceCounters \<Rightarrow> nat) \<Rightarrow> Interfaces \<Rightarrow> Interfaces \<Rightarrow> nat" where
  "traffic field previous current =
     sum_list (map (\<lambda>(name, c). field c - field (the (map_of previous name))) current)"

definition network_spec :: "Interfaces \<Rightarrow> Interfaces \<Rightarrow> nat \<Rightarrow> NetworkRate MetricValue" where
  "network_spec previous current elapsed =
     (if map fst previous \<noteq> map fst current then UnavailableValue CounterSetChanged
      else if interface_reset previous current then UnavailableValue CounterReset
      else Available
        \<lparr>receive_bytes_per_second = traffic receive_bytes previous current * 1000000000 div elapsed,
         transmit_bytes_per_second = traffic transmit_bytes previous current * 1000000000 div elapsed\<rparr>)"

text \<open>The totals and the rates fit into 64 bits.\<close>

definition network_fits :: "Interfaces \<Rightarrow> Interfaces \<Rightarrow> nat \<Rightarrow> bool" where
  "network_fits previous current elapsed \<longleftrightarrow>
     (\<forall>field \<in> {receive_bytes, transmit_bytes}.
        traffic field previous current < 2 ^ 64 \<and>
        traffic field previous current * 1000000000 div elapsed < 2 ^ 64)"

text \<open>Why a sample may fail.\<close>

definition sample_error :: "LinuxMetricsProvider \<Rightarrow> nat \<Rightarrow> LinuxRawSample \<Rightarrow> ParseError \<Rightarrow> bool" where
  "sample_error p now raw e \<longleftrightarrow>
     parse_proc_stat (proc_stat raw) = Inl e \<or> parse_meminfo (proc_meminfo raw) = Inl e \<or>
     parse_net_dev (proc_net_dev raw) = Inl e \<or> parse_root_df (root_df raw) = Inl e \<or>
     (case p of
        None \<Rightarrow> False
      | Some b \<Rightarrow>
          e = NonMonotonicSampleTime \<and> now \<le> base_sampled_at b \<or>
          e = ArithmeticOverflow \<and>
            (case parse_net_dev (proc_net_dev raw) of
               Inl _ \<Rightarrow> False
             | Inr interfaces \<Rightarrow> \<not> network_fits (base_network b) interfaces (now - base_sampled_at b)))"

definition baseline_ok :: "Baseline \<Rightarrow> bool" where
  "baseline_ok b \<longleftrightarrow> length (base_cpu b) = 8 \<and> sum_list (base_cpu b) < 2 ^ 64"

lemma checked_sum_from_eq:
  "s < 2 ^ 64 \<Longrightarrow> checked_sum_from src s vs =
   (if s + sum_list vs < 2 ^ 64 then Inr (s + sum_list vs) else Inl (InvalidNumber src))"
  by (induction vs arbitrary: s) (auto simp: checked_add_u64_def add.assoc)

lemma checked_sum_eq:
  "checked_sum src vs = (if sum_list vs < 2 ^ 64 then Inr (sum_list vs) else Inl (InvalidNumber src))"
  by (simp add: checked_sum_def checked_sum_from_eq)

lemma zip_deltas:
  assumes "length previous = 8" "length current = 8"
  shows "map (\<lambda>(c, p). c - p) (zip current previous) = map (\<lambda>i. current ! i - previous ! i) [0..<8]"
    "list_ex (\<lambda>(c, p). c < p) (zip current previous) \<longleftrightarrow> (\<exists>i < 8. current ! i < previous ! i)"
  using assms by (auto intro!: nth_equalityI simp: list_ex_iff set_zip)

lemma delta_sum: "length current = 8 \<Longrightarrow> sum_list (map (\<lambda>i. current ! i - (previous ! i :: nat)) [0..<8]) \<le> sum_list current"
proof -
  assume "length current = 8"
  then have "current = map (\<lambda>i. current ! i) [0..<8]" by (metis map_nth)
  then have "sum_list current = sum_list (map (\<lambda>i. current ! i) [0..<8])" by simp
  also have "\<dots> \<ge> sum_list (map (\<lambda>i. current ! i - previous ! i) [0..<8])" by (rule sum_list_mono) simp
  finally show ?thesis .
qed

lemma idle_le: "length ds = 8 \<Longrightarrow> is_idle ds \<le> sum_list ds"
proof -
  assume l: "length ds = 8"
  then have "ds = take 3 ds @ ds ! 3 # ds ! 4 # drop 5 ds"
    by (metis Cons_nth_drop_Suc append_take_drop_id eval_nat_numeral(2,3) lessI less_Suc_eq numeral_3_eq_3 numeral_eq_Suc pred_numeral_simps(2,3) semiring_norm(26,27,28))
  then have "sum_list ds = sum_list (take 3 ds) + (ds ! 3 + (ds ! 4 + sum_list (drop 5 ds)))"
    by (metis sum_list.Cons sum_list_append)
  then show ?thesis by (simp add: is_idle_def)
qed

lemma calculate_cpu_exact:
  assumes "length previous = 8" "length current = 8" "sum_list current < 2 ^ 64"
  shows "calculate_cpu previous current = Inr (cpu_spec previous current)"
proof -
  let ?ds = "map (\<lambda>i. current ! i - previous ! i) [0..<8]"
  have sum: "sum_list ?ds < 2 ^ 64" using delta_sum [OF assms(2), of previous] assms(3) by linarith
  have idle: "is_idle ?ds \<le> sum_list ?ds" by (rule idle_le) simp
  have scaled: "(sum_list ?ds - is_idle ?ds) * 10000 < 2 ^ 128"
    using sum by (simp add: algebra_simps)
  have small: "(sum_list ?ds - is_idle ?ds) * 10000 div sum_list ?ds < 2 ^ 16" if "sum_list ?ds \<noteq> 0"
  proof -
    have "(sum_list ?ds - is_idle ?ds) * 10000 \<le> sum_list ?ds * 10000" by simp
    then have "(sum_list ?ds - is_idle ?ds) * 10000 div sum_list ?ds \<le> sum_list ?ds * 10000 div sum_list ?ds"
      by (rule div_le_mono)
    then show ?thesis using that by simp
  qed
  have list: "?ds ! 3 + ?ds ! 4 < 2 ^ 64" using idle sum unfolding is_idle_def by linarith
  define ds where "ds = ?ds"
  have f: "is_idle ds \<le> sum_list ds" "sum_list ds < 2 ^ 64"
    "(sum_list ds - is_idle ds) * 10000 < 2 ^ 128" "ds ! 3 + ds ! 4 < 2 ^ 64"
    "sum_list ds \<noteq> 0 \<Longrightarrow> (sum_list ds - is_idle ds) * 10000 div sum_list ds < 2 ^ 16"
    using idle sum scaled small list unfolding ds_def by blast+
  note unfolded = calculate_cpu_def cpu_spec_def zip_deltas [OF assms(1,2)] Let_def ds_def [symmetric] checked_sum_eq
  consider "\<exists>i < 8. current ! i < previous ! i" | "\<not> (\<exists>i < 8. current ! i < previous ! i)" "sum_list ds = 0"
    | "\<not> (\<exists>i < 8. current ! i < previous ! i)" "sum_list ds \<noteq> 0" by blast
  then show ?thesis
  proof cases
    case 1 then show ?thesis unfolding unfolded by (simp only: if_True)
  next
    case 2
    then show ?thesis unfolding unfolded 2(2) by simp
  next
    case 3
    then show ?thesis unfolding unfolded using f f(5) [OF 3(2)]
      by (simp add: checked_add_u64_def checked_sub_def checked_mul_u128_def ok_or_def is_idle_def mult.commute)
  qed
qed

lemma cpu_spec_bounded: "cpu_spec previous current = Available n \<Longrightarrow> n \<le> 10000"
proof -
  assume a: "cpu_spec previous current = Available n"
  define ds where "ds = map (\<lambda>i. current ! i - previous ! i) [0..<8]"
  from a have n: "n = 10000 * (sum_list ds - is_idle ds) div sum_list ds" "sum_list ds \<noteq> 0"
    unfolding cpu_spec_def Let_def ds_def [symmetric] by (auto split: if_splits)
  have "10000 * (sum_list ds - is_idle ds) div sum_list ds \<le> 10000 * sum_list ds div sum_list ds"
    by (rule div_le_mono) simp
  then show ?thesis using n by simp
qed

lemma network_deltas_exact:
  assumes "network_deltas previous current rx tx = Inr d"
  shows "d = (if interface_reset previous current then None
     else Some (rx + traffic receive_bytes previous current, tx + traffic transmit_bytes previous current))"
  using assms
proof (induction current arbitrary: rx tx)
  case Nil then show ?case by (simp add: interface_reset_def traffic_def)
next
  case (Cons nc cs)
  obtain name c where nc: "nc = (name, c)" by force
  from Cons.prems obtain p where p: "map_of previous name = Some p" by (auto simp: nc split: option.splits)
  have reset: "interface_reset previous (nc # cs) \<longleftrightarrow>
      receive_bytes c < receive_bytes p \<or> transmit_bytes c < transmit_bytes p \<or> interface_reset previous cs"
    by (auto simp: interface_reset_def nc p)
  have traffic: "traffic field previous (nc # cs) = field c - field p + traffic field previous cs" for field
    by (simp add: traffic_def nc p)
  show ?case
  proof (cases "receive_bytes c < receive_bytes p \<or> transmit_bytes c < transmit_bytes p")
    case True
    then show ?thesis using Cons.prems by (auto simp: nc p reset [unfolded nc] checked_sub_def split: if_splits)
  next
    case False
    then have "network_deltas previous cs (rx + (receive_bytes c - receive_bytes p)) (tx + (transmit_bytes c - transmit_bytes p)) = Inr d"
      using Cons.prems by (auto simp: nc p checked_sub_def checked_add_u64_def ok_or_def split: if_splits)
    from Cons.IH [OF this] show ?thesis using False by (simp add: reset traffic add.assoc del: Nat.add_diff_assoc2 Nat.diff_add_assoc2 Nat.add_diff_assoc)
  qed
qed

lemma rate_exact: "rate_per_second delta elapsed = Inr r \<Longrightarrow> r = delta * 1000000000 div elapsed"
  by (auto simp: rate_per_second_def checked_mul_u128_def ok_or_def split: if_splits)

lemma calculate_network_exact:
  "calculate_network previous current elapsed = Inr v \<Longrightarrow> v = network_spec previous current elapsed"
  by (auto simp: calculate_network_def network_spec_def bind_result_ok dest!: network_deltas_exact rate_exact
      split: if_splits)

lemma network_deltas_error:
  assumes "network_deltas previous current rx tx = Inl e" "fst ` set current \<subseteq> dom (map_of previous)"
  shows "e = ArithmeticOverflow \<and>
     (2 ^ 64 \<le> rx + traffic receive_bytes previous current \<or> 2 ^ 64 \<le> tx + traffic transmit_bytes previous current)"
  using assms
proof (induction current arbitrary: rx tx)
  case Nil then show ?case by simp
next
  case (Cons nc cs)
  obtain name c where nc: "nc = (name, c)" by force
  from Cons.prems(2) obtain p where p: "map_of previous name = Some p" by (auto simp: nc)
  define drx dtx where "drx = receive_bytes c - receive_bytes p" and "dtx = transmit_bytes c - transmit_bytes p"
  have t: "traffic receive_bytes previous (nc # cs) = drx + traffic receive_bytes previous cs"
    "traffic transmit_bytes previous (nc # cs) = dtx + traffic transmit_bytes previous cs"
    by (simp_all add: traffic_def nc p drx_def dtx_def)
  show ?case
  proof (cases "rx + drx < 2 ^ 64 \<and> tx + dtx < 2 ^ 64")
    case True
    then have "network_deltas previous cs (rx + drx) (tx + dtx) = Inl e"
      using Cons.prems(1) by (auto simp: nc p checked_sub_def checked_add_u64_def ok_or_def drx_def dtx_def split: if_splits)
    from Cons.IH [OF this] Cons.prems(2) show ?thesis by (simp add: t add.assoc)
  next
    case False
    then show ?thesis
      using Cons.prems(1) unfolding t
      by (auto simp: nc p checked_sub_def checked_add_u64_def ok_or_def drx_def [symmetric] dtx_def [symmetric] split: if_splits)
  qed
qed

lemma rate_error:
  "rate_per_second delta elapsed = Inl e \<Longrightarrow> delta < 2 ^ 64 \<Longrightarrow> 0 < elapsed \<Longrightarrow>
   e = ArithmeticOverflow \<and> 2 ^ 64 \<le> delta * 1000000000 div elapsed"
  by (auto simp: rate_per_second_def checked_mul_u128_def ok_or_def split: if_splits)

lemma calculate_network_error:
  assumes "calculate_network previous current elapsed = Inl e" "0 < elapsed"
  shows "e = ArithmeticOverflow \<and> \<not> network_fits previous current elapsed"
proof -
  from assms(1) have keys: "map fst previous = map fst current" by (auto simp: calculate_network_def split: if_splits)
  then have dom: "fst ` set current \<subseteq> dom (map_of previous)" by (metis dom_map_of_conv_image_fst list.set_map order_refl)
  show ?thesis
  proof (cases "network_deltas previous current 0 0")
    case (Inl e')
    then show ?thesis using assms(1) keys network_deltas_error [OF Inl dom]
      by (auto simp: calculate_network_def network_fits_def)
  next
    case (Inr d)
    show ?thesis
    proof (cases "network_fits previous current elapsed")
      case True
      then show ?thesis using assms keys Inr network_deltas_exact [OF Inr]
        by (auto simp: calculate_network_def network_fits_def bind_result_def dest!: rate_error split: if_splits sum.splits)
    next
      case False
      then show ?thesis using assms keys Inr
        by (auto simp: calculate_network_def bind_result_def rate_per_second_def ok_or_def
            split: option.splits sum.splits if_splits)
    qed
  qed
qed

lemma parse_proc_stat_ok: "parse_proc_stat input = Inr fs \<Longrightarrow> length fs = 8 \<and> sum_list fs < 2 ^ 64"
  by (auto simp: parse_proc_stat_def bind_result_def checked_sum_eq split: sum.splits list.splits if_splits)

lemma kib_ok: "kib_to_bytes k = Inr b \<longleftrightarrow> b = k * 1024 \<and> k * 1024 < 2 ^ 64"
  by (auto simp: kib_to_bytes_def checked_mul_u64_def ok_or_def)

lemma parse_meminfo_ok:
  "parse_meminfo input = Inr m \<Longrightarrow>
   mem_used_bytes m + mem_available_bytes m = mem_total_bytes m \<and> 0 < mem_total_bytes m \<and> mem_total_bytes m < 2 ^ 64"
  by (auto simp: parse_meminfo_def bind_result_ok kib_ok checked_sub_def ok_or_def split: if_splits option.splits)

lemma parse_root_df_ok:
  "parse_root_df input = Inr d \<Longrightarrow>
   disk_used_bytes d + disk_available_bytes d = disk_total_bytes d \<and> 0 < disk_total_bytes d \<and>
   disk_total_bytes d < 2 ^ 64 \<and> mount d = U ''/''"
  by (auto simp: parse_root_df_def bind_result_ok kib_ok checked_sub_def ok_or_def Let_def split: if_splits option.splits)

lemma sample_values_exact:
  assumes "sample_values (Some b) now counters interfaces = Inr (c, n)" "baseline_ok b"
    "length counters = 8" "sum_list counters < 2 ^ 64"
  shows "base_sampled_at b < now" "c = cpu_spec (base_cpu b) counters"
    "n = network_spec (base_network b) interfaces (now - base_sampled_at b)"
  using assms calculate_cpu_exact [of "base_cpu b" counters]
  by (auto simp: sample_values_def bind_result_ok ok_or_def checked_sub_def baseline_ok_def
      dest: calculate_network_exact split: if_splits option.splits)

lemma sample_values_error:
  assumes "sample_values (Some b) now counters interfaces = Inl e" "baseline_ok b"
    "length counters = 8" "sum_list counters < 2 ^ 64"
  shows "e = NonMonotonicSampleTime \<and> now \<le> base_sampled_at b \<or>
    e = ArithmeticOverflow \<and> \<not> network_fits (base_network b) interfaces (now - base_sampled_at b)"
proof (cases "base_sampled_at b < now")
  case True
  then have "calculate_network (base_network b) interfaces (now - base_sampled_at b) = Inl e"
    using assms calculate_cpu_exact [of "base_cpu b" counters]
    by (auto simp: sample_values_def ok_or_def checked_sub_def baseline_ok_def bind_result_def split: sum.splits)
  from calculate_network_error [OF this] True show ?thesis by simp
next
  case False
  then show ?thesis using assms(1) by (auto simp: sample_values_def ok_or_def checked_sub_def split: if_splits)
qed

lemma sample_failed:
  assumes "sample p now raw = (Inl e, p')" "\<forall>b. p = Some b \<longrightarrow> baseline_ok b"
  shows "p' = p \<and> sample_error p now raw e"
proof -
  have unchanged: "p' = p" using assms(1) by (auto simp: sample_def split: sum.splits prod.splits)
  show ?thesis
  proof (cases "parse_proc_stat (proc_stat raw)")
    case stat: (Inr counters)
    note ok = parse_proc_stat_ok [OF stat]
    show ?thesis
    proof (cases "parse_net_dev (proc_net_dev raw)")
      case net: (Inr interfaces)
      show ?thesis
      proof (cases p)
        case None
        then show ?thesis using assms(1) unchanged stat net
          by (auto simp: sample_def sample_error_def sample_values_def bind_result_def split: sum.splits prod.splits)
      next
        case (Some b)
        then show ?thesis using assms unchanged stat net ok sample_values_error [of b now counters interfaces e]
          by (auto simp: sample_def sample_error_def bind_result_def split: sum.splits prod.splits)
      qed
    qed (use assms(1) unchanged stat in \<open>auto simp: sample_def sample_error_def bind_result_def split: sum.splits prod.splits\<close>)
  qed (use assms(1) unchanged in \<open>auto simp: sample_def sample_error_def split: sum.splits prod.splits\<close>)
qed

text \<open>
  (C29) A metrics sample is exact, and a failed one changes nothing. It fails only if one of the four outputs
  is refused, the time is not later than that of the baseline, or the network totals or rates do not fit into 64 bits;
  the CPU arithmetic never overflows. Then the baseline is what it was. Otherwise the sample is later than the baseline, used and available bytes add
  up to a total that is not zero, and the baseline becomes the new counters; the CPU value is the floor of
  the active share of the counter progress in hundredths of a percent, at most 10000, and the rates are the
  floor of the traffic of all interfaces per second, unless a counter went back, nothing progressed, or the
  set of interfaces changed, which is what the sample then says.
\<close>

theorem metrics_sample_exact:
  assumes "\<forall>b. p = Some b \<longrightarrow> baseline_ok b" and "sample p now raw = (r, p')"
  shows "case r of
      Inl e \<Rightarrow> p' = p \<and> sample_error p now raw e
    | Inr s \<Rightarrow>
        (case p' of
           None \<Rightarrow> False
         | Some b' \<Rightarrow>
             baseline_ok b' \<and> base_sampled_at b' = now \<and> sampled_at s = now \<and>
             parse_proc_stat (proc_stat raw) = Inr (base_cpu b') \<and>
             parse_net_dev (proc_net_dev raw) = Inr (base_network b') \<and>
             mem_used_bytes (memory s) + mem_available_bytes (memory s) = mem_total_bytes (memory s) \<and>
             0 < mem_total_bytes (memory s) \<and>
             disk_used_bytes (root_disk s) + disk_available_bytes (root_disk s) = disk_total_bytes (root_disk s) \<and>
             0 < disk_total_bytes (root_disk s) \<and> mount (root_disk s) = U ''/'' \<and>
             (case p of
                None \<Rightarrow> cpu s = UnavailableValue InitialBaseline \<and> network s = UnavailableValue InitialBaseline
              | Some b \<Rightarrow>
                  base_sampled_at b < now \<and> cpu s = cpu_spec (base_cpu b) (base_cpu b') \<and>
                  (\<forall>n. cpu s = Available n \<longrightarrow> n \<le> 10000) \<and>
                  network s = network_spec (base_network b) (base_network b') (now - base_sampled_at b)))"
proof (cases r)
  case (Inl e)
  then show ?thesis using sample_failed [of p now raw e p'] assms by simp
next
  case (Inr s)
  then obtain counters mem interfaces disk c n where
    parse: "parse_proc_stat (proc_stat raw) = Inr counters" "parse_meminfo (proc_meminfo raw) = Inr mem"
      "parse_net_dev (proc_net_dev raw) = Inr interfaces" "parse_root_df (root_df raw) = Inr disk" and
    vals: "sample_values p now counters interfaces = Inr (c, n)" and
    s: "s = \<lparr>provider_id = ''linux-procfs'', provider_version = 1, sampled_at = now, cpu = c, memory = mem,
                   network = n, root_disk = disk\<rparr>"
       "p' = Some \<lparr>base_sampled_at = now, base_cpu = counters, base_network = interfaces\<rparr>"
    using assms(2) by (auto simp: sample_def bind_result_ok split: sum.splits prod.splits)
  note ok = parse_proc_stat_ok [OF parse(1)] parse_meminfo_ok [OF parse(2)] parse_root_df_ok [OF parse(4)]
  have "case p of
      None \<Rightarrow> c = UnavailableValue InitialBaseline \<and> n = UnavailableValue InitialBaseline
    | Some b \<Rightarrow> base_sampled_at b < now \<and> c = cpu_spec (base_cpu b) counters \<and> (\<forall>m. c = Available m \<longrightarrow> m \<le> 10000) \<and>
        n = network_spec (base_network b) interfaces (now - base_sampled_at b)"
  proof (cases p)
    case None
    then show ?thesis using vals by (simp add: sample_values_def)
  next
    case (Some b)
    then have "baseline_ok b" using assms(1) by simp
    from sample_values_exact [OF vals [unfolded Some] this] ok show ?thesis
      by (auto simp: Some dest: cpu_spec_bounded)
  qed
  then show ?thesis using ok parse by (auto simp: Inr s baseline_ok_def split: option.splits)
qed

definition sample_raw :: LinuxRawSample where
  "sample_raw =
     \<lparr>proc_stat = as_bytes (U ''cpu 10 0 10 70 10 0 0 0''),
      proc_meminfo = as_bytes (U ''MemTotal: 1000 kB'' @ [10] @ U ''MemAvailable: 800 kB''),
      proc_net_dev = as_bytes (U ''a'' @ [10] @ U ''b'' @ [10] @ U ''e: 5 0 0 0 0 0 0 0 6 0 0 0 0 0 0 0''),
      root_df = as_bytes (U ''Fs 1024-blocks Used Available Capacity Mounted on'' @ [10] @ U ''r 10 2 8 25% /'')\<rparr>"

definition sample_baseline :: Baseline where
  "sample_baseline = \<lparr>base_sampled_at = 0, base_cpu = [0, 0, 0, 0, 0, 0, 0, 0],
     base_network = [(U ''e'', \<lparr>receive_bytes = 1, transmit_bytes = 2\<rparr>)]\<rparr>"

theorem metrics_sample_exact_witness:
  "\<exists>s b'. sample (Some sample_baseline) 2000000000 sample_raw = (Inr s, Some b') \<and>
     cpu s = cpu_spec (base_cpu sample_baseline) (base_cpu b')"
proof -
  have ok: "\<forall>b. Some sample_baseline = Some b \<longrightarrow> baseline_ok b" by (simp add: sample_baseline_def baseline_ok_def)
  have "is_ok (fst (sample (Some sample_baseline) 2000000000 sample_raw))" by code_simp
  then obtain s p' where run: "sample (Some sample_baseline) 2000000000 sample_raw = (Inr s, p')"
    by (cases "sample (Some sample_baseline) 2000000000 sample_raw") (auto simp: is_ok_def split: sum.splits)
  from metrics_sample_exact [OF ok run] show ?thesis using run by (auto split: option.splits)
qed

end
