(* ===== verification/SyncCrypto.thy ===== *)
theory SyncCrypto
  imports SyncValidate
begin

text \<open>
  The encryption of profile bundles, \<open>crates/ssh-profile-sync/src/crypto.rs\<close>, \<open>secret.rs\<close> and
  \<open>offline_backup.rs\<close>: which bytes are sealed under which key, nonce and associated data, and
  what is checked before and after a body is opened. The cipher, the key derivation, the hash, base64, the random source and
  the JSON encoding are other packages: they are the records \<open>crypto\<close> and \<open>wire_json\<close>, an argument of
  every definition, with what they document as the predicates \<open>crypto_ok\<close> and \<open>json_ok\<close>. The \<open>i\<close>-th request for
  random bytes has its own answer, so every definition that draws takes the number of its first request.
\<close>

section \<open>Data\<close>

datatype SyncEnvelopeFormat = SyncEnvelopeV1
datatype RecoveryEnvelopeFormat = RecoveryEnvelopeV1
datatype CipherId = XChaCha20Poly1305V1
datatype RecoveryKdfId = Argon2idSyncRecoveryV1
datatype SyncObjectKind = SshProfileBundle

record SyncObjectBinding =
  application_id :: ustring
  account_id :: ustring
  object_schema :: BundleSchema
  object_kind :: SyncObjectKind
  object_revision :: u64
  object_base_revision :: "u64 option"
  object_base_etag :: "ustring option"
  key_version :: u32

record EncryptedSyncObject =
  algorithm :: ustring
  nonce_base64url :: ustring
  sealed :: "u8 list"
  ciphertext_sha256 :: ustring

record RecoveryEnvelopeUpload =
  upload_algorithm :: ustring
  upload_kdf :: ustring
  upload_salt_base64url :: ustring
  upload_nonce_base64url :: ustring
  upload_aad :: ustring
  upload_ciphertext :: "u8 list"
  upload_ciphertext_sha256 :: ustring

record RecoveryOwnerBinding =
  owner_application_id :: ustring
  owner_account_id :: ustring
  owner_key_version :: u32

record SyncEnvelope =
  envelope_format :: SyncEnvelopeFormat
  envelope_cipher :: CipherId
  envelope_nonce :: ustring
  envelope_binding :: SyncObjectBinding
  envelope_ciphertext :: ustring

record RecoveryKdfHeader =
  kdf_id :: RecoveryKdfId
  memory_kib :: u32
  kdf_iterations :: u32
  kdf_parallelism :: u32
  output_bytes :: u32
  kdf_salt :: ustring

record RecoveryEnvelope =
  recovery_format :: RecoveryEnvelopeFormat
  recovery_owner :: RecoveryOwnerBinding
  recovery_kdf :: RecoveryKdfHeader
  recovery_cipher :: CipherId
  recovery_nonce :: ustring
  recovery_ciphertext :: ustring

record RecoveryAad =
  aad_format :: RecoveryEnvelopeFormat
  aad_owner :: RecoveryOwnerBinding
  aad_kdf :: RecoveryKdfHeader
  aad_cipher :: CipherId
  aad_nonce :: ustring

record OfflineBackupEnvelope =
  backup_format :: ustring
  backup_kdf :: ustring
  backup_cipher :: ustring
  backup_salt :: ustring
  backup_nonce :: ustring
  backup_ciphertext :: ustring

section \<open>Other packages\<close>

record crypto =
  aead_seal :: "u8 list \<Rightarrow> u8 list \<Rightarrow> u8 list \<Rightarrow> u8 list \<Rightarrow> u8 list option"
  aead_open :: "u8 list \<Rightarrow> u8 list \<Rightarrow> u8 list \<Rightarrow> u8 list \<Rightarrow> u8 list option"
  argon2id :: "nat \<Rightarrow> nat \<Rightarrow> nat \<Rightarrow> nat \<Rightarrow> u8 list \<Rightarrow> u8 list \<Rightarrow> u8 list option"
  sha256 :: "u8 list \<Rightarrow> u8 list"
  base64_encode :: "u8 list \<Rightarrow> ustring"
  base64_decode :: "ustring \<Rightarrow> u8 list option"
  base64url_encode :: "u8 list \<Rightarrow> ustring"
  base64url_decode :: "ustring \<Rightarrow> u8 list option"
  getrandom :: "nat \<Rightarrow> nat \<Rightarrow> u8 list option"

record 'v wire_json =
  binding_to_json :: "SyncObjectBinding \<Rightarrow> u8 list option"
  aad_to_json :: "RecoveryAad \<Rightarrow> u8 list option"
  bundle_to_json :: "'v PortableBundleV1 \<Rightarrow> u8 list option"
  bundle_from_json :: "u8 list \<Rightarrow> 'v PortableBundleV1 option"
  envelope_to_json :: "SyncEnvelope \<Rightarrow> u8 list option"
  envelope_from_json :: "u8 list \<Rightarrow> SyncEnvelope option"
  recovery_to_json :: "RecoveryEnvelope \<Rightarrow> u8 list option"
  recovery_from_json :: "u8 list \<Rightarrow> RecoveryEnvelope option"
  backup_to_json :: "OfflineBackupEnvelope \<Rightarrow> u8 list option"
  backup_from_json :: "u8 list \<Rightarrow> OfflineBackupEnvelope option"

text \<open>
  The cipher opens what it sealed and adds a tag of 16 bytes; a derived key has the requested length, and so have
  random bytes; a digest has 32 bytes; base64 decodes what it encoded, and the padded form of n bytes has four characters
  for every three bytes or part of them.
\<close>

definition base64_len :: "nat \<Rightarrow> nat" where
  "base64_len n = (n + 2) div 3 * 4"

definition crypto_ok :: "crypto \<Rightarrow> bool" where
  "crypto_ok C \<longleftrightarrow>
     (\<forall>k n a m c. aead_seal C k n a m = Some c \<longrightarrow> aead_open C k n a c = Some m \<and> length c = length m + 16) \<and>
     (\<forall>mem t p l pw s k. argon2id C mem t p l pw s = Some k \<longrightarrow> length k = l) \<and>
     (\<forall>i l bs. getrandom C i l = Some bs \<longrightarrow> length bs = l) \<and>
     (\<forall>bs. length (sha256 C bs) = 32) \<and>
     (\<forall>bs. base64_decode C (base64_encode C bs) = Some bs \<and> str_len (base64_encode C bs) = base64_len (length bs)) \<and>
     (\<forall>bs. base64url_decode C (base64url_encode C bs) = Some bs)"

text \<open>
  JSON reads back what it wrote. A recovery envelope is not longer than a fixed frame and six bytes for
  every byte of its texts, the longest escape; a backup is longer than its ciphertext text, which it contains.
\<close>

definition json_ok :: "'v wire_json \<Rightarrow> bool" where
  "json_ok W \<longleftrightarrow>
     (\<forall>x bs. envelope_to_json W x = Some bs \<longrightarrow> envelope_from_json W bs = Some x) \<and>
     (\<forall>x bs. recovery_to_json W x = Some bs \<longrightarrow> recovery_from_json W bs = Some x \<and>
        length bs \<le> 1024 + 6 * (str_len (owner_application_id (recovery_owner x)) +
          str_len (owner_account_id (recovery_owner x)) + str_len (kdf_salt (recovery_kdf x)) +
          str_len (recovery_nonce x) + str_len (recovery_ciphertext x))) \<and>
     (\<forall>x bs. backup_to_json W x = Some bs \<longrightarrow> backup_from_json W bs = Some x \<and>
        str_len (backup_ciphertext x) < length bs)"

section \<open>Secrets\<close>

definition MAX_SECRET_BYTES :: nat where "MAX_SECRET_BYTES = 16 * 1024 * 1024"

definition SecretBytes_new :: "u8 list \<Rightarrow> SyncCodecError + u8 list" where
  "SecretBytes_new v =
     (if v = [] then Inl (InvalidBundle ''secret payload is empty'')
      else if length v > MAX_SECRET_BYTES then Inl (BoundExceeded ''secret payload'')
      else Inr v)"

definition SecretBytes_serialize :: "crypto \<Rightarrow> u8 list \<Rightarrow> ustring" where
  "SecretBytes_serialize C v = base64_encode C v"

text \<open>The error of a deserializer is its message.\<close>

definition SecretBytes_deserialize :: "crypto \<Rightarrow> ustring \<Rightarrow> SyncCodecError + u8 list" where
  "SecretBytes_deserialize C encoded =
     (if str_len encoded > base64_len MAX_SECRET_BYTES + 4 then Inl Serialization
      else bind_result (ok_or Serialization (base64_decode C encoded)) (\<lambda>decoded.
        if base64_encode C decoded \<noteq> encoded then Inl Serialization
        else case SecretBytes_new decoded of Inl _ \<Rightarrow> Inl Serialization | Inr v \<Rightarrow> Inr v))"

definition fill_random :: "crypto \<Rightarrow> nat \<Rightarrow> nat \<Rightarrow> SyncCodecError + u8 list" where
  "fill_random C i n = ok_or Random (getrandom C i n)"

definition SyncKey_generate :: "crypto \<Rightarrow> nat \<Rightarrow> SyncCodecError + u8 list" where
  "SyncKey_generate C i = fill_random C i 32"

definition baseline_digest :: "crypto \<Rightarrow> u8 list \<Rightarrow> u8 list \<Rightarrow> u8 list" where
  "baseline_digest C key bytes =
     (let pad = (\<lambda>b. map (\<lambda>i. if i < length key then xor b (key ! i) else b) [0..<64]);
          inner = sha256 C (pad 0x36 @ as_bytes (U ''norishell:ssh-sync:baseline:v1'' @ [0]) @ bytes) in
      sha256 C (pad 0x5C @ inner))"

definition RecoveryPassword_new :: "u8 list \<Rightarrow> SyncCodecError + u8 list" where
  "RecoveryPassword_new v =
     (if \<not> (8 \<le> length v \<and> length v \<le> 65536) then Inl InvalidRecoveryPassword else Inr v)"

section \<open>Checks and texts\<close>

definition KEY_BYTES :: nat where "KEY_BYTES = 32"
definition NONCE_BYTES :: nat where "NONCE_BYTES = 24"
definition SALT_BYTES :: nat where "SALT_BYTES = 16"
definition KDF_MEMORY_KIB :: u32 where "KDF_MEMORY_KIB = 65536"
definition KDF_ITERATIONS :: u32 where "KDF_ITERATIONS = 3"
definition KDF_PARALLELISM :: u32 where "KDF_PARALLELISM = 1"
definition KDF_OUTPUT_BYTES :: u32 where "KDF_OUTPUT_BYTES = 32"
definition MAX_BUNDLE_PLAINTEXT_BYTES :: nat where "MAX_BUNDLE_PLAINTEXT_BYTES = 64 * 1024 * 1024"
definition MAX_ENVELOPE_BYTES :: nat where "MAX_ENVELOPE_BYTES = 96 * 1024 * 1024"
definition MAX_OWNER_TEXT_BYTES :: nat where "MAX_OWNER_TEXT_BYTES = 512"
definition MAX_ETAG_BYTES :: nat where "MAX_ETAG_BYTES = 1024"
definition SERVICE_SYNC_ALGORITHM :: ustring where "SERVICE_SYNC_ALGORITHM = U ''xchacha20poly1305-ietf''"
definition SERVICE_RECOVERY_ALGORITHM :: ustring where
  "SERVICE_RECOVERY_ALGORITHM = U ''xchacha20poly1305-recovery-v1''"
definition SERVICE_RECOVERY_KDF :: ustring where "SERVICE_RECOVERY_KDF = U ''argon2id-v1:m=65536,t=3,p=1,l=32''"
definition SERVICE_RECOVERY_AAD_PREFIX :: ustring where "SERVICE_RECOVERY_AAD_PREFIX = U ''norishell:ssh-recovery:v1''"

definition validate_owner_text :: "ustring \<Rightarrow> string \<Rightarrow> SyncCodecError + unit" where
  "validate_owner_text v field =
     fail_if (v = [] \<or> str_len v > MAX_OWNER_TEXT_BYTES \<or> list_ex is_control v) (InvalidBundle field)"

definition etag_ok :: "ustring option \<Rightarrow> bool" where
  "etag_ok t \<longleftrightarrow>
     (case t of
        None \<Rightarrow> True
      | Some e \<Rightarrow> \<not> (e = [] \<or> str_len e > MAX_ETAG_BYTES \<or> list_ex is_control e))"

definition base_not_lower :: "u64 option \<Rightarrow> u64 \<Rightarrow> bool" where
  "base_not_lower base later = (case base of None \<Rightarrow> False | Some b \<Rightarrow> b \<ge> later)"

definition SyncObjectBinding_validate :: "SyncObjectBinding \<Rightarrow> SyncCodecError + unit" where
  "SyncObjectBinding_validate b =
     seq_checks
      [validate_owner_text (application_id b) ''application ID'',
       validate_owner_text (account_id b) ''account ID'',
       fail_if (object_revision b = 0) (InvalidBundle ''revision must be positive''),
       fail_if (base_not_lower (object_base_revision b) (object_revision b))
         (InvalidBundle ''base revision must be positive and lower than revision''),
       fail_if (key_version b = 0) (InvalidBundle ''sync key version must be positive''),
       fail_if (\<not> etag_ok (object_base_etag b)) (InvalidBundle ''invalid base etag'')]"

definition RecoveryOwnerBinding_validate :: "RecoveryOwnerBinding \<Rightarrow> SyncCodecError + unit" where
  "RecoveryOwnerBinding_validate w =
     seq_checks
      [validate_owner_text (owner_application_id w) ''application ID'',
       validate_owner_text (owner_account_id w) ''account ID'',
       fail_if (owner_key_version w = 0) (InvalidBundle ''sync key version must be positive'')]"

definition bytes_to_hex :: "u8 list \<Rightarrow> ustring" where
  "bytes_to_hex bs = concat (map (\<lambda>b. [hex_digit (unat b div 16), hex_digit (unat b mod 16)]) bs)"

definition sha256_hex :: "crypto \<Rightarrow> u8 list \<Rightarrow> ustring" where
  "sha256_hex C bs = bytes_to_hex (sha256 C bs)"

definition decode_bounded_base64 :: "crypto \<Rightarrow> ustring \<Rightarrow> nat \<Rightarrow> string \<Rightarrow> SyncCodecError + u8 list" where
  "decode_bounded_base64 C v max_bytes field =
     (if str_len v > base64_len max_bytes + 4 then Inl (BoundExceeded field)
      else bind_result (ok_or (InvalidBundle field) (base64_decode C v)) (\<lambda>decoded.
        if length decoded > max_bytes then Inl (BoundExceeded field)
        else if base64_encode C decoded \<noteq> v then Inl (InvalidBundle field)
        else Inr decoded))"

definition decode_fixed :: "crypto \<Rightarrow> nat \<Rightarrow> ustring \<Rightarrow> string \<Rightarrow> SyncCodecError + u8 list" where
  "decode_fixed C n v field =
     bind_result (decode_bounded_base64 C v n field) (\<lambda>decoded.
       if length decoded = n then Inr decoded else Inl (InvalidBundle field))"

definition decode_base64url_fixed :: "crypto \<Rightarrow> nat \<Rightarrow> ustring \<Rightarrow> string \<Rightarrow> SyncCodecError + u8 list" where
  "decode_base64url_fixed C n v field =
     bind_result (ok_or (InvalidBundle field) (base64url_decode C v)) (\<lambda>decoded.
       if base64url_encode C decoded \<noteq> v then Inl (InvalidBundle field)
       else if length decoded = n then Inr decoded else Inl (InvalidBundle field))"

text \<open>\<open>new_from_slice\<close> refuses a key of another length.\<close>

definition encrypt_with ::
    "crypto \<Rightarrow> SyncCodecError \<Rightarrow> u8 list \<Rightarrow> u8 list \<Rightarrow> u8 list \<Rightarrow> u8 list \<Rightarrow> SyncCodecError + u8 list" where
  "encrypt_with C e key nonce aad msg =
     (if length key \<noteq> KEY_BYTES then Inl e else ok_or AuthenticationFailed (aead_seal C key nonce aad msg))"

definition decrypt_with ::
    "crypto \<Rightarrow> SyncCodecError \<Rightarrow> u8 list \<Rightarrow> u8 list \<Rightarrow> u8 list \<Rightarrow> u8 list \<Rightarrow> SyncCodecError + u8 list" where
  "decrypt_with C e key nonce aad ct =
     (if length key \<noteq> KEY_BYTES then Inl e else ok_or AuthenticationFailed (aead_open C key nonce aad ct))"

section \<open>Bundles\<close>

definition canonical_bundle_bytes ::
    "'v json_api \<Rightarrow> 'v wire_json \<Rightarrow> 'v PortableBundleV1 \<Rightarrow> SyncCodecError + u8 list" where
  "canonical_bundle_bytes J W b =
     bind_result (canonicalized J b) (\<lambda>canonical.
     bind_result (ok_or Serialization (bundle_to_json W canonical)) (\<lambda>bytes.
       if length bytes > MAX_BUNDLE_PLAINTEXT_BYTES then Inl (BoundExceeded ''canonical bundle plaintext'')
       else Inr bytes))"

definition decode_bundle ::
    "'v json_api \<Rightarrow> 'v wire_json \<Rightarrow> u8 list \<Rightarrow> SyncCodecError + 'v PortableBundleV1" where
  "decode_bundle J W bytes =
     (if length bytes > MAX_BUNDLE_PLAINTEXT_BYTES then Inl (BoundExceeded ''bundle plaintext'')
      else bind_result (ok_or Serialization (bundle_from_json W bytes)) (\<lambda>b.
           bind_result (validate J b) (\<lambda>_. Inr b)))"

definition canonical_bundle_digest ::
    "crypto \<Rightarrow> 'v json_api \<Rightarrow> 'v wire_json \<Rightarrow> 'v PortableBundleV1 \<Rightarrow> SyncCodecError + u8 list" where
  "canonical_bundle_digest C J W b =
     bind_result (canonical_bundle_bytes J W b) (\<lambda>bytes. Inr (sha256 C bytes))"

definition binding_matches :: "'v PortableBundleV1 \<Rightarrow> SyncObjectBinding \<Rightarrow> SyncCodecError + unit" where
  "binding_matches b binding =
     fail_if (object_revision binding \<noteq> revision b \<or> object_schema binding \<noteq> schema b) BindingMismatch"

definition encrypt_bundle ::
    "crypto \<Rightarrow> 'v json_api \<Rightarrow> 'v wire_json \<Rightarrow> 'v PortableBundleV1 \<Rightarrow> u8 list \<Rightarrow> u8 list \<Rightarrow> SyncObjectBinding \<Rightarrow>
     SyncCodecError + u8 list" where
  "encrypt_bundle C J W b key nonce binding =
     bind_result (SyncObjectBinding_validate binding) (\<lambda>_.
     bind_result (binding_matches b binding) (\<lambda>_.
     bind_result (canonical_bundle_bytes J W b) (\<lambda>plaintext.
     bind_result (ok_or Serialization (binding_to_json W binding)) (\<lambda>aad.
     bind_result (encrypt_with C InvalidSyncKey key nonce aad plaintext) (\<lambda>ct.
       ok_or Serialization (envelope_to_json W
         \<lparr>envelope_format = SyncEnvelopeV1, envelope_cipher = XChaCha20Poly1305V1,
          envelope_nonce = base64_encode C nonce, envelope_binding = binding,
          envelope_ciphertext = base64_encode C ct\<rparr>))))))"

definition encrypt_bundle_random ::
    "crypto \<Rightarrow> 'v json_api \<Rightarrow> 'v wire_json \<Rightarrow> nat \<Rightarrow> 'v PortableBundleV1 \<Rightarrow> u8 list \<Rightarrow> SyncObjectBinding \<Rightarrow>
     SyncCodecError + u8 list" where
  "encrypt_bundle_random C J W i b key binding =
     bind_result (fill_random C i NONCE_BYTES) (\<lambda>nonce. encrypt_bundle C J W b key nonce binding)"

definition encrypt_bundle_for_service ::
    "crypto \<Rightarrow> 'v json_api \<Rightarrow> 'v wire_json \<Rightarrow> nat \<Rightarrow> 'v PortableBundleV1 \<Rightarrow> u8 list \<Rightarrow> SyncObjectBinding \<Rightarrow>
     SyncCodecError + EncryptedSyncObject" where
  "encrypt_bundle_for_service C J W i b key binding =
     bind_result (SyncObjectBinding_validate binding) (\<lambda>_.
     bind_result (binding_matches b binding) (\<lambda>_.
     bind_result (fill_random C i NONCE_BYTES) (\<lambda>nonce.
     bind_result (canonical_bundle_bytes J W b) (\<lambda>plaintext.
     bind_result (ok_or Serialization (binding_to_json W binding)) (\<lambda>aad.
     bind_result (encrypt_with C InvalidSyncKey key nonce aad plaintext) (\<lambda>ct.
       Inr \<lparr>algorithm = SERVICE_SYNC_ALGORITHM, nonce_base64url = base64url_encode C nonce, sealed = ct,
            ciphertext_sha256 = sha256_hex C ct\<rparr>))))))"

definition decrypt_bundle_from_service ::
    "crypto \<Rightarrow> 'v json_api \<Rightarrow> 'v wire_json \<Rightarrow> EncryptedSyncObject \<Rightarrow> u8 list \<Rightarrow> SyncObjectBinding \<Rightarrow>
     SyncCodecError + 'v PortableBundleV1" where
  "decrypt_bundle_from_service C J W encrypted key expected =
     bind_result (SyncObjectBinding_validate expected) (\<lambda>_.
     bind_result (fail_if (algorithm encrypted \<noteq> SERVICE_SYNC_ALGORITHM \<or>
         length (sealed encrypted) > MAX_BUNDLE_PLAINTEXT_BYTES + 16 \<or>
         sha256_hex C (sealed encrypted) \<noteq> ciphertext_sha256 encrypted) AuthenticationFailed) (\<lambda>_.
     bind_result (decode_base64url_fixed C NONCE_BYTES (nonce_base64url encrypted) ''sync nonce'') (\<lambda>nonce.
     bind_result (ok_or Serialization (binding_to_json W expected)) (\<lambda>aad.
     bind_result (decrypt_with C InvalidSyncKey key nonce aad (sealed encrypted)) (\<lambda>plaintext.
     bind_result (decode_bundle J W plaintext) (\<lambda>b.
     bind_result (binding_matches b expected) (\<lambda>_. Inr b)))))))"

definition decrypt_bundle ::
    "crypto \<Rightarrow> 'v json_api \<Rightarrow> 'v wire_json \<Rightarrow> u8 list \<Rightarrow> u8 list \<Rightarrow> SyncObjectBinding \<Rightarrow>
     SyncCodecError + 'v PortableBundleV1" where
  "decrypt_bundle C J W envelope_bytes key expected =
     (if length envelope_bytes > MAX_ENVELOPE_BYTES then Inl (BoundExceeded ''sync envelope'')
      else
        bind_result (SyncObjectBinding_validate expected) (\<lambda>_.
        bind_result (ok_or Serialization (envelope_from_json W envelope_bytes)) (\<lambda>envelope.
        bind_result (fail_if (envelope_binding envelope \<noteq> expected) BindingMismatch) (\<lambda>_.
        bind_result (decode_fixed C NONCE_BYTES (envelope_nonce envelope) ''sync nonce'') (\<lambda>nonce.
        bind_result (decode_bounded_base64 C (envelope_ciphertext envelope) (MAX_BUNDLE_PLAINTEXT_BYTES + 16)
            ''sync ciphertext'') (\<lambda>ct.
        bind_result (ok_or Serialization (binding_to_json W expected)) (\<lambda>aad.
        bind_result (decrypt_with C InvalidSyncKey key nonce aad ct) (\<lambda>plaintext.
        bind_result (decode_bundle J W plaintext) (\<lambda>b.
        bind_result (binding_matches b expected) (\<lambda>_. Inr b))))))))))"

section \<open>Recovery of the key\<close>

definition validate_recovery_kdf :: "crypto \<Rightarrow> RecoveryKdfHeader \<Rightarrow> SyncCodecError + unit" where
  "validate_recovery_kdf C kdf =
     (if kdf_id kdf \<noteq> Argon2idSyncRecoveryV1 \<or> memory_kib kdf \<noteq> KDF_MEMORY_KIB \<or>
         kdf_iterations kdf \<noteq> KDF_ITERATIONS \<or> kdf_parallelism kdf \<noteq> KDF_PARALLELISM \<or>
         output_bytes kdf \<noteq> KDF_OUTPUT_BYTES
      then Inl UnsupportedKdfProfile
      else bind_result (decode_fixed C SALT_BYTES (kdf_salt kdf) ''recovery salt'') (\<lambda>_. Inr ()))"

definition derive_service_recovery_key :: "crypto \<Rightarrow> u8 list \<Rightarrow> u8 list \<Rightarrow> SyncCodecError + u8 list" where
  "derive_service_recovery_key C password salt =
     ok_or KeyDerivation (argon2id C (unat KDF_MEMORY_KIB) (unat KDF_ITERATIONS) (unat KDF_PARALLELISM) KEY_BYTES
       password salt)"

definition derive_recovery_key :: "crypto \<Rightarrow> u8 list \<Rightarrow> RecoveryKdfHeader \<Rightarrow> SyncCodecError + u8 list" where
  "derive_recovery_key C password kdf =
     bind_result (validate_recovery_kdf C kdf) (\<lambda>_.
     bind_result (decode_fixed C SALT_BYTES (kdf_salt kdf) ''recovery salt'') (\<lambda>salt.
       ok_or KeyDerivation (argon2id C (unat KDF_MEMORY_KIB) (unat KDF_ITERATIONS) (unat KDF_PARALLELISM) KEY_BYTES
         password salt)))"

definition create_recovery_envelope ::
    "crypto \<Rightarrow> 'v wire_json \<Rightarrow> u8 list \<Rightarrow> u8 list \<Rightarrow> RecoveryOwnerBinding \<Rightarrow> u8 list \<Rightarrow> u8 list \<Rightarrow>
     SyncCodecError + u8 list" where
  "create_recovery_envelope C W sync_key password owner salt nonce =
     bind_result (RecoveryOwnerBinding_validate owner) (\<lambda>_.
       let kdf = \<lparr>kdf_id = Argon2idSyncRecoveryV1, memory_kib = KDF_MEMORY_KIB, kdf_iterations = KDF_ITERATIONS,
             kdf_parallelism = KDF_PARALLELISM, output_bytes = KDF_OUTPUT_BYTES, kdf_salt = base64_encode C salt\<rparr>;
           nonce_encoded = base64_encode C nonce in
       bind_result (ok_or Serialization (aad_to_json W
         \<lparr>aad_format = RecoveryEnvelopeV1, aad_owner = owner, aad_kdf = kdf, aad_cipher = XChaCha20Poly1305V1,
          aad_nonce = nonce_encoded\<rparr>)) (\<lambda>aad.
       bind_result (derive_recovery_key C password kdf) (\<lambda>recovery_key.
       bind_result (encrypt_with C InvalidSyncKey recovery_key nonce aad sync_key) (\<lambda>ct.
         ok_or Serialization (recovery_to_json W
           \<lparr>recovery_format = RecoveryEnvelopeV1, recovery_owner = owner, recovery_kdf = kdf,
            recovery_cipher = XChaCha20Poly1305V1, recovery_nonce = nonce_encoded,
            recovery_ciphertext = base64_encode C ct\<rparr>)))))"

definition create_recovery_envelope_random ::
    "crypto \<Rightarrow> 'v wire_json \<Rightarrow> nat \<Rightarrow> u8 list \<Rightarrow> u8 list \<Rightarrow> RecoveryOwnerBinding \<Rightarrow> SyncCodecError + u8 list" where
  "create_recovery_envelope_random C W i sync_key password owner =
     bind_result (fill_random C i SALT_BYTES) (\<lambda>salt.
     bind_result (fill_random C (i + 1) NONCE_BYTES) (\<lambda>nonce.
       create_recovery_envelope C W sync_key password owner salt nonce))"

definition open_recovery_envelope ::
    "crypto \<Rightarrow> 'v wire_json \<Rightarrow> u8 list \<Rightarrow> u8 list \<Rightarrow> RecoveryOwnerBinding \<Rightarrow> SyncCodecError + u8 list" where
  "open_recovery_envelope C W envelope_bytes password expected =
     (if length envelope_bytes > 64 * 1024 then Inl (BoundExceeded ''recovery envelope'')
      else
        bind_result (RecoveryOwnerBinding_validate expected) (\<lambda>_.
        bind_result (ok_or Serialization (recovery_from_json W envelope_bytes)) (\<lambda>envelope.
        bind_result (fail_if (recovery_owner envelope \<noteq> expected) BindingMismatch) (\<lambda>_.
        bind_result (validate_recovery_kdf C (recovery_kdf envelope)) (\<lambda>_.
        bind_result (decode_fixed C NONCE_BYTES (recovery_nonce envelope) ''recovery nonce'') (\<lambda>nonce.
        bind_result (decode_bounded_base64 C (recovery_ciphertext envelope) (KEY_BYTES + 16) ''wrapped sync key'') (\<lambda>ct.
        bind_result (ok_or Serialization (aad_to_json W
          \<lparr>aad_format = recovery_format envelope, aad_owner = expected, aad_kdf = recovery_kdf envelope,
           aad_cipher = recovery_cipher envelope, aad_nonce = recovery_nonce envelope\<rparr>)) (\<lambda>aad.
        bind_result (derive_recovery_key C password (recovery_kdf envelope)) (\<lambda>recovery_key.
        bind_result (decrypt_with C InvalidSyncKey recovery_key nonce aad ct) (\<lambda>plaintext.
          if length plaintext \<noteq> KEY_BYTES then Inl InvalidSyncKey else Inr plaintext))))))))))"

text \<open>\<open>str::parse::<u64>\<close>.\<close>

definition parse_text_u64 :: "ustring \<Rightarrow> nat option" where
  "parse_text_u64 s =
     (let ds = (case s of c # cs \<Rightarrow> if c = 43 then cs else s | [] \<Rightarrow> []) in
      if ds = [] \<or> \<not> list_all is_ascii_digit ds \<or> digits_value 0 ds \<ge> 2 ^ 64 then None
      else Some (digits_value 0 ds))"

definition positive_account_id :: "ustring \<Rightarrow> SyncCodecError + nat" where
  "positive_account_id v =
     bind_result (ok_or (InvalidBundle ''account ID'')
         (case parse_text_u64 v of None \<Rightarrow> None | Some n \<Rightarrow> if n > 0 then Some n else None)) (\<lambda>parsed.
       if decimal parsed \<noteq> v then Inl (InvalidBundle ''account ID'') else Inr parsed)"

definition service_recovery_aad :: "RecoveryOwnerBinding \<Rightarrow> nat \<Rightarrow> ustring" where
  "service_recovery_aad owner account =
     SERVICE_RECOVERY_AAD_PREFIX @ U ''|application='' @ owner_application_id owner @ U ''|account='' @ decimal account @
     U ''|key_version='' @ decimal (unat (owner_key_version owner))"

definition create_recovery_envelope_for_service ::
    "crypto \<Rightarrow> nat \<Rightarrow> u8 list \<Rightarrow> u8 list \<Rightarrow> RecoveryOwnerBinding \<Rightarrow> SyncCodecError + RecoveryEnvelopeUpload" where
  "create_recovery_envelope_for_service C i sync_key password owner =
     bind_result (RecoveryOwnerBinding_validate owner) (\<lambda>_.
     bind_result (positive_account_id (owner_account_id owner)) (\<lambda>account.
     bind_result (fill_random C i SALT_BYTES) (\<lambda>salt.
     bind_result (fill_random C (i + 1) NONCE_BYTES) (\<lambda>nonce.
       let aad = service_recovery_aad owner account in
       bind_result (derive_service_recovery_key C password salt) (\<lambda>recovery_key.
       bind_result (encrypt_with C InvalidSyncKey recovery_key nonce (as_bytes aad) sync_key) (\<lambda>ct.
         Inr \<lparr>upload_algorithm = SERVICE_RECOVERY_ALGORITHM, upload_kdf = SERVICE_RECOVERY_KDF,
              upload_salt_base64url = base64url_encode C salt, upload_nonce_base64url = base64url_encode C nonce,
              upload_aad = aad, upload_ciphertext = ct, upload_ciphertext_sha256 = sha256_hex C ct\<rparr>))))))"

definition open_recovery_envelope_from_service ::
    "crypto \<Rightarrow> RecoveryEnvelopeUpload \<Rightarrow> u8 list \<Rightarrow> RecoveryOwnerBinding \<Rightarrow> SyncCodecError + u8 list" where
  "open_recovery_envelope_from_service C envelope password expected =
     bind_result (RecoveryOwnerBinding_validate expected) (\<lambda>_.
     bind_result (positive_account_id (owner_account_id expected)) (\<lambda>account.
       let expected_aad = service_recovery_aad expected account in
       bind_result (fail_if (upload_algorithm envelope \<noteq> SERVICE_RECOVERY_ALGORITHM \<or>
           upload_kdf envelope \<noteq> SERVICE_RECOVERY_KDF \<or> upload_aad envelope \<noteq> expected_aad \<or>
           length (upload_ciphertext envelope) \<noteq> KEY_BYTES + 16 \<or>
           sha256_hex C (upload_ciphertext envelope) \<noteq> upload_ciphertext_sha256 envelope) BindingMismatch) (\<lambda>_.
       bind_result (decode_base64url_fixed C SALT_BYTES (upload_salt_base64url envelope) ''recovery salt'') (\<lambda>salt.
       bind_result (decode_base64url_fixed C NONCE_BYTES (upload_nonce_base64url envelope) ''recovery nonce'') (\<lambda>nonce.
       bind_result (derive_service_recovery_key C password salt) (\<lambda>recovery_key.
       bind_result (decrypt_with C InvalidSyncKey recovery_key nonce (as_bytes expected_aad) (upload_ciphertext envelope))
         (\<lambda>plaintext. if length plaintext \<noteq> KEY_BYTES then Inl InvalidSyncKey else Inr plaintext)))))))"

section \<open>Offline backups\<close>

definition BACKUP_FORMAT :: ustring where "BACKUP_FORMAT = U ''norishell-offline-backup-v1''"
definition BACKUP_KDF :: ustring where "BACKUP_KDF = U ''argon2id-v1:m=65536,t=3,p=1''"
definition BACKUP_CIPHER :: ustring where "BACKUP_CIPHER = U ''xchacha20poly1305-v1''"
definition BACKUP_AAD :: "u8 list" where
  "BACKUP_AAD = as_bytes (U ''norishell:offline-backup:v1:argon2id-v1:m=65536,t=3,p=1:xchacha20poly1305-v1'')"
definition MAX_OFFLINE_BACKUP_PLAINTEXT_BYTES :: nat where
  "MAX_OFFLINE_BACKUP_PLAINTEXT_BYTES = 192 * 1024 * 1024"
definition MAX_OFFLINE_BACKUP_FILE_BYTES :: nat where "MAX_OFFLINE_BACKUP_FILE_BYTES = 256 * 1024 * 1024"

definition backup_derive_key :: "crypto \<Rightarrow> u8 list \<Rightarrow> u8 list \<Rightarrow> SyncCodecError + u8 list" where
  "backup_derive_key C password salt = ok_or KeyDerivation (argon2id C 65536 3 1 KEY_BYTES password salt)"

definition backup_decode_fixed :: "crypto \<Rightarrow> nat \<Rightarrow> ustring \<Rightarrow> string \<Rightarrow> SyncCodecError + u8 list" where
  "backup_decode_fixed C n v field =
     bind_result (ok_or (InvalidBundle field) (base64_decode C v)) (\<lambda>decoded.
       if base64_encode C decoded \<noteq> v then Inl (InvalidBundle field)
       else if length decoded = n then Inr decoded else Inl (InvalidBundle field))"

definition encrypt_offline_backup ::
    "crypto \<Rightarrow> 'v wire_json \<Rightarrow> nat \<Rightarrow> u8 list \<Rightarrow> u8 list \<Rightarrow> SyncCodecError + u8 list" where
  "encrypt_offline_backup C W i password plaintext =
     (if plaintext = [] then Inl (InvalidBundle ''offline backup payload is empty'')
      else if length plaintext > MAX_OFFLINE_BACKUP_PLAINTEXT_BYTES then Inl (BoundExceeded ''offline backup payload'')
      else
        bind_result (fill_random C i SALT_BYTES) (\<lambda>salt.
        bind_result (fill_random C (i + 1) NONCE_BYTES) (\<lambda>nonce.
        bind_result (backup_derive_key C password salt) (\<lambda>key.
        bind_result (encrypt_with C KeyDerivation key nonce BACKUP_AAD plaintext) (\<lambda>ct.
        bind_result (ok_or Serialization (backup_to_json W
          \<lparr>backup_format = BACKUP_FORMAT, backup_kdf = BACKUP_KDF, backup_cipher = BACKUP_CIPHER,
           backup_salt = base64_encode C salt, backup_nonce = base64_encode C nonce,
           backup_ciphertext = base64_encode C ct\<rparr>)) (\<lambda>encoded.
          if length encoded > MAX_OFFLINE_BACKUP_FILE_BYTES then Inl (BoundExceeded ''offline backup file'')
          else Inr encoded))))))"

definition decrypt_offline_backup ::
    "crypto \<Rightarrow> 'v wire_json \<Rightarrow> u8 list \<Rightarrow> u8 list \<Rightarrow> SyncCodecError + u8 list" where
  "decrypt_offline_backup C W password encoded =
     (if encoded = [] \<or> length encoded > MAX_OFFLINE_BACKUP_FILE_BYTES then Inl (BoundExceeded ''offline backup file'')
      else
        bind_result (ok_or Serialization (backup_from_json W encoded)) (\<lambda>envelope.
        bind_result (fail_if (backup_format envelope \<noteq> BACKUP_FORMAT \<or> backup_cipher envelope \<noteq> BACKUP_CIPHER)
            (InvalidBundle ''offline backup format'')) (\<lambda>_.
        bind_result (fail_if (backup_kdf envelope \<noteq> BACKUP_KDF) UnsupportedKdfProfile) (\<lambda>_.
        bind_result (backup_decode_fixed C SALT_BYTES (backup_salt envelope) ''offline backup salt'') (\<lambda>salt.
        bind_result (backup_decode_fixed C NONCE_BYTES (backup_nonce envelope) ''offline backup nonce'') (\<lambda>nonce.
        bind_result (fail_if (str_len (backup_ciphertext envelope) >
            base64_len (MAX_OFFLINE_BACKUP_PLAINTEXT_BYTES + 16) + 4) (BoundExceeded ''offline backup ciphertext'')) (\<lambda>_.
        bind_result (ok_or (InvalidBundle ''offline backup ciphertext'') (base64_decode C (backup_ciphertext envelope))) (\<lambda>ct.
        bind_result (fail_if (base64_encode C ct \<noteq> backup_ciphertext envelope)
            (InvalidBundle ''offline backup ciphertext'')) (\<lambda>_.
        bind_result (backup_derive_key C password salt) (\<lambda>key.
        bind_result (decrypt_with C KeyDerivation key nonce BACKUP_AAD ct) (\<lambda>plaintext.
          if plaintext = [] \<or> length plaintext > MAX_OFFLINE_BACKUP_PLAINTEXT_BYTES
          then Inl (BoundExceeded ''offline backup payload'') else Inr plaintext)))))))))))"

section \<open>Reading back\<close>

lemma crypto_okD:
  assumes "crypto_ok C"
  shows "argon2id C mem t p l pw s = Some k \<Longrightarrow> length k = l" "getrandom C i l = Some bs \<Longrightarrow> length bs = l"
    "length (sha256 C xs) = 32" "base64_decode C (base64_encode C xs) = Some xs"
    "str_len (base64_encode C xs) = base64_len (length xs)" "base64url_decode C (base64url_encode C xs) = Some xs"
  using assms unfolding crypto_ok_def by blast+

lemma encrypt_decrypt:
  assumes "crypto_ok C" "encrypt_with C e key nonce aad msg = Inr ct"
  shows "decrypt_with C e' key nonce aad ct = Inr msg" "length ct = length msg + 16"
  using assms by (auto simp: encrypt_with_def decrypt_with_def crypto_ok_def result_simps split: if_splits)

lemma base64_len_mono: "m \<le> n \<Longrightarrow> base64_len m \<le> base64_len n"
  by (simp add: base64_len_def div_le_mono)

lemma decode_encoded:
  assumes "crypto_ok C"
  shows "length bs \<le> n \<Longrightarrow> decode_bounded_base64 C (base64_encode C bs) n field = Inr bs"
    "length bs = n \<Longrightarrow> decode_fixed C n (base64_encode C bs) field = Inr bs"
    "length bs = n \<Longrightarrow> backup_decode_fixed C n (base64_encode C bs) field = Inr bs"
    "length bs = n \<Longrightarrow> decode_base64url_fixed C n (base64url_encode C bs) field = Inr bs"
proof -
  show bounded: "length bs \<le> n \<Longrightarrow> decode_bounded_base64 C (base64_encode C bs) n field = Inr bs" for n
    using base64_len_mono [of "length bs" n] crypto_okD [OF assms] by (simp add: decode_bounded_base64_def)
  show "length bs = n \<Longrightarrow> decode_fixed C n (base64_encode C bs) field = Inr bs"
    using bounded [of n] by (simp add: decode_fixed_def)
  show "length bs = n \<Longrightarrow> backup_decode_fixed C n (base64_encode C bs) field = Inr bs"
    "length bs = n \<Longrightarrow> decode_base64url_fixed C n (base64url_encode C bs) field = Inr bs"
    using crypto_okD [OF assms] by (simp_all add: backup_decode_fixed_def decode_base64url_fixed_def)
qed

lemma secret_reads_back:
  assumes "crypto_ok C" "SecretBytes_new v = Inr secret"
  shows "SecretBytes_deserialize C (SecretBytes_serialize C secret) = Inr v"
proof -
  from assms(2) have v: "secret = v" "v \<noteq> []" "length v \<le> MAX_SECRET_BYTES" by (auto simp: SecretBytes_new_def split: if_splits)
  then show ?thesis using crypto_okD(4,5) [OF assms(1)] base64_len_mono [OF v(3)]
    by (simp add: SecretBytes_deserialize_def SecretBytes_serialize_def SecretBytes_new_def)
qed

lemma fill_random_ok: "crypto_ok C \<Longrightarrow> fill_random C i n = Inr bs \<Longrightarrow> length bs = n"
  by (auto simp: fill_random_def result_simps dest: crypto_okD(2))

lemma canonical_valid:
  assumes "canonicalized J b = Inr c"
  shows "validate J c = Inr ()" "revision c = revision b" "schema c = schema b"
  using validate_mset [OF canonical_same_content [OF assms]] canonical_same_content(1) [OF assms]
  by (simp_all add: same_content_def)

text \<open>
  Whether JSON reads a bundle back depends on the numbers in its preferences, so it is a fact about that bundle.
\<close>

definition bundle_reads_back :: "'v wire_json \<Rightarrow> 'v PortableBundleV1 \<Rightarrow> bool" where
  "bundle_reads_back W b \<longleftrightarrow>
     (case bundle_to_json W b of None \<Rightarrow> True | Some bs \<Rightarrow> bundle_from_json W bs = Some b)"

lemma decode_canonical:
  assumes "canonical_bundle_bytes J W b = Inr bs" "canonicalized J b = Inr c" "bundle_reads_back W c"
  shows "decode_bundle J W bs = Inr c" "length bs \<le> MAX_BUNDLE_PLAINTEXT_BYTES"
  using assms canonical_valid(1) [OF assms(2)]
  by (auto simp: canonical_bundle_bytes_def decode_bundle_def bundle_reads_back_def result_simps split: if_splits option.splits)

lemma service_object_reads_back:
  assumes "crypto_ok C" "encrypt_bundle_for_service C J W i b key binding = Inr enc"
    "canonicalized J b = Inr c" "bundle_reads_back W c"
  shows "decrypt_bundle_from_service C J W enc key binding = Inr c"
    "length (sealed enc) \<le> MAX_BUNDLE_PLAINTEXT_BYTES + 16"
    "algorithm enc = SERVICE_SYNC_ALGORITHM" "ciphertext_sha256 enc = sha256_hex C (sealed enc)"
    "\<exists>nonce. nonce_base64url enc = base64url_encode C nonce"
proof -
  from assms(2) obtain nonce plaintext aad ct where
    ok: "SyncObjectBinding_validate binding = Inr ()" "binding_matches b binding = Inr ()"
      "fill_random C i NONCE_BYTES = Inr nonce" "canonical_bundle_bytes J W b = Inr plaintext"
      "binding_to_json W binding = Some aad" "encrypt_with C InvalidSyncKey key nonce aad plaintext = Inr ct"
    and enc: "enc = \<lparr>algorithm = SERVICE_SYNC_ALGORITHM, nonce_base64url = base64url_encode C nonce, sealed = ct,
            ciphertext_sha256 = sha256_hex C ct\<rparr>"
    by (auto simp: encrypt_bundle_for_service_def result_simps)
  have match: "binding_matches c binding = Inr ()" using ok(2) canonical_valid [OF assms(3)] by (simp add: binding_matches_def)
  note plain = decode_canonical [OF ok(4) assms(3,4)]
  note ed = encrypt_decrypt [OF assms(1) ok(6)]
  show "decrypt_bundle_from_service C J W enc key binding = Inr c"
    using ok ed plain match decode_encoded(4) [OF assms(1) fill_random_ok [OF assms(1) ok(3)]]
    by (simp add: enc decrypt_bundle_from_service_def fail_if_def)
  show "length (sealed enc) \<le> MAX_BUNDLE_PLAINTEXT_BYTES + 16" using ed plain by (simp add: enc)
qed (use assms(2) in \<open>auto simp: encrypt_bundle_for_service_def result_simps\<close>)

lemma envelope_reads_back:
  assumes "crypto_ok C" "json_ok W" "encrypt_bundle C J W b key nonce binding = Inr bytes" "length nonce = NONCE_BYTES"
    "canonicalized J b = Inr c" "bundle_reads_back W c" "length bytes \<le> MAX_ENVELOPE_BYTES"
  shows "decrypt_bundle C J W bytes key binding = Inr c"
proof -
  from assms(3) obtain plaintext aad ct where
    ok: "SyncObjectBinding_validate binding = Inr ()" "binding_matches b binding = Inr ()"
      "canonical_bundle_bytes J W b = Inr plaintext" "binding_to_json W binding = Some aad"
      "encrypt_with C InvalidSyncKey key nonce aad plaintext = Inr ct"
      "envelope_to_json W \<lparr>envelope_format = SyncEnvelopeV1, envelope_cipher = XChaCha20Poly1305V1,
          envelope_nonce = base64_encode C nonce, envelope_binding = binding,
          envelope_ciphertext = base64_encode C ct\<rparr> = Some bytes"
    by (auto simp: encrypt_bundle_def result_simps)
  have match: "binding_matches c binding = Inr ()" using ok(2) canonical_valid [OF assms(5)] by (simp add: binding_matches_def)
  note plain = decode_canonical [OF ok(3) assms(5,6)]
  note ed = encrypt_decrypt [OF assms(1) ok(5)]
  have json: "envelope_from_json W bytes = Some \<lparr>envelope_format = SyncEnvelopeV1, envelope_cipher = XChaCha20Poly1305V1,
          envelope_nonce = base64_encode C nonce, envelope_binding = binding,
          envelope_ciphertext = base64_encode C ct\<rparr>" using assms(2) ok(6) by (simp add: json_ok_def)
  show ?thesis
    using ok ed plain match json assms(7) decode_encoded(2) [OF assms(1,4)] decode_encoded(1) [OF assms(1)]
    by (simp add: decrypt_bundle_def fail_if_def)
qed

lemma json_okD:
  assumes "json_ok W"
  shows "recovery_to_json W x = Some bs \<Longrightarrow> recovery_from_json W bs = Some x"
    "recovery_to_json W x = Some bs \<Longrightarrow> length bs \<le> 1024 + 6 * (str_len (owner_application_id (recovery_owner x)) +
          str_len (owner_account_id (recovery_owner x)) + str_len (kdf_salt (recovery_kdf x)) +
          str_len (recovery_nonce x) + str_len (recovery_ciphertext x))"
    "backup_to_json W y = Some bs \<Longrightarrow> backup_from_json W bs = Some y"
    "backup_to_json W y = Some bs \<Longrightarrow> str_len (backup_ciphertext y) < length bs"
  using assms unfolding json_ok_def by blast+

lemma recovery_envelope_reads_back:
  assumes "crypto_ok C" "json_ok W" "create_recovery_envelope_random C W i key password owner = Inr bytes" "length key = KEY_BYTES"
  shows "open_recovery_envelope C W bytes password owner = Inr key" "length bytes \<le> 64 * 1024"
proof -
  from assms(3) obtain salt nonce where rand: "fill_random C i SALT_BYTES = Inr salt" "fill_random C (i + 1) NONCE_BYTES = Inr nonce"
    and create: "create_recovery_envelope C W key password owner salt nonce = Inr bytes"
    by (auto simp: create_recovery_envelope_random_def result_simps)
  note len = fill_random_ok [OF assms(1) rand(1)] fill_random_ok [OF assms(1) rand(2)]
  define kdf where "kdf = \<lparr>kdf_id = Argon2idSyncRecoveryV1, memory_kib = KDF_MEMORY_KIB, kdf_iterations = KDF_ITERATIONS,
             kdf_parallelism = KDF_PARALLELISM, output_bytes = KDF_OUTPUT_BYTES, kdf_salt = base64_encode C salt\<rparr>"
  from create obtain aad rkey ct where
    ok: "RecoveryOwnerBinding_validate owner = Inr ()"
      "aad_to_json W \<lparr>aad_format = RecoveryEnvelopeV1, aad_owner = owner, aad_kdf = kdf, aad_cipher = XChaCha20Poly1305V1,
          aad_nonce = base64_encode C nonce\<rparr> = Some aad"
      "derive_recovery_key C password kdf = Inr rkey" "encrypt_with C InvalidSyncKey rkey nonce aad key = Inr ct"
      "recovery_to_json W \<lparr>recovery_format = RecoveryEnvelopeV1, recovery_owner = owner, recovery_kdf = kdf,
            recovery_cipher = XChaCha20Poly1305V1, recovery_nonce = base64_encode C nonce,
            recovery_ciphertext = base64_encode C ct\<rparr> = Some bytes"
    by (auto simp: create_recovery_envelope_def kdf_def Let_def result_simps)
  note ed = encrypt_decrypt [OF assms(1) ok(4)]
  have json: "recovery_from_json W bytes = Some \<lparr>recovery_format = RecoveryEnvelopeV1, recovery_owner = owner, recovery_kdf = kdf,
            recovery_cipher = XChaCha20Poly1305V1, recovery_nonce = base64_encode C nonce,
            recovery_ciphertext = base64_encode C ct\<rparr>"
    and size: "length bytes \<le> 1024 + 6 * (str_len (owner_application_id owner) + str_len (owner_account_id owner) +
        str_len (base64_encode C salt) + str_len (base64_encode C nonce) + str_len (base64_encode C ct))"
    using json_okD(1,2) [OF assms(2) ok(5)] by (simp_all add: kdf_def)
  show short: "length bytes \<le> 64 * 1024"
    using size ok(1) ed assms(4) len crypto_okD(5) [OF assms(1)]
    by (simp add: RecoveryOwnerBinding_validate_def validate_owner_text_def result_simps MAX_OWNER_TEXT_BYTES_def
        base64_len_def KEY_BYTES_def SALT_BYTES_def NONCE_BYTES_def)
  have "validate_recovery_kdf C kdf = Inr ()"
    using decode_encoded(2) [OF assms(1) len(1)] by (simp add: validate_recovery_kdf_def kdf_def)
  then show "open_recovery_envelope C W bytes password owner = Inr key"
    using ok ed json short assms(4) decode_encoded(2) [OF assms(1) len(2)] decode_encoded(1) [OF assms(1), of ct "KEY_BYTES + 16"]
    by (simp add: open_recovery_envelope_def fail_if_def)
qed

lemma positive_account_id_ok: "positive_account_id v = Inr n \<Longrightarrow> v = decimal n"
  by (auto simp: positive_account_id_def result_simps split: if_splits)

text \<open>A text is cut at a separator that its first or its last part does not contain.\<close>

lemma first_separator:
  "P @ c # D = P' @ c # D' \<Longrightarrow> c \<notin> set P \<Longrightarrow> c \<notin> set P' \<Longrightarrow> P = P' \<and> D = D'"
proof (induction P arbitrary: P')
  case Nil then show ?case by (cases P') auto
next
  case (Cons x P) then show ?case by (cases P') auto
qed

lemma last_separator:
  "P @ c # D = P' @ c # D' \<Longrightarrow> c \<notin> set D \<Longrightarrow> c \<notin> set D' \<Longrightarrow> P = P' \<and> D = D'"
proof -
  assume a: "P @ c # D = P' @ c # D'" "c \<notin> set D" "c \<notin> set D'"
  then have "rev D @ c # rev P = rev D' @ c # rev P'" by (metis append.assoc append_Cons append_Nil rev.simps(2) rev_append)
  moreover have "c \<notin> set (rev D)" "c \<notin> set (rev D')" using a by simp_all
  ultimately have "rev D = rev D' \<and> rev P = rev P'" by (rule first_separator)
  then show ?thesis by simp
qed

lemma decimal_no_separator: "\<not> is_ascii_digit c \<Longrightarrow> c \<notin> set (decimal n)"
  using digit_chars(1) [of n] by (auto simp: list_all_iff)

lemma service_recovery_aad_inject:
  assumes "service_recovery_aad w a = service_recovery_aad w' a'"
  shows "owner_application_id w = owner_application_id w'" "a = a'" "owner_key_version w = owner_key_version w'"
proof -
  define P :: "RecoveryOwnerBinding \<Rightarrow> nat \<Rightarrow> ustring" where "P w a = SERVICE_RECOVERY_AAD_PREFIX @ U ''|application='' @ owner_application_id w @ U ''|account'' @ 61 # decimal a @
    U ''|key_version''" for w a
  have form: "service_recovery_aad w a = P w a @ 61 # decimal (unat (owner_key_version w))" for w a
    by (simp add: service_recovery_aad_def P_def U_def)
  have no: "61 \<notin> set (decimal n)" for n by (rule decimal_no_separator) (simp add: is_ascii_digit_def)
  from last_separator [OF assms [unfolded form] no no]
  have p: "P w a = P w' a'" and v: "decimal (unat (owner_key_version w)) = decimal (unat (owner_key_version w'))" by simp_all
  from v show "owner_key_version w = owner_key_version w'" by (simp add: decimal_inject word_unat_eq_iff)
  have "(SERVICE_RECOVERY_AAD_PREFIX @ U ''|application='' @ owner_application_id w @ U ''|account'') @ 61 # decimal a =
    (SERVICE_RECOVERY_AAD_PREFIX @ U ''|application='' @ owner_application_id w' @ U ''|account'') @ 61 # decimal a'"
    using p by (simp add: P_def)
  from last_separator [OF this no no] show "owner_application_id w = owner_application_id w'" "a = a'"
    by (simp_all add: decimal_inject)
qed

section \<open>An instance of the other packages\<close>

text \<open>
  Base64 as RFC 4648 has it, a cipher that only appends its tag, constant digests and random bytes, and a JSON
  that knows one value of each type: enough to run the definitions.
\<close>

definition b64_char :: "nat \<Rightarrow> uchar" where
  "b64_char d = (if d < 26 then 65 + d else if d < 52 then 71 + d else if d < 62 then d - 4 else if d = 62 then 43 else 47)"

definition b64_value :: "uchar \<Rightarrow> nat" where
  "b64_value c = (if c = 43 then 62 else if c = 47 then 63 else if c < 58 then c + 4 else if c < 91 then c - 65 else c - 71)"

fun b64 :: "u8 list \<Rightarrow> ustring" where
  "b64 [] = []"
| "b64 [a] = [b64_char (unat a div 4), b64_char (unat a mod 4 * 16), 61, 61]"
| "b64 [a, b] = [b64_char (unat a div 4), b64_char (unat a mod 4 * 16 + unat b div 16), b64_char (unat b mod 16 * 4), 61]"
| "b64 (a # b # c # bs) =
     [b64_char (unat a div 4), b64_char (unat a mod 4 * 16 + unat b div 16),
      b64_char (unat b mod 16 * 4 + unat c div 64), b64_char (unat c mod 64)] @ b64 bs"

fun unb64 :: "ustring \<Rightarrow> u8 list option" where
  "unb64 [] = Some []"
| "unb64 (w # x # y # z # cs) =
     (let a = of_nat (b64_value w * 4 + b64_value x div 16);
          b = of_nat (b64_value x mod 16 * 16 + b64_value y div 4);
          c = of_nat (b64_value y mod 4 * 64 + b64_value z) in
      if y = 61 then Some [a] else if z = 61 then Some [a, b]
      else map_option (\<lambda>bs. a # b # c # bs) (unb64 cs))"
| "unb64 _ = None"

definition sample_crypto :: crypto where
  "sample_crypto =
     \<lparr>aead_seal = (\<lambda>k n a m. Some (m @ replicate 16 0)),
      aead_open = (\<lambda>k n a c. Some (take (length c - 16) c)),
      argon2id = (\<lambda>mem t p l pw s. Some (replicate l 3)),
      sha256 = (\<lambda>_. replicate 32 0xAB),
      base64_encode = b64, base64_decode = unb64, base64url_encode = b64, base64url_decode = unb64,
      getrandom = (\<lambda>i n. Some (replicate n (of_nat i)))\<rparr>"

definition one_value :: "'a \<Rightarrow> nat \<Rightarrow> 'a \<Rightarrow> u8 list option" where
  "one_value v n x = (if x = v then Some (replicate n 7) else None)"

definition read_value :: "'a \<Rightarrow> nat \<Rightarrow> u8 list \<Rightarrow> 'a option" where
  "read_value v n bs = (if bs = replicate n 7 then Some v else None)"

lemma b64_value_char: "d < 64 \<Longrightarrow> b64_value (b64_char d) = d" "d < 64 \<Longrightarrow> b64_char d \<noteq> 61" "d < 64 \<Longrightarrow> b64_char d < 128"
  by (auto simp: b64_value_def b64_char_def)

lemma two_digits: "k < m \<Longrightarrow> (n * m + k) div m = n" "k < m \<Longrightarrow> (n * m + k) mod m = (k :: nat)"
  by simp_all

lemma byte_less: "unat (a :: u8) < 256"
  using unsigned_less [of a] by simp

lemma byte_back: "of_nat (unat (a :: u8)) = a"
  by simp

lemma small_high: "unat (b :: u8) div 16 < 16" "unat b div 64 < 4"
  using byte_less [of b] by (simp_all add: less_mult_imp_div_less)

lemma b64_digits:
  "unat (a :: u8) div 4 < 64" "unat a mod 4 * 16 < 64" "unat a mod 16 * 4 < 64" "unat a mod 64 < 64"
  "unat a mod 4 * 16 + unat (b :: u8) div 16 < 64" "unat a mod 16 * 4 + unat b div 64 < 64"
proof -
  have m: "unat a mod 4 < 4" "unat a mod 16 < 16" by simp_all
  show "unat a div 4 < 64" using byte_less [of a] by (simp add: less_mult_imp_div_less)
  show "unat a mod 64 < 64" by simp
  show "unat a mod 4 * 16 < 64" "unat a mod 16 * 4 < 64"
    "unat a mod 4 * 16 + unat b div 16 < 64" "unat a mod 16 * 4 + unat b div 64 < 64"
    using m small_high [of b] by linarith+
qed

lemma b64_bytes: "k < 16 \<Longrightarrow> of_nat (unat (a :: u8) div 4 * 4 + (unat a mod 4 * 16 + k) div 16) = a"
  by (simp only: two_digits div_mult_mod_eq byte_back)

lemma b64_second:
  "k < 4 \<Longrightarrow> of_nat ((n * 16 + unat (b :: u8) div 16) mod 16 * 16 + (unat b mod 16 * 4 + k) div 4) = b"
  by (simp only: two_digits small_high div_mult_mod_eq byte_back)

lemma b64_third: "of_nat ((n * 4 + unat (c :: u8) div 64) mod 4 * 64 + unat c mod 64) = c"
  by (simp only: two_digits small_high div_mult_mod_eq byte_back)

lemma unb64_chars:
  assumes "d < 64" "e < 64"
  shows "unb64 [b64_char d, b64_char e, 61, 61] = Some [of_nat (d * 4 + e div 16)]"
    "f < 64 \<Longrightarrow> unb64 [b64_char d, b64_char e, b64_char f, 61] = Some [of_nat (d * 4 + e div 16), of_nat (e mod 16 * 16 + f div 4)]"
    "f < 64 \<Longrightarrow> g < 64 \<Longrightarrow> unb64 (b64_char d # b64_char e # b64_char f # b64_char g # cs) =
       map_option (\<lambda>bs. of_nat (d * 4 + e div 16) # of_nat (e mod 16 * 16 + f div 4) # of_nat (f mod 4 * 64 + g) # bs) (unb64 cs)"
  unfolding unb64.simps Let_def by (simp_all only: assms b64_value_char simp_thms if_True if_False)

lemma unb64_b64: "unb64 (b64 bs) = Some bs"
proof (induction bs rule: b64.induct)
  case 1
  show ?case by simp
next
  case (2 a)
  have "unb64 (b64 [a]) = Some [of_nat (unat a div 4 * 4 + (unat a mod 4 * 16 + 0) div 16)]"
    by (simp only: b64.simps unb64_chars b64_digits add_0_right)
  then show ?case using b64_bytes [of 0 a] by (simp only: zero_less_numeral)
next
  case (3 a b)
  show ?case
    using b64_second [of 0 "unat a mod 4" b]
    by (simp only: b64.simps unb64_chars b64_digits b64_bytes small_high add_0_right)
next
  case (4 a b c bs)
  show ?case
    by (simp only: b64.simps append.simps unb64_chars b64_digits b64_bytes b64_second b64_third small_high 4 option.map)
qed

lemma str_len_Cons: "str_len (c # s) = length (utf8_char c) + str_len s"
  by (simp add: str_len_def as_bytes_def)

lemma b64_char_len: "d < 64 \<Longrightarrow> length (utf8_char (b64_char d)) = Suc 0"
  using b64_value_char(3) [of d] by (simp add: utf8_char_def)

lemma b64_len: "str_len (b64 bs) = base64_len (length bs)"
proof (induction bs rule: b64.induct)
  case 1
  show ?case by (simp add: base64_len_def str_len_def as_bytes_def)
next
  case (2 a)
  have "str_len (b64 [a]) = 4"
    by (simp only: b64.simps str_len_Cons b64_char_len b64_digits) (simp add: utf8_char_def str_len_def as_bytes_def)
  then show ?case by (simp add: base64_len_def)
next
  case (3 a b)
  have "str_len (b64 [a, b]) = 4"
    by (simp only: b64.simps str_len_Cons b64_char_len b64_digits) (simp add: utf8_char_def str_len_def as_bytes_def)
  then show ?case by (simp add: base64_len_def)
next
  case (4 a b c bs)
  have "str_len (b64 (a # b # c # bs)) = 4 + str_len (b64 bs)"
    by (simp only: b64.simps append.simps str_len_Cons b64_char_len b64_digits)
  moreover have "base64_len (length (a # b # c # bs)) = 4 + base64_len (length bs)"
    unfolding base64_len_def list.size by presburger
  ultimately show ?case using 4 by simp
qed

lemma sample_crypto_ok: "crypto_ok sample_crypto"
  unfolding crypto_ok_def
proof (intro conjI allI impI)
  fix k n a m c
  assume "aead_seal sample_crypto k n a m = Some c"
  then have c: "c = m @ replicate 16 0" unfolding sample_crypto_def crypto.simps by (simp only: option.inject)
  show "length c = length m + 16" unfolding c by (simp only: length_append length_replicate)
  show "aead_open sample_crypto k n a c = Some m"
    unfolding sample_crypto_def crypto.simps c by (simp only: length_append length_replicate diff_add_inverse2 take_append take_all order_refl diff_self_eq_0 take_0 append_Nil2)
qed (auto simp: sample_crypto_def unb64_b64 b64_len)

definition sample_owner :: "ustring \<Rightarrow> RecoveryOwnerBinding" where
  "sample_owner account = \<lparr>owner_application_id = U ''norishell'', owner_account_id = account, owner_key_version = 1\<rparr>"

definition sample_object_binding :: "ustring \<Rightarrow> SyncObjectBinding" where
  "sample_object_binding account =
     \<lparr>application_id = U ''norishell'', account_id = account, object_schema = V6_bundle, object_kind = SshProfileBundle,
      object_revision = 1, object_base_revision = None, object_base_etag = None, key_version = 1\<rparr>"

definition sample_recovery :: "ustring \<Rightarrow> RecoveryEnvelope" where
  "sample_recovery account =
     \<lparr>recovery_format = RecoveryEnvelopeV1, recovery_owner = sample_owner account,
      recovery_kdf = \<lparr>kdf_id = Argon2idSyncRecoveryV1, memory_kib = KDF_MEMORY_KIB, kdf_iterations = KDF_ITERATIONS,
        kdf_parallelism = KDF_PARALLELISM, output_bytes = KDF_OUTPUT_BYTES, kdf_salt = b64 (replicate 16 1)\<rparr>,
      recovery_cipher = XChaCha20Poly1305V1, recovery_nonce = b64 (replicate 24 2),
      recovery_ciphertext = b64 (replicate 32 0 @ replicate 16 0)\<rparr>"

definition sample_backup :: OfflineBackupEnvelope where
  "sample_backup =
     \<lparr>backup_format = BACKUP_FORMAT, backup_kdf = BACKUP_KDF, backup_cipher = BACKUP_CIPHER,
      backup_salt = b64 (replicate 16 0), backup_nonce = b64 (replicate 24 1),
      backup_ciphertext = b64 ([1, 2, 3, 4] @ replicate 16 0)\<rparr>"

definition sample_wire_json :: "ustring \<Rightarrow> unit wire_json" where
  "sample_wire_json account =
     \<lparr>binding_to_json = one_value (sample_object_binding account) 9, aad_to_json = (\<lambda>_. Some [1]),
      bundle_to_json = one_value (sample_bundle [sample_secret 3, sample_secret 5]) 8,
      bundle_from_json = read_value (sample_bundle [sample_secret 3, sample_secret 5]) 8,
      envelope_to_json = (\<lambda>_. None), envelope_from_json = (\<lambda>_. None),
      recovery_to_json = one_value (sample_recovery account) 100, recovery_from_json = read_value (sample_recovery account) 100,
      backup_to_json = one_value sample_backup 200, backup_from_json = read_value sample_backup 200\<rparr>"

lemma sample_wire_json_ok: "json_ok (sample_wire_json account)"
proof -
  have "str_len (backup_ciphertext sample_backup) < 200" by (simp add: sample_backup_def b64_len base64_len_def del: b64.simps)
  then show ?thesis by (simp add: json_ok_def sample_wire_json_def one_value_def read_value_def)
qed

section \<open>Properties\<close>

text \<open>
  (C14) A recovery envelope of the service is bound to its owner. The envelope made for an owner gives back
  the key for the same password and owner, and it opens for no other owner, whatever the password: the
  associated text names application, account and key version in a way that no other owner shares, although an
  application identifier may contain the separators.
\<close>

theorem recovery_owner_bound:
  assumes "crypto_ok C" "create_recovery_envelope_for_service C i key password owner = Inr up" "length key = KEY_BYTES"
  shows "open_recovery_envelope_from_service C up password owner = Inr key \<and>
    (\<forall>password' owner' k. open_recovery_envelope_from_service C up password' owner' = Inr k \<longrightarrow> owner' = owner)"
proof -
  from assms(2) obtain account salt nonce rkey ct where
    ok: "RecoveryOwnerBinding_validate owner = Inr ()" "positive_account_id (owner_account_id owner) = Inr account"
      "fill_random C i SALT_BYTES = Inr salt" "fill_random C (i + 1) NONCE_BYTES = Inr nonce"
      "derive_service_recovery_key C password salt = Inr rkey"
      "encrypt_with C InvalidSyncKey rkey nonce (as_bytes (service_recovery_aad owner account)) key = Inr ct"
    and up: "up = \<lparr>upload_algorithm = SERVICE_RECOVERY_ALGORITHM, upload_kdf = SERVICE_RECOVERY_KDF,
              upload_salt_base64url = base64url_encode C salt, upload_nonce_base64url = base64url_encode C nonce,
              upload_aad = service_recovery_aad owner account, upload_ciphertext = ct, upload_ciphertext_sha256 = sha256_hex C ct\<rparr>"
    by (auto simp: create_recovery_envelope_for_service_def Let_def result_simps)
  note len = fill_random_ok [OF assms(1) ok(3)] fill_random_ok [OF assms(1) ok(4)]
  have "open_recovery_envelope_from_service C up password owner = Inr key"
    using ok encrypt_decrypt [OF assms(1) ok(6)] assms(3) decode_encoded(4) [OF assms(1) len(1)] decode_encoded(4) [OF assms(1) len(2)]
    by (simp add: up open_recovery_envelope_from_service_def Let_def fail_if_def)
  moreover have "owner' = owner" if opened: "open_recovery_envelope_from_service C up password' owner' = Inr k" for password' owner' k
  proof -
    from opened obtain account' where a: "positive_account_id (owner_account_id owner') = Inr account'"
      "service_recovery_aad owner account = service_recovery_aad owner' account'"
      by (auto simp: open_recovery_envelope_from_service_def Let_def result_simps up)
    show ?thesis
      using service_recovery_aad_inject [OF a(2)] positive_account_id_ok [OF a(1)] positive_account_id_ok [OF ok(2)] by simp
  qed
  ultimately show ?thesis by blast
qed

theorem recovery_owner_bound_witness:
  "\<exists>up. create_recovery_envelope_for_service sample_crypto 0 (replicate 32 5) (replicate 8 1) (sample_owner (U ''42'')) = Inr up \<and>
     open_recovery_envelope_from_service sample_crypto up (replicate 8 1) (sample_owner (U ''42'')) = Inr (replicate 32 5)"
proof -
  have "is_ok (create_recovery_envelope_for_service sample_crypto 0 (replicate 32 5) (replicate 8 1) (sample_owner (U ''42'')))" by code_simp
  then obtain up where up: "create_recovery_envelope_for_service sample_crypto 0 (replicate 32 5) (replicate 8 1) (sample_owner (U ''42'')) = Inr up"
    by (auto simp: is_ok_iff)
  from recovery_owner_bound [OF sample_crypto_ok this] up show ?thesis by (simp add: KEY_BYTES_def)
qed

text \<open>
  (C30) An offline backup that was written opens with the same password and gives the payload back. The payload of
  a backup that was written is at least 19 bytes smaller than the payload limit of the source, because the base64 text of a
  larger one is already longer than the limit of the file.
\<close>

theorem backup_roundtrip:
  assumes "crypto_ok C" "json_ok W" "encrypt_offline_backup C W i password payload = Inr bytes"
  shows "decrypt_offline_backup C W password bytes = Inr payload \<and> length payload + 19 \<le> MAX_OFFLINE_BACKUP_PLAINTEXT_BYTES"
proof -
  from assms(3) obtain salt nonce key ct where
    ok: "payload \<noteq> []" "length payload \<le> MAX_OFFLINE_BACKUP_PLAINTEXT_BYTES"
      "fill_random C i SALT_BYTES = Inr salt" "fill_random C (i + 1) NONCE_BYTES = Inr nonce"
      "backup_derive_key C password salt = Inr key" "encrypt_with C KeyDerivation key nonce BACKUP_AAD payload = Inr ct"
      "length bytes \<le> MAX_OFFLINE_BACKUP_FILE_BYTES" and
    json: "backup_to_json W \<lparr>backup_format = BACKUP_FORMAT, backup_kdf = BACKUP_KDF, backup_cipher = BACKUP_CIPHER,
           backup_salt = base64_encode C salt, backup_nonce = base64_encode C nonce,
           backup_ciphertext = base64_encode C ct\<rparr> = Some bytes"
    by (auto simp: encrypt_offline_backup_def result_simps split: if_splits)
  note len = fill_random_ok [OF assms(1) ok(3)] fill_random_ok [OF assms(1) ok(4)]
  note ed = encrypt_decrypt [OF assms(1) ok(6)]
  have size: "base64_len (length payload + 16) < length bytes"
    using json_okD(4) [OF assms(2) json] crypto_okD(5) [OF assms(1)] ed(2) by simp
  then have "bytes \<noteq> []" by auto
  moreover have "base64_len (length ct) \<le> base64_len (MAX_OFFLINE_BACKUP_PLAINTEXT_BYTES + 16)"
    by (rule base64_len_mono) (use ok(2) ed(2) in simp)
  ultimately have "decrypt_offline_backup C W password bytes = Inr payload"
    using ok ed json_okD(3) [OF assms(2) json] decode_encoded(3) [OF assms(1) len(1)] decode_encoded(3) [OF assms(1) len(2)]
      crypto_okD(4,5) [OF assms(1)]
    by (simp add: decrypt_offline_backup_def fail_if_def)
  moreover have "length payload + 19 \<le> MAX_OFFLINE_BACKUP_PLAINTEXT_BYTES"
  proof -
    have "(length payload + 18) div 3 < 67108864"
      using size ok(7) by (simp add: base64_len_def MAX_OFFLINE_BACKUP_FILE_BYTES_def add.commute)
    then have "length payload + 18 < 67108864 * 3" by (simp only: div_less_iff_less_mult zero_less_numeral)
    then show ?thesis by (simp add: MAX_OFFLINE_BACKUP_PLAINTEXT_BYTES_def)
  qed
  ultimately show ?thesis by blast
qed

theorem backup_roundtrip_witness:
  "\<exists>bytes. encrypt_offline_backup sample_crypto (sample_wire_json []) 0 (replicate 8 1) [1, 2, 3, 4] = Inr bytes \<and>
     decrypt_offline_backup sample_crypto (sample_wire_json []) (replicate 8 1) bytes = Inr [1, 2, 3, 4]"
proof -
  have "is_ok (encrypt_offline_backup sample_crypto (sample_wire_json []) 0 (replicate 8 1) [1, 2, 3, 4])" by code_simp
  then obtain bytes where b: "encrypt_offline_backup sample_crypto (sample_wire_json []) 0 (replicate 8 1) [1, 2, 3, 4] = Inr bytes"
    by (auto simp: is_ok_iff)
  from backup_roundtrip [OF sample_crypto_ok sample_wire_json_ok this] b show ?thesis by simp
qed

end
