(* ===== verification/SyncExchange.thy ===== *)
theory SyncExchange
  imports SyncCrypto
begin

text \<open>
  The exchange of a synchronisation plugin, \<open>crates/ssh-profile-sync/src/exchange.rs\<close>: the document a plugin stores, in its
  password form and in the form with a key of the vault, what is checked before a body is opened, and the binding that
  is authenticated with the body.
\<close>

section \<open>Data\<close>

record PluginExchangeBinding =
  plugin_id :: ustring
  signer_fingerprint_sha256 :: ustring
  profile_id :: ustring
  exchange_revision :: u64
  exchange_base_revision :: "u64 option"
  exchange_base_etag :: "ustring option"

record PluginExchangeSummary =
  summary_schema :: BundleSchema
  summary_revision :: u64
  summary_base_revision :: "u64 option"
  summary_base_etag :: "ustring option"
  summary_key_version :: u32
  summary_ciphertext_sha256 :: ustring
  exchange_sha256 :: ustring

record ExchangeOwnerWire =
  wire_plugin_id :: ustring
  wire_signer :: ustring
  wire_profile_id :: ustring

record RecoveryWire =
  wire_envelope :: ustring
  wire_envelope_sha256 :: ustring

record EncryptedWire =
  wire_algorithm :: ustring
  wire_nonce :: ustring
  wire_ciphertext :: ustring
  wire_ciphertext_sha256 :: ustring

record ExchangeWire =
  wire_format :: ustring
  wire_owner :: ExchangeOwnerWire
  wire_binding :: SyncObjectBinding
  wire_recovery :: RecoveryWire
  wire_encrypted :: EncryptedWire

text \<open>The JSON form of the document, and what it documents: it reads back.\<close>

record exchange_json =
  exchange_to_json :: "ExchangeWire \<Rightarrow> u8 list option"
  exchange_from_json :: "u8 list \<Rightarrow> ExchangeWire option"

definition exchange_json_ok :: "exchange_json \<Rightarrow> bool" where
  "exchange_json_ok X \<longleftrightarrow>
     (\<forall>w bs. exchange_to_json X w = Some bs \<longrightarrow> bs \<noteq> [] \<and> exchange_from_json X bs = Some w)"

definition EXCHANGE_FORMAT :: ustring where "EXCHANGE_FORMAT = U ''norishell-ssh-sync-exchange-v2''"
definition VAULT_EXCHANGE_FORMAT :: ustring where "VAULT_EXCHANGE_FORMAT = U ''norishell-ssh-vault-exchange-v3''"
definition MAX_EXCHANGE_BYTES :: nat where "MAX_EXCHANGE_BYTES = 96 * 1024 * 1024"

section \<open>Checks\<close>

definition validate_identifier :: "ustring \<Rightarrow> nat \<Rightarrow> SyncCodecError + unit" where
  "validate_identifier v maximum =
     fail_if (v = [] \<or> str_len v > maximum \<or> \<not> is_ascii v \<or>
         \<not> list_all (\<lambda>c. is_ascii_alnum c \<or> c \<in> {46, 45, 95, 58}) v)
       (InvalidBundle ''invalid exchange identifier'')"

definition is_lower_hex :: "uchar \<Rightarrow> bool" where
  "is_lower_hex c \<longleftrightarrow> is_ascii_digit c \<or> (97 \<le> c \<and> c \<le> 102)"

definition valid_sha256 :: "ustring \<Rightarrow> bool" where
  "valid_sha256 v \<longleftrightarrow> str_len v = 64 \<and> list_all is_lower_hex v"

definition canonical_base64 :: "crypto \<Rightarrow> ustring \<Rightarrow> bool" where
  "canonical_base64 C v = (case base64_decode C v of None \<Rightarrow> False | Some d \<Rightarrow> base64_encode C d = v)"

definition canonical_base64url :: "crypto \<Rightarrow> ustring \<Rightarrow> bool" where
  "canonical_base64url C v = (case base64url_decode C v of None \<Rightarrow> False | Some d \<Rightarrow> base64url_encode C d = v)"

definition decode_base64 :: "crypto \<Rightarrow> ustring \<Rightarrow> nat \<Rightarrow> SyncCodecError + u8 list" where
  "decode_base64 C v maximum =
     (if str_len v > base64_len maximum + 4 then Inl (BoundExceeded ''exchange ciphertext'')
      else bind_result (ok_or AuthenticationFailed (base64_decode C v)) (\<lambda>decoded.
        if length decoded > maximum \<or> base64_encode C decoded \<noteq> v then Inl AuthenticationFailed else Inr decoded))"

definition sync_algorithm :: "ustring \<Rightarrow> SyncCodecError + ustring" where
  "sync_algorithm v = (if v = SERVICE_SYNC_ALGORITHM then Inr SERVICE_SYNC_ALGORITHM else Inl AuthenticationFailed)"

definition stable_plugin_data_owner :: "crypto \<Rightarrow> ustring \<Rightarrow> SyncCodecError + ustring" where
  "stable_plugin_data_owner C plugin =
     bind_result (validate_identifier plugin 160) (\<lambda>_.
       Inr (sha256_hex C (as_bytes (U ''norishell:ssh-sync-owner:v1'' @ [0] @ plugin))))"

definition PluginExchangeBinding_validate :: "PluginExchangeBinding \<Rightarrow> SyncCodecError + unit" where
  "PluginExchangeBinding_validate b =
     seq_checks
      [validate_identifier (plugin_id b) 160,
       fail_if (\<not> valid_sha256 (signer_fingerprint_sha256 b)) (InvalidBundle ''invalid signer fingerprint''),
       validate_identifier (profile_id b) 160,
       fail_if (exchange_revision b = 0 \<or> base_not_lower (exchange_base_revision b) (exchange_revision b))
         (InvalidBundle ''invalid exchange revision''),
       fail_if (\<not> etag_ok (exchange_base_etag b)) (InvalidBundle ''invalid exchange base etag'')]"

definition exchange_owner :: "PluginExchangeBinding \<Rightarrow> ExchangeOwnerWire" where
  "exchange_owner b =
     \<lparr>wire_plugin_id = plugin_id b, wire_signer = signer_fingerprint_sha256 b, wire_profile_id = profile_id b\<rparr>"

definition owner_id :: "PluginExchangeBinding \<Rightarrow> ustring" where
  "owner_id b =
     U ''plugin:'' @ decimal (str_len (plugin_id b)) @ U '':'' @ plugin_id b @ U '':signer:'' @ signer_fingerprint_sha256 b @
     U '':profile:'' @ decimal (str_len (profile_id b)) @ U '':'' @ profile_id b"

definition object_binding_for_schema :: "PluginExchangeBinding \<Rightarrow> u32 \<Rightarrow> BundleSchema \<Rightarrow> SyncObjectBinding" where
  "object_binding_for_schema b kver s =
     \<lparr>application_id = U ''norishell'', account_id = owner_id b, object_schema = s, object_kind = SshProfileBundle,
      object_revision = exchange_revision b, object_base_revision = exchange_base_revision b,
      object_base_etag = exchange_base_etag b, key_version = kver\<rparr>"

definition new_object_binding :: "PluginExchangeBinding \<Rightarrow> u32 \<Rightarrow> BundleSchema \<Rightarrow> SyncObjectBinding" where
  "new_object_binding b kver s = object_binding_for_schema b kver s"

definition authenticated_object_binding ::
    "PluginExchangeBinding \<Rightarrow> u32 \<Rightarrow> BundleSchema \<Rightarrow> SyncCodecError + SyncObjectBinding" where
  "authenticated_object_binding b kver s =
     (case s of V1 \<Rightarrow> Inl BindingMismatch | _ \<Rightarrow> Inr (object_binding_for_schema b kver s))"

definition validate_wire_common ::
    "crypto \<Rightarrow> ExchangeWire \<Rightarrow> PluginExchangeBinding \<Rightarrow> SyncCodecError + unit" where
  "validate_wire_common C w expected =
     bind_result (PluginExchangeBinding_validate expected) (\<lambda>_.
     bind_result (authenticated_object_binding expected 1 (object_schema (wire_binding w))) (\<lambda>expected_binding.
     bind_result (fail_if (wire_owner w \<noteq> exchange_owner expected \<or> wire_binding w \<noteq> expected_binding) BindingMismatch) (\<lambda>_.
       fail_if (wire_algorithm (wire_encrypted w) \<noteq> SERVICE_SYNC_ALGORITHM \<or>
           \<not> canonical_base64 C (wire_envelope (wire_recovery w)) \<or>
           \<not> canonical_base64 C (wire_ciphertext (wire_encrypted w)) \<or>
           \<not> canonical_base64url C (wire_nonce (wire_encrypted w)) \<or>
           \<not> valid_sha256 (wire_envelope_sha256 (wire_recovery w)) \<or>
           \<not> valid_sha256 (wire_ciphertext_sha256 (wire_encrypted w))) AuthenticationFailed)))"

definition validate_wire_with_format ::
    "crypto \<Rightarrow> ExchangeWire \<Rightarrow> PluginExchangeBinding \<Rightarrow> ustring \<Rightarrow> SyncCodecError + unit" where
  "validate_wire_with_format C w expected format =
     bind_result (fail_if (wire_format w \<noteq> format) BindingMismatch) (\<lambda>_. validate_wire_common C w expected)"

definition validate_wire :: "crypto \<Rightarrow> ExchangeWire \<Rightarrow> PluginExchangeBinding \<Rightarrow> SyncCodecError + unit" where
  "validate_wire C w expected = validate_wire_with_format C w expected EXCHANGE_FORMAT"

definition validate_wire_any_supported ::
    "crypto \<Rightarrow> ExchangeWire \<Rightarrow> PluginExchangeBinding \<Rightarrow> SyncCodecError + unit" where
  "validate_wire_any_supported C w expected =
     bind_result (fail_if (wire_format w \<noteq> EXCHANGE_FORMAT \<and> wire_format w \<noteq> VAULT_EXCHANGE_FORMAT) BindingMismatch)
       (\<lambda>_. validate_wire_common C w expected)"

definition parse_wire :: "exchange_json \<Rightarrow> u8 list \<Rightarrow> SyncCodecError + ExchangeWire" where
  "parse_wire X bytes =
     (if bytes = [] \<or> length bytes > MAX_EXCHANGE_BYTES then Inl (BoundExceeded ''plugin exchange'')
      else ok_or Serialization (exchange_from_json X bytes))"

section \<open>Creating\<close>

definition current_schema :: "BundleSchema \<Rightarrow> bool" where
  "current_schema s \<longleftrightarrow> s \<in> {V3, V4_bundle, V5, V6_bundle}"

definition exchange_wire ::
    "crypto \<Rightarrow> ustring \<Rightarrow> PluginExchangeBinding \<Rightarrow> SyncObjectBinding \<Rightarrow> u8 list \<Rightarrow> EncryptedSyncObject \<Rightarrow> ExchangeWire" where
  "exchange_wire C format binding object_binding recovery enc =
     \<lparr>wire_format = format, wire_owner = exchange_owner binding, wire_binding = object_binding,
      wire_recovery = \<lparr>wire_envelope = base64_encode C recovery, wire_envelope_sha256 = sha256_hex C recovery\<rparr>,
      wire_encrypted = \<lparr>wire_algorithm = algorithm enc, wire_nonce = nonce_base64url enc,
        wire_ciphertext = base64_encode C (sealed enc), wire_ciphertext_sha256 = ciphertext_sha256 enc\<rparr>\<rparr>"

definition exchange_bytes :: "exchange_json \<Rightarrow> ExchangeWire \<Rightarrow> SyncCodecError + u8 list" where
  "exchange_bytes X w =
     bind_result (ok_or Serialization (exchange_to_json X w)) (\<lambda>bytes.
       if length bytes > MAX_EXCHANGE_BYTES then Inl (BoundExceeded ''plugin exchange'') else Inr bytes)"

definition recovery_owner_for :: "PluginExchangeBinding \<Rightarrow> u32 \<Rightarrow> RecoveryOwnerBinding" where
  "recovery_owner_for b kver =
     \<lparr>owner_application_id = U ''norishell'', owner_account_id = owner_id b, owner_key_version = kver\<rparr>"

definition create_plugin_exchange ::
    "crypto \<Rightarrow> 'v json_api \<Rightarrow> 'v wire_json \<Rightarrow> exchange_json \<Rightarrow> nat \<Rightarrow> 'v PortableBundleV1 \<Rightarrow> u8 list \<Rightarrow>
     PluginExchangeBinding \<Rightarrow> SyncCodecError + u8 list" where
  "create_plugin_exchange C J W X i b password binding =
     bind_result (PluginExchangeBinding_validate binding) (\<lambda>_.
     bind_result (fail_if (\<not> current_schema (schema b) \<or> revision b \<noteq> exchange_revision binding) BindingMismatch) (\<lambda>_.
       let object_binding = new_object_binding binding 1 (schema b); owner = recovery_owner_for binding 1 in
       bind_result (SyncKey_generate C i) (\<lambda>key.
       bind_result (create_recovery_envelope_random C W (i + 1) key password owner) (\<lambda>recovery.
       bind_result (encrypt_bundle_for_service C J W (i + 3) b key object_binding) (\<lambda>enc.
         exchange_bytes X (exchange_wire C EXCHANGE_FORMAT binding object_binding recovery enc))))))"

definition create_plugin_exchange_with_key ::
    "crypto \<Rightarrow> 'v json_api \<Rightarrow> 'v wire_json \<Rightarrow> exchange_json \<Rightarrow> nat \<Rightarrow> 'v PortableBundleV1 \<Rightarrow> u8 list \<Rightarrow> u8 list \<Rightarrow>
     PluginExchangeBinding \<Rightarrow> SyncCodecError + u8 list" where
  "create_plugin_exchange_with_key C J W X i b key vault_key_envelope binding =
     bind_result (PluginExchangeBinding_validate binding) (\<lambda>_.
     bind_result (fail_if (\<not> current_schema (schema b) \<or> revision b \<noteq> exchange_revision binding \<or>
         vault_key_envelope = [] \<or> length vault_key_envelope > 64 * 1024) BindingMismatch) (\<lambda>_.
       let object_binding = new_object_binding binding 1 (schema b) in
       bind_result (encrypt_bundle_for_service C J W i b key object_binding) (\<lambda>enc.
         exchange_bytes X (exchange_wire C VAULT_EXCHANGE_FORMAT binding object_binding vault_key_envelope enc))))"

section \<open>Inspecting and opening\<close>

definition exchange_summary :: "crypto \<Rightarrow> ExchangeWire \<Rightarrow> u8 list \<Rightarrow> PluginExchangeSummary" where
  "exchange_summary C w bytes =
     \<lparr>summary_schema = object_schema (wire_binding w), summary_revision = object_revision (wire_binding w),
      summary_base_revision = object_base_revision (wire_binding w), summary_base_etag = object_base_etag (wire_binding w),
      summary_key_version = key_version (wire_binding w),
      summary_ciphertext_sha256 = wire_ciphertext_sha256 (wire_encrypted w), exchange_sha256 = sha256_hex C bytes\<rparr>"

definition inspect_plugin_exchange ::
    "crypto \<Rightarrow> exchange_json \<Rightarrow> u8 list \<Rightarrow> PluginExchangeBinding \<Rightarrow> SyncCodecError + PluginExchangeSummary" where
  "inspect_plugin_exchange C X bytes expected =
     bind_result (parse_wire X bytes) (\<lambda>w.
     bind_result (validate_wire C w expected) (\<lambda>_. Inr (exchange_summary C w bytes)))"

definition inspect_wire_owner ::
    "crypto \<Rightarrow> ExchangeWire \<Rightarrow> u8 list \<Rightarrow> ustring \<Rightarrow> ustring \<Rightarrow> ustring \<Rightarrow>
     SyncCodecError + (PluginExchangeBinding \<times> PluginExchangeSummary)" where
  "inspect_wire_owner C w bytes plugin signer profile =
     (let binding = \<lparr>plugin_id = plugin, signer_fingerprint_sha256 = signer, profile_id = profile,
            exchange_revision = object_revision (wire_binding w),
            exchange_base_revision = object_base_revision (wire_binding w),
            exchange_base_etag = object_base_etag (wire_binding w)\<rparr> in
      bind_result (validate_wire_any_supported C w binding) (\<lambda>_. Inr (binding, exchange_summary C w bytes)))"

definition inspect_plugin_exchange_owner ::
    "crypto \<Rightarrow> exchange_json \<Rightarrow> u8 list \<Rightarrow> ustring \<Rightarrow> ustring \<Rightarrow> ustring \<Rightarrow>
     SyncCodecError + (PluginExchangeBinding \<times> PluginExchangeSummary)" where
  "inspect_plugin_exchange_owner C X bytes plugin signer profile =
     bind_result (parse_wire X bytes) (\<lambda>w. inspect_wire_owner C w bytes plugin signer profile)"

definition inspect_plugin_exchange_data_owner ::
    "crypto \<Rightarrow> exchange_json \<Rightarrow> u8 list \<Rightarrow> ustring \<Rightarrow> ustring \<Rightarrow>
     SyncCodecError + (PluginExchangeBinding \<times> PluginExchangeSummary)" where
  "inspect_plugin_exchange_data_owner C X bytes plugin profile =
     bind_result (parse_wire X bytes) (\<lambda>w. inspect_wire_owner C w bytes plugin (wire_signer (wire_owner w)) profile)"

definition plugin_exchange_vault_key_envelope ::
    "crypto \<Rightarrow> exchange_json \<Rightarrow> u8 list \<Rightarrow> PluginExchangeBinding \<Rightarrow> SyncCodecError + u8 list" where
  "plugin_exchange_vault_key_envelope C X bytes expected =
     bind_result (parse_wire X bytes) (\<lambda>w.
     bind_result (validate_wire_with_format C w expected VAULT_EXCHANGE_FORMAT) (\<lambda>_.
     bind_result (decode_base64 C (wire_envelope (wire_recovery w)) (64 * 1024)) (\<lambda>envelope.
       if sha256_hex C envelope \<noteq> wire_envelope_sha256 (wire_recovery w) then Inl AuthenticationFailed
       else Inr envelope)))"

text \<open>The body of the document as the object that is decrypted.\<close>

definition encrypted_of_wire :: "crypto \<Rightarrow> ExchangeWire \<Rightarrow> SyncCodecError + EncryptedSyncObject" where
  "encrypted_of_wire C w =
     bind_result (sync_algorithm (wire_algorithm (wire_encrypted w))) (\<lambda>a.
     bind_result (decode_base64 C (wire_ciphertext (wire_encrypted w)) (64 * 1024 * 1024 + 16)) (\<lambda>ct.
       Inr \<lparr>algorithm = a, nonce_base64url = wire_nonce (wire_encrypted w), sealed = ct,
            ciphertext_sha256 = wire_ciphertext_sha256 (wire_encrypted w)\<rparr>))"

definition open_plugin_exchange_with_key ::
    "crypto \<Rightarrow> 'v json_api \<Rightarrow> 'v wire_json \<Rightarrow> exchange_json \<Rightarrow> u8 list \<Rightarrow> u8 list \<Rightarrow> PluginExchangeBinding \<Rightarrow>
     SyncCodecError + 'v PortableBundleV1" where
  "open_plugin_exchange_with_key C J W X bytes key expected =
     bind_result (parse_wire X bytes) (\<lambda>w.
     bind_result (validate_wire_with_format C w expected VAULT_EXCHANGE_FORMAT) (\<lambda>_.
     bind_result (encrypted_of_wire C w) (\<lambda>enc.
       decrypt_bundle_from_service C J W enc key (wire_binding w))))"

definition open_plugin_exchange ::
    "crypto \<Rightarrow> 'v json_api \<Rightarrow> 'v wire_json \<Rightarrow> exchange_json \<Rightarrow> u8 list \<Rightarrow> u8 list \<Rightarrow> PluginExchangeBinding \<Rightarrow>
     SyncCodecError + 'v PortableBundleV1" where
  "open_plugin_exchange C J W X bytes password expected =
     bind_result (parse_wire X bytes) (\<lambda>w.
     bind_result (validate_wire C w expected) (\<lambda>_.
     bind_result (decode_base64 C (wire_envelope (wire_recovery w)) (64 * 1024)) (\<lambda>recovery.
     bind_result (fail_if (sha256_hex C recovery \<noteq> wire_envelope_sha256 (wire_recovery w)) AuthenticationFailed) (\<lambda>_.
     bind_result (open_recovery_envelope C W recovery password
         (recovery_owner_for expected (key_version (wire_binding w)))) (\<lambda>key.
     bind_result (encrypted_of_wire C w) (\<lambda>enc.
       decrypt_bundle_from_service C J W enc key (wire_binding w)))))))"

section \<open>Binding\<close>

lemma ascii_len: "list_all (\<lambda>c. c < 128) v \<Longrightarrow> str_len v = length v"
proof (induction v)
  case Nil
  show ?case by (simp add: str_len_def as_bytes_def)
qed (simp add: str_len_Cons utf8_char_def)







section \<open>Reading back\<close>

lemma sha256_hex_valid:
  assumes "crypto_ok C"
  shows "valid_sha256 (sha256_hex C bs)"
proof -
  have hex: "list_all is_lower_hex (bytes_to_hex xs) \<and> length (bytes_to_hex xs) = 2 * length xs" for xs
  proof (induction xs)
    case (Cons x xs)
    have "unat x div 16 < 16" by (rule small_high)
    moreover have "unat x mod 16 < 16" by simp
    ultimately show ?case using Cons by (auto simp: bytes_to_hex_def is_lower_hex_def hex_digit_def is_ascii_digit_def)
  qed (simp add: bytes_to_hex_def)
  have "list_all (\<lambda>c. c < 128) (sha256_hex C bs)"
    using hex [of "sha256 C bs"] by (auto simp: sha256_hex_def is_lower_hex_def is_ascii_digit_def list_all_iff)
  then show ?thesis using hex [of "sha256 C bs"] crypto_okD(3) [OF assms]
    by (simp add: valid_sha256_def ascii_len) (simp add: sha256_hex_def)
qed

lemma decode_base64_encode:
  assumes "crypto_ok C" "length bs \<le> n"
  shows "decode_base64 C (base64_encode C bs) n = Inr bs"
  using base64_len_mono [OF assms(2)] assms(2) crypto_okD [OF assms(1)] by (simp add: decode_base64_def)

lemma exchange_wire_valid:
  assumes "crypto_ok C" "PluginExchangeBinding_validate binding = Inr ()" "current_schema s"
    "algorithm enc = SERVICE_SYNC_ALGORITHM" "ciphertext_sha256 enc = sha256_hex C (sealed enc)"
    "nonce_base64url enc = base64url_encode C nonce"
  shows "validate_wire_common C (exchange_wire C format binding (object_binding_for_schema binding 1 s) recovery enc) binding = Inr ()"
proof -
  have "authenticated_object_binding binding 1 s = Inr (object_binding_for_schema binding 1 s)"
    using assms(3) by (auto simp: authenticated_object_binding_def current_schema_def split: BundleSchema.splits)
  then show ?thesis
    using assms crypto_okD(4,6) [OF assms(1)] sha256_hex_valid [OF assms(1)]
    by (simp add: validate_wire_common_def exchange_wire_def object_binding_for_schema_def fail_if_def canonical_base64_def
        canonical_base64url_def)
qed

lemma exchange_reads_back:
  assumes "exchange_json_ok X" "exchange_bytes X w = Inr bytes"
  shows "parse_wire X bytes = Inr w"
  using assms by (auto simp: exchange_json_ok_def exchange_bytes_def parse_wire_def result_simps split: if_splits)

lemma encrypted_of_exchange:
  assumes "crypto_ok C" "algorithm enc = SERVICE_SYNC_ALGORITHM" "length (sealed enc) \<le> MAX_BUNDLE_PLAINTEXT_BYTES + 16"
  shows "encrypted_of_wire C (exchange_wire C format binding ob recovery enc) = Inr enc"
  using assms decode_base64_encode [OF assms(1), of "sealed enc" "64 * 1024 * 1024 + 16"]
  by (simp add: encrypted_of_wire_def exchange_wire_def sync_algorithm_def MAX_BUNDLE_PLAINTEXT_BYTES_def)

lemma wire_owner_inspected:
  assumes "validate_wire_common C (exchange_wire C format binding (object_binding_for_schema binding 1 s) recovery enc) binding = Inr ()"
    "format \<in> {EXCHANGE_FORMAT, VAULT_EXCHANGE_FORMAT}"
  shows "inspect_wire_owner C (exchange_wire C format binding (object_binding_for_schema binding 1 s) recovery enc) bytes
    (plugin_id binding) (signer_fingerprint_sha256 binding) (profile_id binding) =
    Inr (binding, exchange_summary C (exchange_wire C format binding (object_binding_for_schema binding 1 s) recovery enc) bytes)"
proof -
  have b: "\<lparr>plugin_id = plugin_id binding, signer_fingerprint_sha256 = signer_fingerprint_sha256 binding, profile_id = profile_id binding,
      exchange_revision = exchange_revision binding, exchange_base_revision = exchange_base_revision binding,
      exchange_base_etag = exchange_base_etag binding\<rparr> = binding" by simp
  have w: "wire_binding (exchange_wire C format binding (object_binding_for_schema binding 1 s) recovery enc) = object_binding_for_schema binding 1 s"
    "wire_format (exchange_wire C format binding (object_binding_for_schema binding 1 s) recovery enc) = format"
    by (simp_all add: exchange_wire_def)
  have fields: "object_revision (object_binding_for_schema binding 1 s) = exchange_revision binding"
    "object_base_revision (object_binding_for_schema binding 1 s) = exchange_base_revision binding"
    "object_base_etag (object_binding_for_schema binding 1 s) = exchange_base_etag binding"
    by (simp_all add: object_binding_for_schema_def)
  show ?thesis
    using assms by (auto simp: inspect_wire_owner_def w fields b validate_wire_any_supported_def fail_if_def)
qed

text \<open>What a created exchange looks like to its owner, in both forms.\<close>

lemma created_exchange:
  assumes "crypto_ok C" "exchange_json_ok X" "PluginExchangeBinding_validate binding = Inr ()"
    "current_schema (schema b)" "canonicalized J b = Inr c" "bundle_reads_back W c"
    "encrypt_bundle_for_service C J W i b key (object_binding_for_schema binding 1 (schema b)) = Inr enc"
    "exchange_bytes X (exchange_wire C format binding (object_binding_for_schema binding 1 (schema b)) recovery enc) = Inr bytes"
    "format \<in> {EXCHANGE_FORMAT, VAULT_EXCHANGE_FORMAT}"
  defines "w \<equiv> exchange_wire C format binding (object_binding_for_schema binding 1 (schema b)) recovery enc"
  shows "parse_wire X bytes = Inr w" "validate_wire_with_format C w binding format = Inr ()"
    "bind_result (encrypted_of_wire C w) (\<lambda>enc. decrypt_bundle_from_service C J W enc key (wire_binding w)) = Inr c"
    "inspect_plugin_exchange_owner C X bytes (plugin_id binding) (signer_fingerprint_sha256 binding) (profile_id binding) =
       Inr (binding, exchange_summary C w bytes)"
proof -
  note enc = service_object_reads_back [OF assms(1,7,5,6)]
  from enc(5) obtain nonce where nonce: "nonce_base64url enc = base64url_encode C nonce" ..
  note valid = exchange_wire_valid [OF assms(1,3,4) enc(3,4) nonce, of format recovery]
  show parse: "parse_wire X bytes = Inr w" unfolding w_def by (rule exchange_reads_back [OF assms(2,8)])
  show "validate_wire_with_format C w binding format = Inr ()"
    using valid by (simp add: validate_wire_with_format_def w_def fail_if_def) (simp add: exchange_wire_def)
  have "wire_binding w = object_binding_for_schema binding 1 (schema b)" by (simp add: w_def exchange_wire_def)
  then show "bind_result (encrypted_of_wire C w) (\<lambda>enc. decrypt_bundle_from_service C J W enc key (wire_binding w)) = Inr c"
    using encrypted_of_exchange [OF assms(1) enc(3,2)] enc(1) by (simp add: w_def)
  show "inspect_plugin_exchange_owner C X bytes (plugin_id binding) (signer_fingerprint_sha256 binding) (profile_id binding) =
       Inr (binding, exchange_summary C w bytes)"
    using parse wire_owner_inspected [OF valid assms(9)] by (simp add: inspect_plugin_exchange_owner_def w_def)
qed


section \<open>Properties\<close>

text \<open>
  (C13) An exchange with a password reads back. The document made for a bundle opens with the same password and binding, and
  gives the canonical form of the bundle; a new device that knows only plugin, signer and profile finds the
  binding in it, with the revision and schema of the bundle.
\<close>

theorem exchange_roundtrip:
  assumes "crypto_ok C" "json_ok W" "exchange_json_ok X" "\<forall>c. canonicalized J b = Inr c \<longrightarrow> bundle_reads_back W c"
    and "create_plugin_exchange C J W X i b password binding = Inr bytes"
  shows "is_ok (canonicalized J b) \<and> open_plugin_exchange C J W X bytes password binding = canonicalized J b \<and>
    (\<exists>s. inspect_plugin_exchange_owner C X bytes (plugin_id binding) (signer_fingerprint_sha256 binding) (profile_id binding) =
       Inr (binding, s) \<and> summary_revision s = revision b \<and> summary_schema s = schema b)"
proof -
  let ?ob = "object_binding_for_schema binding 1 (schema b)"
  from assms(5) obtain key recovery enc where
    ok: "PluginExchangeBinding_validate binding = Inr ()" "current_schema (schema b)" "revision b = exchange_revision binding"
      "SyncKey_generate C i = Inr key"
      "create_recovery_envelope_random C W (i + 1) key password (recovery_owner_for binding 1) = Inr recovery"
      "encrypt_bundle_for_service C J W (i + 3) b key ?ob = Inr enc"
      "exchange_bytes X (exchange_wire C EXCHANGE_FORMAT binding ?ob recovery enc) = Inr bytes"
    by (auto simp: create_plugin_exchange_def Let_def result_simps new_object_binding_def)
  from ok(6) obtain c where c: "canonicalized J b = Inr c"
    by (auto simp: encrypt_bundle_for_service_def canonical_bundle_bytes_def result_simps)
  have "length key = KEY_BYTES" using fill_random_ok [OF assms(1)] ok(4) by (auto simp: SyncKey_generate_def KEY_BYTES_def)
  note rec = recovery_envelope_reads_back [OF assms(1,2) ok(5) this]
  note w = created_exchange [OF assms(1,3) ok(1,2) c assms(4) [rule_format, OF c] ok(6,7) insertI1]
  have "open_plugin_exchange C J W X bytes password binding = Inr c"
    using w(1,2,3) rec decode_base64_encode [OF assms(1) rec(2)]
    by (simp add: open_plugin_exchange_def validate_wire_def) (simp add: exchange_wire_def object_binding_for_schema_def fail_if_def)
  then show ?thesis using w(4) ok(3) c
    by (auto simp: exchange_summary_def exchange_wire_def object_binding_for_schema_def)
qed

text \<open>
  (C15) An exchange with a key of the vault reads back. The document opens with the same key and binding to the canonical form
  of the bundle, the key envelope of the vault comes out unchanged, and the password form does not open it.
\<close>

theorem vault_exchange_roundtrip:
  assumes "crypto_ok C" "exchange_json_ok X" "\<forall>c. canonicalized J b = Inr c \<longrightarrow> bundle_reads_back W c"
    and "create_plugin_exchange_with_key C J W X i b key envelope binding = Inr bytes"
  shows "is_ok (canonicalized J b) \<and> open_plugin_exchange_with_key C J W X bytes key binding = canonicalized J b \<and>
    plugin_exchange_vault_key_envelope C X bytes binding = Inr envelope \<and>
    (\<forall>password expected. \<not> is_ok (open_plugin_exchange C J W X bytes password expected))"
proof -
  let ?ob = "object_binding_for_schema binding 1 (schema b)"
  from assms(4) obtain enc where
    ok: "PluginExchangeBinding_validate binding = Inr ()" "current_schema (schema b)"
      "encrypt_bundle_for_service C J W i b key ?ob = Inr enc"
      "exchange_bytes X (exchange_wire C VAULT_EXCHANGE_FORMAT binding ?ob envelope enc) = Inr bytes"
      "length envelope \<le> 64 * 1024"
    by (auto simp: create_plugin_exchange_with_key_def Let_def result_simps new_object_binding_def)
  from ok(3) obtain c where c: "canonicalized J b = Inr c"
    by (auto simp: encrypt_bundle_for_service_def canonical_bundle_bytes_def result_simps)
  note w = created_exchange [OF assms(1,2) ok(1,2) c assms(3) [rule_format, OF c] ok(3,4) insertI2 [OF singletonI]]
  have opened: "open_plugin_exchange_with_key C J W X bytes key binding = Inr c"
    using w(1,2,3) by (simp add: open_plugin_exchange_with_key_def)
  have envelope: "plugin_exchange_vault_key_envelope C X bytes binding = Inr envelope"
    using w(1,2) decode_base64_encode [OF assms(1) ok(5)]
    by (simp add: plugin_exchange_vault_key_envelope_def) (simp add: exchange_wire_def)
  have formats: "VAULT_EXCHANGE_FORMAT \<noteq> EXCHANGE_FORMAT" by (simp add: VAULT_EXCHANGE_FORMAT_def EXCHANGE_FORMAT_def U_def)
  have "\<not> is_ok (open_plugin_exchange C J W X bytes password expected)" for password expected
    using w(1) formats
    by (simp add: open_plugin_exchange_def validate_wire_def validate_wire_with_format_def fail_if_def) (simp add: exchange_wire_def)
  then show ?thesis using opened envelope c by simp
qed


definition sample_exchange_binding :: PluginExchangeBinding where
  "sample_exchange_binding =
     \<lparr>plugin_id = U ''a:b'', signer_fingerprint_sha256 = replicate 64 97, profile_id = U ''p'', exchange_revision = 1,
      exchange_base_revision = None, exchange_base_etag = None\<rparr>"

definition sample_exchange :: "ustring \<Rightarrow> u8 list \<Rightarrow> u8 list \<Rightarrow> ExchangeWire" where
  "sample_exchange format recovery nonce =
     exchange_wire sample_crypto format sample_exchange_binding (object_binding_for_schema sample_exchange_binding 1 V6_bundle) recovery
       \<lparr>algorithm = SERVICE_SYNC_ALGORITHM, nonce_base64url = b64 nonce, sealed = replicate 8 7 @ replicate 16 0,
        ciphertext_sha256 = sha256_hex sample_crypto []\<rparr>"

definition sample_exchange_json :: "ExchangeWire \<Rightarrow> exchange_json" where
  "sample_exchange_json w = \<lparr>exchange_to_json = one_value w 50, exchange_from_json = read_value w 50\<rparr>"

lemma sample_exchange_json_ok: "exchange_json_ok (sample_exchange_json w)"
  by (simp add: exchange_json_ok_def sample_exchange_json_def one_value_def read_value_def)

lemma sample_reads_back: "bundle_reads_back (sample_wire_json account) b"
  by (simp add: bundle_reads_back_def sample_wire_json_def one_value_def read_value_def)

abbreviation sample_W :: "unit wire_json" where
  "sample_W \<equiv> sample_wire_json (owner_id sample_exchange_binding)"

definition sample_password_json :: exchange_json where
  "sample_password_json = sample_exchange_json (sample_exchange EXCHANGE_FORMAT (replicate 100 7) (replicate 24 3))"

definition sample_vault_json :: exchange_json where
  "sample_vault_json = sample_exchange_json (sample_exchange VAULT_EXCHANGE_FORMAT [1, 2] (replicate 24 0))"

theorem exchange_roundtrip_witness:
  "\<exists>bytes c. create_plugin_exchange sample_crypto sample_json sample_W sample_password_json 0
       (sample_bundle [sample_secret 5, sample_secret 3]) (replicate 8 1) sample_exchange_binding = Inr bytes \<and>
     open_plugin_exchange sample_crypto sample_json sample_W sample_password_json bytes (replicate 8 1)
       sample_exchange_binding = Inr c"
proof -
  have "is_ok (create_plugin_exchange sample_crypto sample_json sample_W sample_password_json 0
       (sample_bundle [sample_secret 5, sample_secret 3]) (replicate 8 1) sample_exchange_binding)" by code_simp
  then obtain bytes where b: "create_plugin_exchange sample_crypto sample_json sample_W sample_password_json 0
       (sample_bundle [sample_secret 5, sample_secret 3]) (replicate 8 1) sample_exchange_binding = Inr bytes"
    by (auto simp: is_ok_iff)
  have X: "exchange_json_ok sample_password_json" unfolding sample_password_json_def by (rule sample_exchange_json_ok)
  from exchange_roundtrip [OF sample_crypto_ok sample_wire_json_ok X _ b] sample_reads_back b
  show ?thesis by (metis is_ok_iff)
qed

theorem vault_exchange_roundtrip_witness:
  "\<exists>bytes c. create_plugin_exchange_with_key sample_crypto sample_json sample_W sample_vault_json 0
       (sample_bundle [sample_secret 5, sample_secret 3]) (replicate 32 1) [1, 2] sample_exchange_binding = Inr bytes \<and>
     open_plugin_exchange_with_key sample_crypto sample_json sample_W sample_vault_json bytes (replicate 32 1)
       sample_exchange_binding = Inr c"
proof -
  have "is_ok (create_plugin_exchange_with_key sample_crypto sample_json sample_W sample_vault_json 0
       (sample_bundle [sample_secret 5, sample_secret 3]) (replicate 32 1) [1, 2] sample_exchange_binding)" by code_simp
  then obtain bytes where b: "create_plugin_exchange_with_key sample_crypto sample_json sample_W sample_vault_json 0
       (sample_bundle [sample_secret 5, sample_secret 3]) (replicate 32 1) [1, 2] sample_exchange_binding = Inr bytes"
    by (auto simp: is_ok_iff)
  have X: "exchange_json_ok sample_vault_json" unfolding sample_vault_json_def by (rule sample_exchange_json_ok)
  from vault_exchange_roundtrip [OF sample_crypto_ok X _ b] sample_reads_back b show ?thesis by (metis is_ok_iff)
qed


end
