(* ===== verification/Spec2Isabelle.thy ===== *)
theory Spec2Isabelle
  imports TelnetTransport DesktopFrame SyncThreeWay OpenSshConfig LifecycleWeak AppExit OperationLedger LinuxMetrics
    SyncExchange
begin

text \<open>
  A verification library for NoriShell, a desktop client for SSH, Telnet, RDP and VNC sessions with
  synchronised connection profiles. It models the parts of the Rust program whose behaviour is decided by
  the program itself, and states what makes them correct. Every definition is executable.

  \<^bold>\<open>The parts and their theories.\<close>

  \<^item> \<open>Prelude\<close>, \<open>RustStr\<close>, \<open>NetAddr\<close> and \<open>BTree\<close> hold what the parts share: results as sums with
    \<open>Inl\<close> for the error, the contract of a streaming decoder, strings as lists of code points with their
    UTF-8 bytes, the addresses of the standard library with the proof that printing and parsing are
    inverse, and the ordered map with its interface.

  \<^item> \<open>TelnetProtocol\<close> and \<open>TelnetTransport\<close> model \<open>crates/telnet-runtime\<close>: the decoder of the telnet
    stream byte by byte (\<open>TelnetCodec::decode\<close>), the encoders, and the transport with its buffers, time limits
    and write loops. The socket is a script of chunks and of accepted lengths. The lemmas show that
    the data a session delivers does not depend on how the network cut it, that every reply
    is written once and in order and never mixed with user input, that buffers stay within their
    bounds, and that encoding and decoding are inverse.

  \<^item> \<open>DesktopRegion\<close> and \<open>DesktopFrame\<close> model \<open>crates/desktop-protocol\<close>: dirty rectangles at their
    16-bit width and frames as byte vectors. The lemmas show that a dirty region never loses a changed
    pixel, that patches reconstruct the frame, that copies read before they write, and which sizes
    and inputs are admitted.

  \<^item> \<open>SyncSchema\<close>, \<open>SyncValidate\<close>, \<open>SyncGraph\<close>, \<open>SyncMerge\<close> and \<open>SyncThreeWay\<close> model the schema and the
    merge of \<open>crates/ssh-profile-sync\<close>: the portable objects, the validation and canonical form of a bundle,
    its dependency graph, and the three-way merge. \<open>SyncThreeWay\<close> gives the abstract merge of each item and proves that
    the program implements it; the other lemmas show that the merge never panics, that its result
    is closed under references, and that conflicts are exactly the divergent edits, settled by connected component.

  \<^item> \<open>SyncCrypto\<close> and \<open>SyncExchange\<close> model the encryption of bundles, the recovery of keys, offline backups and the documents
    that synchronisation plugins store, in the same crate. The lemmas show that what was written reads back, that an
    opened document was sealed for its binding and no other, and that a recovery envelope opens for one owner only.

  \<^item> \<open>SshEndpoint\<close> and \<open>OpenSshConfig\<close> model \<open>crates/ssh-domain\<close>: the normal form of host addresses and
    the key under which a host key is trusted, and the import preview of OpenSSH configurations from characters to
    candidates. The lemmas show that two endpoints share a trust key only if they are equal, that the pattern table
    decides the declarative pattern relation, that quoted values read back, that the first value
    of a slot wins, that previews are well formed, and that a host called importable has no
    unsupported line in any section that applies to it.

  \<^item> \<open>LifecycleGate\<close>, \<open>LifecycleWeak\<close> and \<open>AppExit\<close> model \<open>src-tauri/src/lifecycle.rs\<close> and
    \<open>src-tauri/src/tool_window_exit.rs\<close>: the gate that fences resource creation while the application exits, as
    interleaved atomic steps, and the handlers that use it. The lemmas show that the fence holds and
    that every cleanup returns when accesses are sequentially consistent, that the orderings of the
    source are weaker than that, that an exit disconnects nothing without consent, and that the vote of the tool
    windows is counted right.

  \<^item> \<open>OperationLedger\<close> models \<open>src-tauri/src/ssh_operation_ledger.rs\<close> and
    \<open>src-tauri/src/terminal_focus_broker.rs\<close>, two bounded memories of completed operations, through one
    interface: an operation runs once, and a repeated request gets the first answer.

  \<^item> \<open>LinuxMetrics\<close> models \<open>crates/server-metrics/src/linux.rs\<close>: the bounded parsers of the probe output and the provider
    that turns counters into rates. The lemmas show that a sample is exact, why it may fail, and that a
    failed one leaves the baseline alone.

  \<^bold>\<open>How the parts interact.\<close> The OpenSSH preview builds its endpoints with \<open>SshEndpoint\<close>; the merge validates its
  inputs with \<open>SyncValidate\<close> and its closure with \<open>SyncGraph\<close>; an exchange seals the canonical form of
  \<open>SyncValidate\<close> with \<open>SyncCrypto\<close>; the exit handlers drive the lifecycle gate.
  Interfaces between parts are locales, each interpreted on the definitions of the model: \<open>stream_decoder\<close> on the
  telnet decoder, \<open>ordered_map\<close> on the ordered map, \<open>components\<close> on the conflict components, and
  \<open>operation_log\<close> on both ledgers.

  \<^bold>\<open>State, errors and bounds.\<close> A method that mutates its object takes the state and returns the new one; a
  method that can fail returns a sum; a panic is the value \<open>Panic\<close>. Integers have the width of the source
  where it matters, and limits on lengths are in bytes where the source counts bytes. No loop needs fuel: loops are
  recursive functions with termination proofs, whose measures are the input that is left, the script of the
  socket, or the nodes that were not visited yet.
  Code of other packages is an argument: the wall clock, random bytes and identifiers, the cipher, key
  derivation, hash functions, base64, JSON, preference values, and tokio's \<open>Notify\<close>. Of these only what their documentation
  says is assumed, by named predicates such as \<open>crypto_ok\<close>, \<open>json_ok\<close> and \<open>wakes\<close>; nothing is assumed about what an attacker
  cannot compute.

  \<^bold>\<open>Not modelled.\<close> Serialisation attributes and debug output, and the erasure of buffers; the vault, which is files and key stores of the operating system; the repositories over SQLite; the SSH, RDP and VNC clients, which drive other packages over
  sockets; the session and plugin services, which own operating-system resources; windows, trays and notifications; the
  user interface in TypeScript; and the Android bridge.
\<close>

end
